(* ===== verification/KeeperPrelude.thy ===== *)
theory KeeperPrelude
  imports Main "HOL-Library.Word" "HOL-Library.Sublist"
begin

text \<open>
  What every theory of the development shares: the names of the model's basic types, the values
  a JavaScript program throws, the collections of rules the component proofs use, and generic
  facts on lists, options and sums.
\<close>

section \<open>Basic types\<close>

text \<open>
  A JavaScript string is a sequence of 16-bit code units; \<open>length\<close>, \<open>slice\<close> and comparison
  all count code units, so a character outside the basic plane is a surrogate pair of length 2.
\<close>

type_synonym code_unit = "16 word"
type_synonym jstring = "code_unit list"

text \<open>
  \<open>Hex\<close> and \<open>Address\<close> of viem are strings; \<open>bigint\<close> values that the code only ever reads as
  unsigned contract integers are natural numbers; clock readings are integers.
\<close>

type_synonym hex = jstring
type_synonym address = jstring
type_synonym millis = int

text \<open>An ASCII literal of the source as code units.\<close>

definition js :: "string \<Rightarrow> jstring" where
  "js s = map of_char s"

lemma length_js [simp]: "length (js s) = length s"
  by (simp add: js_def)

lemma js_Nil [simp]: "js [] = []"
  by (simp add: js_def)

section \<open>Thrown values\<close>

text \<open>
  JavaScript throws any value. \<open>ErrorObject m\<close> is an instance of \<open>Error\<close> with message \<open>m\<close>;
  \<open>ThrownValue s\<close> is anything else, known by what \<open>String(value)\<close> makes of it.
  A call that may throw returns \<open>exn + 'a\<close>, with \<open>Inl\<close> for the throw.
\<close>

datatype exn = ErrorObject jstring | ThrownValue jstring

text \<open>
  A call on the outside world threads the world's state: it answers or throws, and it may have
  changed the world either way. Nothing is assumed of the world's type \<open>'w\<close>.
\<close>

type_synonym ('w, 'a) effect = "'w \<Rightarrow> (exn + 'a) \<times> 'w"

section \<open>Rule collections\<close>

named_theorems js_simps \<open>equations of the string operations on concrete shapes\<close>
named_theorems cycle_inv \<open>preservation of the invariants of a cycle result\<close>
named_theorems config_simps \<open>characterisations of the accepted configuration values\<close>
named_theorems registry_inv \<open>preservation of the registry's storage invariant\<close>

section \<open>Lists\<close>

text \<open>The characters of a list that satisfy a predicate at every position.\<close>

lemma list_all_takeWhile [simp]: "list_all P (takeWhile P xs)"
  by (induction xs) auto

lemma filter_length_partition:
  "length (filter P xs) + length (filter (\<lambda>x. \<not> P x) xs) = length xs"
  by (induction xs) auto

text \<open>Rotation by a position inside the list, as two slices.\<close>

lemma mset_drop_take [simp]: "set (drop n xs) \<union> set (take n xs) = set xs"
  by (metis append_take_drop_id set_append sup_commute)

lemma distinct_drop_take:
  "distinct xs \<Longrightarrow> distinct (drop n xs @ take n xs)"
  by (metis append_take_drop_id distinct_append inf_commute)

lemma concat_take_drop_pages:
  assumes "0 < k"
  shows "concat (map (\<lambda>i. take k (drop (i * k) xs)) [0..<n]) = take (n * k) xs"
proof (induction n)
  case 0
  then show ?case by simp
next
  case (Suc n)
  have "take (Suc n * k) xs = take (n * k) xs @ take k (drop (n * k) xs)"
    by (simp add: take_add [symmetric] add.commute)
  then show ?case using Suc by simp
qed

text \<open>The number of pages that covers a list.\<close>

lemma ceil_div_covers:
  assumes "0 < (k::nat)"
  shows "n \<le> ((n + k - 1) div k) * k"
proof -
  let ?q = "(n + k - 1) div k" and ?r = "(n + k - 1) mod k"
  have "n + k - 1 = ?q * k + ?r" by simp
  moreover have "?r \<le> k - 1" using assms
    by (metis One_nat_def Suc_pred less_Suc_eq_le mod_less_divisor)
  ultimately show ?thesis using assms by linarith
qed

section \<open>Options and sums\<close>

fun is_Inl :: "'a + 'b \<Rightarrow> bool" where
  "is_Inl (Inl _) = True"
| "is_Inl (Inr _) = False"

lemma is_Inl_iff: "is_Inl x \<longleftrightarrow> (\<exists>e. x = Inl e)"
  by (cases x) auto

text \<open>JavaScript's \<open>a ?? b\<close>.\<close>

definition nullish :: "'a option \<Rightarrow> 'a \<Rightarrow> 'a" where
  "nullish a b = (case a of None \<Rightarrow> b | Some x \<Rightarrow> x)"

lemma nullish_simps [simp]: "nullish None b = b" "nullish (Some x) b = x"
  by (simp_all add: nullish_def)

text \<open>
  The truthiness of an optional string: \<open>undefined\<close> and the empty string are falsy. The value is
  kept when it is truthy, as in \<open>...(s ? { s } : {})\<close>.
\<close>

definition truthy :: "jstring option \<Rightarrow> jstring option" where
  "truthy s = (case s of None \<Rightarrow> None | Some t \<Rightarrow> if t = [] then None else Some t)"

lemma truthy_simps [simp]:
  "truthy None = None" "truthy (Some []) = None" "t \<noteq> [] \<Longrightarrow> truthy (Some t) = Some t"
  by (simp_all add: truthy_def)

lemma truthy_Some_iff: "truthy s = Some t \<longleftrightarrow> s = Some t \<and> t \<noteq> []"
  by (auto simp: truthy_def split: option.splits)

lemma truthy_None_iff: "truthy s = None \<longleftrightarrow> s = None \<or> s = Some []"
  by (auto simp: truthy_def split: option.splits)

text \<open>The elements an optional value contributes to a list.\<close>

fun opt_list :: "'a option \<Rightarrow> 'a list" where
  "opt_list None = []"
| "opt_list (Some x) = [x]"

lemma map_filter_snoc: "List.map_filter f (xs @ [x]) = List.map_filter f xs @ opt_list (f x)"
  by (cases "f x") (simp_all add: List.map_filter_def)

lemma map_filter_Nil [simp]: "List.map_filter f [] = []"
  by (simp add: List.map_filter_def)

end
