(* ===== verification/JsText.thy ===== *)
theory JsText
  imports KeeperPrelude
begin

text \<open>
  The string operations of JavaScript that the keeper uses, on 16-bit code units: \<open>trim\<close>,
  \<open>split\<close>, \<open>join\<close>, \<open>includes\<close>, \<open>startsWith\<close> and \<open>toLowerCase\<close>. The source calls them in \<open>services/keeper/src/config.ts\<close>,
  \<open>reporting.ts\<close>, \<open>events.ts\<close> and \<open>notifications/telegram.ts\<close>.

  A bound of the model: \<open>js_lower\<close> lowers the ASCII letters only. The code compares hexadecimal
  addresses and the words true and false with it, and no code point outside ASCII lowers to a
  letter of those.
\<close>

section \<open>White space and trimming\<close>

text \<open>The code units \<open>String.prototype.trim\<close> removes: WhiteSpace and LineTerminator of ECMAScript.\<close>

definition white_units :: "code_unit list" where
  "white_units =
     [0x9, 0xA, 0xB, 0xC, 0xD, 0x20, 0xA0, 0x1680, 0x2000, 0x2001, 0x2002, 0x2003, 0x2004,
      0x2005, 0x2006, 0x2007, 0x2008, 0x2009, 0x200A, 0x2028, 0x2029, 0x202F, 0x205F, 0x3000,
      0xFEFF]"

definition is_white :: "code_unit \<Rightarrow> bool" where
  "is_white c \<longleftrightarrow> c \<in> set white_units"

definition js_trim :: "jstring \<Rightarrow> jstring" where
  "js_trim s = rev (dropWhile is_white (rev (dropWhile is_white s)))"

text \<open>A string is trimmed when neither end is white.\<close>

definition trimmed :: "jstring \<Rightarrow> bool" where
  "trimmed s \<longleftrightarrow> s = [] \<or> (\<not> is_white (hd s) \<and> \<not> is_white (last s))"

lemma js_trim_Nil [simp]: "js_trim [] = []"
  by (simp add: js_trim_def)

lemma js_trim_infix: "\<exists>us vs. s = us @ js_trim s @ vs"
proof -
  let ?d = "dropWhile is_white s"
  have "s = takeWhile is_white s @ ?d" by simp
  moreover have "?d = js_trim s @ rev (takeWhile is_white (rev ?d))"
    unfolding js_trim_def by (metis rev_append rev_rev_ident takeWhile_dropWhile_id)
  ultimately show ?thesis by metis
qed

lemma set_js_trim: "set (js_trim s) \<subseteq> set s"
  using js_trim_infix [of s] by (metis le_sup_iff set_append subset_refl sup_commute)

lemma length_js_trim: "length (js_trim s) \<le> length s"
  using js_trim_infix [of s] by (metis le_add1 le_add2 le_trans length_append)

lemma trimmed_js_trim: "trimmed (js_trim s)"
proof (cases "js_trim s = []")
  case True
  then show ?thesis by (simp add: trimmed_def)
next
  case False
  let ?d = "dropWhile is_white s"
  let ?e = "dropWhile is_white (rev ?d)"
  have eq: "js_trim s = rev ?e" by (simp add: js_trim_def)
  with False have e: "?e \<noteq> []" by simp
  then have "?d \<noteq> []" by (metis dropWhile.simps(1) rev.simps(1))
  then have hd_d: "\<not> is_white (hd ?d)" by (rule hd_dropWhile)
  from e have "\<not> is_white (hd ?e)" by (rule hd_dropWhile)
  then have l: "\<not> is_white (last (js_trim s))" using e by (simp add: eq last_rev)
  have "rev ?d = takeWhile is_white (rev ?d) @ ?e" by simp
  then have "last (rev ?d) = last ?e" using e by (metis last_appendR)
  then have "hd (js_trim s) = hd ?d" using e \<open>?d \<noteq> []\<close> by (simp add: eq hd_rev last_rev)
  then show ?thesis using hd_d l by (simp add: trimmed_def)
qed

lemma js_trim_id: "trimmed s \<Longrightarrow> js_trim s = s"
proof (cases s)
  case Nil
  then show ?thesis by simp
next
  case (Cons c cs)
  assume t: "trimmed s"
  then have "dropWhile is_white s = s" using Cons by (simp add: trimmed_def)
  moreover have "dropWhile is_white (rev s) = rev s"
    using t Cons by (cases "rev s") (auto simp: trimmed_def hd_rev [symmetric])
  ultimately show ?thesis by (simp add: js_trim_def)
qed

lemma js_trim_idem [simp]: "js_trim (js_trim s) = js_trim s"
  by (rule js_trim_id [OF trimmed_js_trim])

text \<open>Trimming looks through white space added at either end of a string that starts and ends in text.\<close>

lemma js_trim_pad:
  assumes "trimmed s" "s \<noteq> []" "\<forall>c \<in> set us. is_white c" "\<forall>c \<in> set vs. is_white c"
  shows "js_trim (us @ s @ vs) = s"
proof -
  have "dropWhile is_white (us @ s @ vs) = s @ vs"
    using assms by (cases s) (auto simp: trimmed_def dropWhile_append1 dropWhile_append2)
  moreover have "dropWhile is_white (rev (s @ vs)) = rev s"
  proof -
    have "dropWhile is_white (rev vs @ rev s) = dropWhile is_white (rev s)"
      by (rule dropWhile_append2) (use assms in auto)
    also have "\<dots> = rev s"
      using assms by (cases "rev s") (auto simp: trimmed_def hd_rev [symmetric])
    finally show ?thesis by simp
  qed
  ultimately show ?thesis by (simp add: js_trim_def)
qed

section \<open>Prefixes, substrings, slices\<close>

definition js_starts_with :: "jstring \<Rightarrow> jstring \<Rightarrow> bool" where
  "js_starts_with p s \<longleftrightarrow> take (length p) s = p"

text \<open>\<open>s.slice(0, n)\<close> and \<open>s.slice(n)\<close> for non-negative \<open>n\<close>.\<close>

abbreviation slice_to :: "jstring \<Rightarrow> nat \<Rightarrow> jstring" where
  "slice_to s n \<equiv> take n s"

abbreviation slice_from :: "jstring \<Rightarrow> nat \<Rightarrow> jstring" where
  "slice_from s n \<equiv> drop n s"

fun js_includes :: "jstring \<Rightarrow> jstring \<Rightarrow> bool" where
  "js_includes p [] = (p = [])"
| "js_includes p (c # cs) = (js_starts_with p (c # cs) \<or> js_includes p cs)"

lemma js_starts_with_prefix: "js_starts_with p s \<longleftrightarrow> prefix p s"
  unfolding js_starts_with_def by (metis append_eq_conv_conj append_take_drop_id prefix_def)

lemma js_includes_sublist: "js_includes p s \<longleftrightarrow> sublist p s"
proof (induction s)
  case Nil
  then show ?case by simp
next
  case (Cons c cs)
  then show ?case by (auto simp: sublist_Cons_right js_starts_with_prefix)
qed

section \<open>Splitting, joining, replacing\<close>

text \<open>
  \<open>split(sep)\<close> scans from the left; each occurrence of a non-empty separator ends a piece, and
  the scan goes on behind it. The accumulator holds the current piece backwards.
\<close>

function split_on :: "jstring \<Rightarrow> jstring \<Rightarrow> jstring \<Rightarrow> jstring list" where
  "split_on sep acc [] = [rev acc]"
| "split_on sep acc (c # cs) =
     (if sep \<noteq> [] \<and> js_starts_with sep (c # cs)
      then rev acc # split_on sep [] (drop (length sep) (c # cs))
      else split_on sep (c # acc) cs)"
  by pat_completeness auto
termination
  by (relation "measure (\<lambda>(sep, acc, s). length s)") auto

text \<open>With an empty separator \<open>split\<close> gives the single code units.\<close>

definition js_split :: "jstring \<Rightarrow> jstring \<Rightarrow> jstring list" where
  "js_split sep s = (if sep = [] then map (\<lambda>c. [c]) s else split_on sep [] s)"

fun js_join :: "jstring \<Rightarrow> jstring list \<Rightarrow> jstring" where
  "js_join sep [] = []"
| "js_join sep [x] = x"
| "js_join sep (x # y # zs) = x @ sep @ js_join sep (y # zs)"

text \<open>\<open>acc.split(from).join(to)\<close>: every occurrence of \<open>from\<close>, left to right, becomes \<open>to\<close>.\<close>

definition replace_all :: "jstring \<Rightarrow> jstring \<Rightarrow> jstring \<Rightarrow> jstring" where
  "replace_all fr to s = js_join to (js_split fr s)"

lemma split_on_nonempty: "split_on sep acc s \<noteq> []"
  by (induction sep acc s rule: split_on.induct) auto

lemma js_join_Cons: "xs \<noteq> [] \<Longrightarrow> js_join sep (x # xs) = x @ sep @ js_join sep xs"
  by (cases xs) auto

lemma join_split_on_acc:
  "js_join to (split_on sep acc s) = rev acc @ js_join to (split_on sep [] s)"
proof (induction s arbitrary: acc)
  case Nil
  then show ?case by simp
next
  case (Cons c cs)
  show ?case
  proof (cases "sep \<noteq> [] \<and> js_starts_with sep (c # cs)")
    case True
    then show ?thesis by (simp add: js_join_Cons split_on_nonempty)
  next
    case False
    then have "js_join to (split_on sep acc (c # cs)) = js_join to (split_on sep (c # acc) cs)"
      and "js_join to (split_on sep [] (c # cs)) = js_join to (split_on sep [c] cs)"
      by auto
    then show ?thesis using Cons.IH [of "c # acc"] Cons.IH [of "[c]"] by simp
  qed
qed

lemma replace_all_Nil [js_simps]: "replace_all fr to [] = []"
  by (cases "fr = []") (simp_all add: replace_all_def js_split_def)

lemma replace_all_hit [js_simps]:
  "fr \<noteq> [] \<Longrightarrow> js_starts_with fr s \<Longrightarrow>
   replace_all fr to s = to @ replace_all fr to (drop (length fr) s)"
proof -
  assume fr: "fr \<noteq> []" and hit: "js_starts_with fr s"
  then obtain c cs where s: "s = c # cs"
    by (cases s) (auto simp: js_starts_with_def)
  show ?thesis using fr hit
    by (simp add: replace_all_def js_split_def s js_join_Cons split_on_nonempty)
qed

lemma replace_all_miss [js_simps]:
  "fr \<noteq> [] \<Longrightarrow> \<not> js_starts_with fr (c # cs) \<Longrightarrow>
   replace_all fr to (c # cs) = c # replace_all fr to cs"
  by (simp add: replace_all_def js_split_def join_split_on_acc [where acc = "[c]"])

lemma replace_all_induct [consumes 1, case_names Nil hit miss]:
  assumes "fr \<noteq> []"
    and "P []"
    and "\<And>s. js_starts_with fr s \<Longrightarrow> P (drop (length fr) s) \<Longrightarrow> P s"
    and "\<And>c cs. \<not> js_starts_with fr (c # cs) \<Longrightarrow> P cs \<Longrightarrow> P (c # cs)"
  shows "P s"
proof (induction s rule: length_induct)
  case (1 s)
  show ?case
  proof (cases s)
    case Nil
    then show ?thesis using assms(2) by simp
  next
    case (Cons c cs)
    then show ?thesis using 1 assms by (cases "js_starts_with fr s") auto
  qed
qed

text \<open>Joining with the separator undoes splitting.\<close>

lemma join_split: "js_join sep (js_split sep s) = s"
proof (cases "sep = []")
  case True
  have "js_join [] (map (\<lambda>c. [c]) s) = s"
  proof (induction s)
    case (Cons c cs)
    then show ?case by (cases cs) auto
  qed simp
  then show ?thesis using True by (simp add: js_split_def)
next
  case False
  then have "replace_all sep sep s = s"
  proof (induction s rule: replace_all_induct)
    case (hit s)
    then show ?case using False
      by (simp add: replace_all_hit) (metis append_take_drop_id js_starts_with_def)
  qed (simp_all add: js_simps False)
  then show ?thesis by (simp add: replace_all_def)
qed

text \<open>A text without the pattern is left alone.\<close>

lemma replace_all_absent: "\<not> js_includes fr s \<Longrightarrow> replace_all fr to s = s"
proof -
  assume a: "\<not> js_includes fr s"
  then have fr: "fr \<noteq> []" by (auto simp: js_includes_sublist)
  from fr a show ?thesis
  proof (induction s rule: replace_all_induct)
    case (hit s)
    then show ?case by (cases s) (auto simp: js_starts_with_def)
  qed (simp_all add: js_simps fr)
qed

text \<open>Splitting at a single code unit leaves pieces without it.\<close>

lemma split_on_char_pieces:
  "p \<in> set (split_on [c] acc s) \<Longrightarrow> c \<notin> set acc \<Longrightarrow> c \<notin> set p"
  by (induction "[c]" acc s rule: split_on.induct)
    (auto simp: js_starts_with_def split: if_splits)

lemma js_split_char_pieces: "p \<in> set (js_split [c] s) \<Longrightarrow> c \<notin> set p"
  using split_on_char_pieces [of p c "[]" s] by (simp add: js_split_def)

lemma split_on_set: "p \<in> set (split_on sep acc s) \<Longrightarrow> set p \<subseteq> set acc \<union> set s"
proof (induction sep acc s rule: split_on.induct)
  case (2 sep acc c cs)
  then show ?case using set_drop_subset [of "length sep" "c # cs"]
    by (fastforce split: if_splits)
qed auto

section \<open>Letter case\<close>

definition lower_unit :: "code_unit \<Rightarrow> code_unit" where
  "lower_unit c = (if 0x41 \<le> c \<and> c \<le> 0x5A then c + 0x20 else c)"

definition js_lower :: "jstring \<Rightarrow> jstring" where
  "js_lower s = map lower_unit s"

lemma length_js_lower [simp]: "length (js_lower s) = length s"
  by (simp add: js_lower_def)

text \<open>Addresses and ids compare without regard to letter case, as the source does it.\<close>

definition same_hex :: "hex \<Rightarrow> hex \<Rightarrow> bool" where
  "same_hex a b \<longleftrightarrow> js_lower a = js_lower b"

lemma same_hex_refl [simp]: "same_hex a a"
  by (simp add: same_hex_def)

end
