(* ===== verification/JsNumber.thy ===== *)
theory JsNumber
  imports JsText "HOL-Library.Log_Nat"
begin

text \<open>
  Numbers and text. A JavaScript \<open>number\<close> is a 64-bit float; \<open>round_double\<close> is the rounding of a
  natural number to a 53-bit significand (to nearest, ties to even), which is what
  \<open>Number("digits")\<close> does, so \<open>Number.isSafeInteger\<close> in \<open>services/keeper/src/config.ts\<close> means
  what it means there. \<open>string_to_number\<close> reads the empty string and digit strings itself and
  takes the rest of the numeric literal grammar (signs, fractions, exponents, radix prefixes,
  \<open>Infinity\<close>) as its first argument. \<open>dec\<close> is the decimal rendering of a non-negative integer in
  a template literal or by \<open>toString()\<close>.
\<close>

section \<open>Digits\<close>

definition is_digit :: "code_unit \<Rightarrow> bool" where
  "is_digit c \<longleftrightarrow> 0x30 \<le> c \<and> c \<le> 0x39"

text \<open>The regular expression \<open>/^\d+$/\<close>.\<close>

definition all_digits :: "jstring \<Rightarrow> bool" where
  "all_digits s \<longleftrightarrow> s \<noteq> [] \<and> list_all is_digit s"

definition digit_value :: "code_unit \<Rightarrow> nat" where
  "digit_value c = unat c - 0x30"

definition dec_value :: "jstring \<Rightarrow> nat" where
  "dec_value s = foldl (\<lambda>n c. 10 * n + digit_value c) 0 s"

fun dec :: "nat \<Rightarrow> jstring" where
  "dec n = (if n < 10 then [of_nat (0x30 + n)] else dec (n div 10) @ [of_nat (0x30 + n mod 10)])"

declare dec.simps [simp del]

lemma digit_unit:
  assumes "d < 10"
  shows "is_digit (of_nat (0x30 + d) :: code_unit)" "digit_value (of_nat (0x30 + d)) = d"
proof -
  have u: "unat (of_nat (0x30 + d) :: code_unit) = 0x30 + d"
    using assms by (simp add: unat_of_nat del: of_nat_add)
  then show "digit_value (of_nat (0x30 + d)) = d"
    unfolding digit_value_def by (metis add_diff_cancel_left')
  show "is_digit (of_nat (0x30 + d) :: code_unit)"
    unfolding is_digit_def word_le_nat_alt using assms by (simp add: u del: of_nat_add)
qed

lemma dec_not_Nil [simp]: "dec n \<noteq> []"
  by (subst dec.simps) simp

lemma all_digits_dec: "all_digits (dec n)"
proof (induction n rule: dec.induct)
  case (1 n)
  then show ?case
    using digit_unit(1) [of n] digit_unit(1) [of "n mod 10"]
    by (subst dec.simps) (auto simp: all_digits_def simp del: of_nat_add)
qed

lemma dec_value_snoc: "dec_value (s @ [c]) = 10 * dec_value s + digit_value c"
  by (simp add: dec_value_def)

text \<open>Reading back what was written.\<close>

lemma dec_value_dec [simp]: "dec_value (dec n) = n"
proof (induction n rule: dec.induct)
  case (1 n)
  show ?case
  proof (cases "n < 10")
    case True
    then show ?thesis
      using digit_unit(2) [of n] by (subst dec.simps) (simp add: dec_value_def del: of_nat_add)
  next
    case False
    then show ?thesis
      using 1 digit_unit(2) [of "n mod 10"]
      by (subst dec.simps) (simp add: dec_value_snoc del: of_nat_add)
  qed
qed

lemma dec_inject [simp]: "dec m = dec n \<longleftrightarrow> m = n"
  by (metis dec_value_dec)

text \<open>More digits for larger numbers, never fewer.\<close>

lemma length_dec_mono: "m \<le> n \<Longrightarrow> length (dec m) \<le> length (dec n)"
proof (induction n arbitrary: m rule: dec.induct)
  case (1 n)
  show ?case
  proof (cases "n < 10")
    case True
    then show ?thesis using 1 by (subst (1 2) dec.simps) simp
  next
    case False
    have "m < 10 \<or> length (dec (m div 10)) \<le> length (dec (n div 10))"
      using 1 False by (simp add: div_le_mono)
    then show ?thesis using False
      by (subst (1 2) dec.simps) (auto split: if_splits)
  qed
qed

section \<open>Rounding to a double\<close>

definition max_safe :: nat where
  "max_safe = 2 ^ 53 - 1"

definition round_double :: "nat \<Rightarrow> nat" where
  "round_double n =
     (if n < 2 ^ 53 then n
      else let k = bitlen (int n) - 53; p = 2 ^ nat k; q = n div p; r = n mod p
        in (if p < 2 * r \<or> (p = 2 * r \<and> odd q) then Suc q else q) * p)"

lemma round_double_small [simp]: "n \<le> max_safe \<Longrightarrow> round_double n = n"
  by (simp add: round_double_def max_safe_def)

lemma round_double_large:
  assumes "max_safe < n"
  shows "max_safe < round_double n"
proof -
  from assms have n: "2 ^ 53 \<le> n" by (simp add: max_safe_def)
  define k where "k = nat (bitlen (int n) - 53)"
  have "2 ^ nat (bitlen (int n) - 1) \<le> int n \<and> int n < 2 ^ nat (bitlen (int n))"
    using n by (intro bitlen_bounds) simp
  then have lo: "2 ^ nat (bitlen (int n) - 1) \<le> n" and hi: "n < 2 ^ nat (bitlen (int n))"
    by (metis of_nat_le_iff of_nat_power of_nat_numeral, metis of_nat_less_iff of_nat_power of_nat_numeral)
  have "(2::nat) ^ 53 < 2 ^ nat (bitlen (int n))" using n hi by linarith
  then have "53 < nat (bitlen (int n))" by (rule power_less_imp_less_exp [rotated]) simp
  then have k: "0 < k" "nat (bitlen (int n) - 1) = 52 + k" by (auto simp: k_def)
  have "2 ^ 52 * 2 ^ k \<le> n" using lo by (simp add: k power_add)
  then have q: "2 ^ 52 \<le> n div 2 ^ k" by (simp add: less_eq_div_iff_mult_less_eq)
  have "(2::nat) ^ 53 \<le> 2 ^ 52 * 2 ^ k" using k(1)
    by (cases k) (auto simp: power_add)
  also have "\<dots> \<le> n div 2 ^ k * 2 ^ k" using q by (rule mult_le_mono1)
  also have "\<dots> \<le> round_double n"
    using n by (auto simp: round_double_def Let_def k_def [symmetric])
  finally show ?thesis by (simp add: max_safe_def)
qed

lemma round_double_safe_iff: "round_double n \<le> max_safe \<longleftrightarrow> n \<le> max_safe"
  using round_double_large [of n] by (cases "n \<le> max_safe") auto

section \<open>Number(string)\<close>

text \<open>
  \<open>OtherNumber\<close> stands for the fractions and the infinities: the code asks of them only that they
  are not integers and not the id of a chain.
\<close>

datatype js_number = NotANumber | IntNumber int | OtherNumber

definition string_to_number :: "(jstring \<Rightarrow> js_number) \<Rightarrow> jstring \<Rightarrow> js_number" where
  "string_to_number rest raw =
     (let s = js_trim raw in
      if s = [] then IntNumber 0
      else if all_digits s then
        (if dec_value s < 2 ^ 1024 - 2 ^ 970 then IntNumber (int (round_double (dec_value s)))
         else OtherNumber)
      else rest s)"

definition is_safe_integer :: "js_number \<Rightarrow> bool" where
  "is_safe_integer n = (case n of IntNumber i \<Rightarrow> \<bar>i\<bar> \<le> int max_safe | _ \<Rightarrow> False)"

lemma is_white_not_digit: "is_digit c \<Longrightarrow> \<not> is_white c"
  by (auto simp: is_white_def white_units_def is_digit_def)

lemma all_digits_trimmed: "all_digits s \<Longrightarrow> trimmed s"
  by (auto simp: all_digits_def trimmed_def list_all_iff dest!: is_white_not_digit)

text \<open>A digit string is a safe integer exactly when its exact value is; then nothing was rounded.\<close>

lemma string_to_number_digits_safe:
  assumes "all_digits s"
  shows "is_safe_integer (string_to_number rest s) \<longleftrightarrow> dec_value s \<le> max_safe"
    and "dec_value s \<le> max_safe \<Longrightarrow> string_to_number rest s = IntNumber (int (dec_value s))"
proof -
  have s: "js_trim s = s" "s \<noteq> []"
    using assms by (simp_all add: js_trim_id all_digits_trimmed all_digits_def)
  have lim: "max_safe < 2 ^ 1024 - 2 ^ 970" by (simp add: max_safe_def)
  show "is_safe_integer (string_to_number rest s) \<longleftrightarrow> dec_value s \<le> max_safe"
    using lim by (auto simp: string_to_number_def s assms is_safe_integer_def Let_def
        round_double_safe_iff)
  show "dec_value s \<le> max_safe \<Longrightarrow> string_to_number rest s = IntNumber (int (dec_value s))"
    using lim by (auto simp: string_to_number_def s assms Let_def)
qed

end
