(* ===== verification/KeeperTypes.thy ===== *)
theory KeeperTypes
  imports JsNumber
begin

text \<open>
  The data of the keeper: \<open>services/keeper/src/keeper/types.ts\<close> and the tables of
  \<open>services/keeper/src/keeper/abi.ts\<close>. The ABI itself is data for viem; what the keeper reads
  through it are the decoded rows and events declared here.
\<close>

section \<open>Rows of the registry's views\<close>

text \<open>One row of \<open>getActiveVolumes\<close> / \<open>getVolume\<close>, with the components of the ABI tuple.\<close>

record volume_view =
  view_volumeId :: hex
  view_batchId :: hex
  view_owner :: address
  view_payer :: address
  view_chunkSigner :: address
  view_createdAt :: nat
  view_ttlExpiry :: nat
  view_depth :: nat
  view_status :: nat
  view_accountActive :: bool

definition VOLUME_STATUS_active :: nat where
  "VOLUME_STATUS_active = 1"

definition VOLUME_STATUS_retired :: nat where
  "VOLUME_STATUS_retired = 2"

definition RETIRE_REASONS :: "nat \<rightharpoonup> jstring" where
  "RETIRE_REASONS =
     [1 \<mapsto> js ''OwnerDeleted'',
      2 \<mapsto> js ''VolumeExpired'',
      3 \<mapsto> js ''BatchDied'',
      4 \<mapsto> js ''DepthChanged'',
      5 \<mapsto> js ''BatchOwnerMismatch'']"

definition SKIP_REASONS :: "nat \<rightharpoonup> jstring" where
  "SKIP_REASONS = [1 \<mapsto> js ''NoAuth'', 2 \<mapsto> js ''PaymentFailed'']"

section \<open>Events of the registry\<close>

text \<open>
  An event decoded by viem against the ABI: \<open>Toppedup(volumeId, amount, newNormalisedBalance)\<close>,
  \<open>VolumeRetired(volumeId, reason)\<close>, \<open>TopupSkipped(volumeId, reason)\<close>.
\<close>

datatype registry_event =
    Toppedup hex nat nat
  | VolumeRetired hex nat
  | TopupSkipped hex nat

fun event_volumeId :: "registry_event \<Rightarrow> hex" where
  "event_volumeId (Toppedup v _ _) = v"
| "event_volumeId (VolumeRetired v _) = v"
| "event_volumeId (TopupSkipped v _) = v"

section \<open>Keeper modes, outcomes, results\<close>

text \<open>Which volumes a keeper maintains.\<close>

datatype keeper_mode = AllVolumes | Selected "hex list"

fun mode_type :: "keeper_mode \<Rightarrow> jstring" where
  "mode_type AllVolumes = js ''all''"
| "mode_type (Selected _) = js ''selected''"

text \<open>What the contract did to a volume, decoded from that volume's own receipt.\<close>

datatype volume_summary =
    SummaryToppedUp nat
  | SummaryRetired jstring
  | SummaryTopupSkipped jstring
  | SummaryNoop

datatype outcome_kind = OutToppedUp | OutRetired | OutTopupSkipped | OutNoop

fun outcome_text :: "outcome_kind \<Rightarrow> jstring" where
  "outcome_text OutToppedUp = js ''toppedUp''"
| "outcome_text OutRetired = js ''retired''"
| "outcome_text OutTopupSkipped = js ''topupSkipped''"
| "outcome_text OutNoop = js ''noop''"

fun summary_outcome :: "volume_summary \<Rightarrow> outcome_kind" where
  "summary_outcome (SummaryToppedUp _) = OutToppedUp"
| "summary_outcome (SummaryRetired _) = OutRetired"
| "summary_outcome (SummaryTopupSkipped _) = OutTopupSkipped"
| "summary_outcome SummaryNoop = OutNoop"

fun summary_amount :: "volume_summary \<Rightarrow> nat option" where
  "summary_amount (SummaryToppedUp a) = Some a"
| "summary_amount _ = None"

fun summary_reason :: "volume_summary \<Rightarrow> jstring option" where
  "summary_reason (SummaryRetired r) = Some r"
| "summary_reason (SummaryTopupSkipped r) = Some r"
| "summary_reason _ = None"

text \<open>The transaction's fate.\<close>

datatype tx_status = StSuccess | StReverted | StSimulated | StFailed

fun status_text :: "tx_status \<Rightarrow> jstring" where
  "status_text StSuccess = js ''success''"
| "status_text StReverted = js ''reverted''"
| "status_text StSimulated = js ''simulated''"
| "status_text StFailed = js ''failed''"

record volume_result =
  vr_volumeId :: hex
  vr_status :: tx_status
  vr_outcome :: "outcome_kind option"
  vr_amount :: "nat option"
  vr_reason :: "jstring option"
  vr_hash :: "hex option"
  vr_blockNumber :: "nat option"
  vr_gasUsed :: "nat option"
  vr_error :: "jstring option"

text \<open>Something an operator should see.\<close>

record keeper_issue =
  issue_message :: jstring
  issue_volumeId :: "hex option"
  issue_hash :: "hex option"

record volume_outcome =
  vo_volumeId :: hex
  vo_reason :: jstring

text \<open>\<open>err instanceof Error ? err.message : String(err)\<close>.\<close>

fun exn_message :: "exn \<Rightarrow> jstring" where
  "exn_message (ErrorObject m) = m"
| "exn_message (ThrownValue s) = s"

end
