(* ===== verification/KeeperEvents.thy ===== *)
theory KeeperEvents
  imports KeeperTypes
begin

text \<open>
  \<open>services/keeper/src/keeper/events.ts\<close>: what a \<open>trigger\<close> receipt says happened.

  viem's \<open>parseEventLogs\<close> is an argument (\<open>parseLogs\<close>): it turns raw logs into the registry events
  it can decode. \<open>decodeCycleEvents\<close> and \<open>summarizeVolume\<close> follow the source line by line; the
  lemmas say which event a summary reports, and that it never reports another volume's or another
  contract's.
\<close>

section \<open>Definitions\<close>

text \<open>A raw log of a receipt: the emitting contract and the data viem decodes.\<close>

record log_entry =
  log_address :: address
  log_topics :: "hex list"
  log_data :: hex

record decoded_events =
  ev_toppedUp :: "(hex \<times> nat) list"
  ev_retired :: "volume_outcome list"
  ev_topupSkipped :: "volume_outcome list"

definition reason_name :: "(nat \<rightharpoonup> jstring) \<Rightarrow> nat \<Rightarrow> jstring" where
  "reason_name table reason =
     nullish (table reason) (js ''Unknown('' @ dec reason @ js '')'')"

definition no_events :: decoded_events where
  "no_events = \<lparr>ev_toppedUp = [], ev_retired = [], ev_topupSkipped = []\<rparr>"

text \<open>The body of the \<open>switch\<close>: one event is pushed on one list.\<close>

fun push_event :: "decoded_events \<Rightarrow> registry_event \<Rightarrow> decoded_events" where
  "push_event d (Toppedup v amount _) =
     d\<lparr>ev_toppedUp := ev_toppedUp d @ [(v, amount)]\<rparr>"
| "push_event d (VolumeRetired v reason) =
     d\<lparr>ev_retired := ev_retired d @
         [\<lparr>vo_volumeId = v, vo_reason = reason_name RETIRE_REASONS reason\<rparr>]\<rparr>"
| "push_event d (TopupSkipped v reason) =
     d\<lparr>ev_topupSkipped := ev_topupSkipped d @
         [\<lparr>vo_volumeId = v, vo_reason = reason_name SKIP_REASONS reason\<rparr>]\<rparr>"

definition from_registry :: "address \<Rightarrow> log_entry list \<Rightarrow> log_entry list" where
  "from_registry registry logs = filter (\<lambda>l. same_hex (log_address l) registry) logs"

definition decodeCycleEvents ::
  "(log_entry list \<Rightarrow> registry_event list) \<Rightarrow> log_entry list \<Rightarrow> address \<Rightarrow> decoded_events" where
  "decodeCycleEvents parseLogs logs registry =
     foldl push_event no_events (parseLogs (from_registry registry logs))"

definition summarizeVolume :: "decoded_events \<Rightarrow> hex \<Rightarrow> volume_summary" where
  "summarizeVolume d volumeId =
     (case List.find (\<lambda>e. same_hex (fst e) volumeId) (ev_toppedUp d) of
        Some e \<Rightarrow> SummaryToppedUp (snd e)
      | None \<Rightarrow>
     (case List.find (\<lambda>e. same_hex (vo_volumeId e) volumeId) (ev_retired d) of
        Some e \<Rightarrow> SummaryRetired (vo_reason e)
      | None \<Rightarrow>
     (case List.find (\<lambda>e. same_hex (vo_volumeId e) volumeId) (ev_topupSkipped d) of
        Some e \<Rightarrow> SummaryTopupSkipped (vo_reason e)
      | None \<Rightarrow> SummaryNoop)))"

section \<open>What is decoded\<close>

text \<open>The three lists as filters of the event list.\<close>

fun toppedUp_of :: "registry_event \<Rightarrow> (hex \<times> nat) option" where
  "toppedUp_of (Toppedup v a _) = Some (v, a)"
| "toppedUp_of _ = None"

fun retired_of :: "registry_event \<Rightarrow> volume_outcome option" where
  "retired_of (VolumeRetired v r) =
     Some \<lparr>vo_volumeId = v, vo_reason = reason_name RETIRE_REASONS r\<rparr>"
| "retired_of _ = None"

fun skipped_of :: "registry_event \<Rightarrow> volume_outcome option" where
  "skipped_of (TopupSkipped v r) =
     Some \<lparr>vo_volumeId = v, vo_reason = reason_name SKIP_REASONS r\<rparr>"
| "skipped_of _ = None"

lemma foldl_push_event:
  "foldl push_event d es =
     \<lparr>ev_toppedUp = ev_toppedUp d @ List.map_filter toppedUp_of es,
      ev_retired = ev_retired d @ List.map_filter retired_of es,
      ev_topupSkipped = ev_topupSkipped d @ List.map_filter skipped_of es\<rparr>"
proof (induction es arbitrary: d)
  case Nil
  then show ?case by (simp add: map_filter_simps)
next
  case (Cons e es)
  then show ?case by (cases e) (simp_all add: map_filter_simps)
qed

lemma decodeCycleEvents_eq:
  "decodeCycleEvents p logs r =
     (let es = p (from_registry r logs) in
      \<lparr>ev_toppedUp = List.map_filter toppedUp_of es,
       ev_retired = List.map_filter retired_of es,
       ev_topupSkipped = List.map_filter skipped_of es\<rparr>)"
  by (simp add: decodeCycleEvents_def foldl_push_event no_events_def Let_def)

lemma set_map_filter_iff: "x \<in> set (List.map_filter f es) \<longleftrightarrow> (\<exists>e \<in> set es. f e = Some x)"
  by (force simp: List.map_filter_def)

lemma find_map_filter_None:
  "List.find P (List.map_filter f es) = None \<longleftrightarrow>
     (\<forall>e \<in> set es. \<forall>x. f e = Some x \<longrightarrow> \<not> P x)"
  by (auto simp: find_None_iff set_map_filter_iff)

lemma find_map_filter_Some:
  "List.find P (List.map_filter f es) = Some x \<Longrightarrow> \<exists>e \<in> set es. f e = Some x \<and> P x"
  by (metis find_Some_iff nth_mem set_map_filter_iff)

text \<open>What one event says of its volume.\<close>

fun event_summary :: "registry_event \<Rightarrow> volume_summary" where
  "event_summary (Toppedup _ a _) = SummaryToppedUp a"
| "event_summary (VolumeRetired _ r) = SummaryRetired (reason_name RETIRE_REASONS r)"
| "event_summary (TopupSkipped _ r) = SummaryTopupSkipped (reason_name SKIP_REASONS r)"

text \<open>The events of the receipt that count: this contract's, naming this volume.\<close>

definition own_events ::
  "(log_entry list \<Rightarrow> registry_event list) \<Rightarrow> log_entry list \<Rightarrow> address \<Rightarrow> hex \<Rightarrow> registry_event list" where
  "own_events p logs r v = filter (\<lambda>e. same_hex (event_volumeId e) v) (p (from_registry r logs))"

lemma of_event_cases:
  "toppedUp_of e = Some x \<Longrightarrow> event_volumeId e = fst x \<and> event_summary e = SummaryToppedUp (snd x)"
  "retired_of e = Some y \<Longrightarrow> event_volumeId e = vo_volumeId y \<and> event_summary e = SummaryRetired (vo_reason y)"
  "skipped_of e = Some y \<Longrightarrow> event_volumeId e = vo_volumeId y \<and> event_summary e = SummaryTopupSkipped (vo_reason y)"
  by (cases e; auto)+

lemma summarize_from_own:
  assumes "summarizeVolume (decodeCycleEvents p logs r) v \<noteq> SummaryNoop"
  shows "\<exists>e \<in> set (own_events p logs r v).
           event_summary e = summarizeVolume (decodeCycleEvents p logs r) v" (is "\<exists>e \<in> _. _ = ?S")
proof -
  let ?es = "p (from_registry r logs)"
  note S = summarizeVolume_def decodeCycleEvents_eq Let_def
  consider (topped) x where "List.find (\<lambda>e. same_hex (fst e) v) (List.map_filter toppedUp_of ?es) = Some x"
      "?S = SummaryToppedUp (snd x)"
    | (retired) y where "List.find (\<lambda>e. same_hex (vo_volumeId e) v) (List.map_filter retired_of ?es) = Some y"
      "?S = SummaryRetired (vo_reason y)"
    | (skipped) y where "List.find (\<lambda>e. same_hex (vo_volumeId e) v) (List.map_filter skipped_of ?es) = Some y"
      "?S = SummaryTopupSkipped (vo_reason y)"
    using assms by (simp add: S split: option.splits)
  then have "\<exists>e \<in> set ?es. same_hex (event_volumeId e) v \<and> event_summary e = ?S"
  proof cases
    case topped
    with find_map_filter_Some [OF topped(1)] show ?thesis
      by (auto dest!: of_event_cases(1) intro!: bexI)
  next
    case retired
    with find_map_filter_Some [OF retired(1)] show ?thesis by (auto dest!: of_event_cases(2) intro!: bexI)
  next
    case skipped
    with find_map_filter_Some [OF skipped(1)] show ?thesis by (auto dest!: of_event_cases(3) intro!: bexI)
  qed
  then show ?thesis by (auto simp: own_events_def)
qed

lemma summarize_noop_iff:
  "summarizeVolume (decodeCycleEvents p logs r) v = SummaryNoop \<longleftrightarrow> own_events p logs r v = []"
proof
  assume noop: "summarizeVolume (decodeCycleEvents p logs r) v = SummaryNoop"
  have "\<not> same_hex (event_volumeId e) v" if e: "e \<in> set (p (from_registry r logs))" for e
    using noop e
    by (cases e) (fastforce simp: summarizeVolume_def decodeCycleEvents_eq Let_def
        find_map_filter_None split: option.splits)+
  then show "own_events p logs r v = []" by (simp add: own_events_def filter_empty_conv)
next
  assume "own_events p logs r v = []"
  then show "summarizeVolume (decodeCycleEvents p logs r) v = SummaryNoop"
    using summarize_from_own by fastforce
qed

section \<open>Properties\<close>

text \<open>
  What the keeper reports of a receipt is nothing exactly when the registry emitted no event for
  the volume, and otherwise it is what one of the registry's own events for this very volume says.
  Logs of other contracts and of other volumes never count.
\<close>

lemma summary_from_own_events:
  "summarizeVolume (decodeCycleEvents parseLogs logs registry) volumeId \<in>
     (if own_events parseLogs logs registry volumeId = [] then {SummaryNoop}
      else event_summary ` set (own_events parseLogs logs registry volumeId))"
proof (cases "own_events parseLogs logs registry volumeId = []")
  case True
  then show ?thesis by (simp add: summarize_noop_iff)
next
  case False
  then show ?thesis using summarize_from_own [of parseLogs logs registry volumeId]
    by (metis (no_types, lifting) image_eqI summarize_noop_iff)
qed

lemma reason_name_cases:
  "reason_name table n = (case table n of None \<Rightarrow> js ''Unknown('' @ dec n @ js '')'' | Some s \<Rightarrow> s)"
  by (simp add: reason_name_def nullish_def split: option.splits)

lemma unknown_name_inject:
  "js ''Unknown('' @ dec m @ js '')'' = js ''Unknown('' @ dec n @ js '')'' \<longleftrightarrow> m = n"
  by simp

text \<open>
  The names the keeper gives to reason codes keep them apart: two codes of one table never read
  the same, whether they are in the table or reported as unknown.
\<close>

lemma reason_names_injective:
  "inj (reason_name RETIRE_REASONS) \<and> inj (reason_name SKIP_REASONS)"
proof
  show "inj (reason_name SKIP_REASONS)"
    by (rule injI) (simp add: reason_name_cases SKIP_REASONS_def js_def split: if_splits)
  show "inj (reason_name RETIRE_REASONS)"
    by (rule injI) (simp add: reason_name_cases RETIRE_REASONS_def js_def split: if_splits)
qed

end
