(* ===== verification/ChainClient.thy ===== *)
theory ChainClient
  imports KeeperEvents
begin

text \<open>
  The viem client the keeper cycle is given (\<open>client\<close> in
  \<open>services/keeper/src/keeper/actions/*.ts\<close>) and the pure viem functions the cycle calls. viem and
  the RPC endpoints behind it are not part of the repository, so each of the client's operations is
  a field of a record: a function of the outside world's state that answers or throws. Every
  theorem of the cycle holds for every client, whatever the endpoints answer and however the clock
  moves.

  The requests that the source starts together in one \<open>Promise.all\<close> run one after the other in list
  order; all of them are made, as \<open>Promise.all\<close> does not cancel, and the rejection reported is the
  first in list order.
\<close>

section \<open>Values that cross the interface\<close>

record block_info =
  baseFeePerGas :: "nat option"

record tx_receipt =
  receipt_status :: jstring
  receipt_blockNumber :: nat
  receipt_gasUsed :: nat
  receipt_logs :: "log_entry list"

text \<open>The request \<open>trigger\<close> hands to \<open>writeContract\<close>: the call, the gas limit, nonce and fees.\<close>

record tx_request =
  tx_registry :: address
  tx_volumeId :: hex
  tx_gas :: nat
  tx_chainId :: "nat option"
  tx_nonce :: "nat option"
  tx_maxFeePerGas :: "nat option"
  tx_maxPriorityFeePerGas :: "nat option"

section \<open>The client\<close>

record 'w client =
  client_address :: address
  client_chainId :: "nat option"
  date_now :: "'w \<Rightarrow> millis \<times> 'w"
  get_block_number :: "('w, nat) effect"
  read_active_count :: "address \<Rightarrow> nat option \<Rightarrow> ('w, nat) effect"
  multicall_active_pages ::
    "address \<Rightarrow> nat option \<Rightarrow> (nat \<times> nat) list \<Rightarrow> ('w, volume_view list list) effect"
  multicall_volumes :: "address \<Rightarrow> nat option \<Rightarrow> hex list \<Rightarrow> ('w, volume_view list) effect"
  get_transaction_count :: "address \<Rightarrow> ('w, nat) effect"
  get_block :: "('w, block_info) effect"
  estimate_priority_fee :: "('w, nat) effect"
  simulate_trigger :: "address \<Rightarrow> hex \<Rightarrow> ('w, unit) effect"
  estimate_trigger_gas :: "address \<Rightarrow> hex \<Rightarrow> ('w, nat) effect"
  write_contract :: "tx_request \<Rightarrow> ('w, hex) effect"
  wait_for_receipt :: "hex \<Rightarrow> nat \<Rightarrow> nat \<Rightarrow> ('w, tx_receipt) effect"
  get_balance :: "address \<Rightarrow> ('w, nat) effect"

section \<open>Pure functions of viem\<close>

record viem =
  keccak256 :: "hex \<Rightarrow> hex"
  numberToHex32 :: "nat \<Rightarrow> hex"
  hexToBigInt :: "hex \<Rightarrow> nat"
  parseEventLogs :: "log_entry list \<Rightarrow> registry_event list"

end
