(* ===== verification/Scrubbing.thy ===== *)
theory Scrubbing
  imports JsNumber
begin

text \<open>
  The secrets part of \<open>services/keeper/src/reporting.ts\<close>: \<open>redact\<close>, \<open>makeScrubber\<close> and \<open>brief\<close>.

  The URL parser of the runtime is an argument, \<open>parseUrl\<close>: \<open>None\<close> where \<open>new URL(url)\<close> throws. The
  interface \<open>text_scrubber\<close> is what the report relies on: short texts (the status words) pass
  unchanged.
\<close>

section \<open>Definitions\<close>

record js_url =
  url_protocol :: jstring
  url_host :: jstring
  url_pathname :: jstring
  url_search :: jstring
  url_href :: jstring

definition ellipsis :: code_unit where
  "ellipsis = 0x2026"

definition redact :: "(jstring \<rightharpoonup> js_url) \<Rightarrow> jstring \<Rightarrow> jstring" where
  "redact parseUrl url =
     (case parseUrl url of
        Some u \<Rightarrow>
          (if url_pathname u = js ''/'' \<and> url_search u = []
           then url_protocol u @ js ''//'' @ url_host u
           else url_protocol u @ js ''//'' @ url_host u @ js ''/'' @ [ellipsis])
      | None \<Rightarrow> js ''<malformed url>'')"

text \<open>\<open>url.replace(/\/+$/, "")\<close>.\<close>

definition strip_slashes :: "jstring \<Rightarrow> jstring" where
  "strip_slashes url = rev (dropWhile (\<lambda>c. c = 0x2F) (rev url))"

text \<open>Adding to a \<open>Set\<close>, which keeps insertion order.\<close>

definition set_add :: "'a \<Rightarrow> 'a list \<Rightarrow> 'a list" where
  "set_add x xs = (if x \<in> set xs then xs else xs @ [x])"

definition url_variants :: "(jstring \<rightharpoonup> js_url) \<Rightarrow> jstring \<Rightarrow> jstring list" where
  "url_variants parseUrl url =
     (let variants = set_add (strip_slashes url) [url] in
      case parseUrl url of Some u \<Rightarrow> set_add (url_href u) variants | None \<Rightarrow> variants)"

definition redacted_mark :: jstring where
  "redacted_mark = js ''<redacted>''"

definition scrub_pairs ::
  "(jstring \<rightharpoonup> js_url) \<Rightarrow> jstring list \<Rightarrow> jstring list \<Rightarrow> (jstring \<times> jstring) list" where
  "scrub_pairs parseUrl rpcUrls others =
     concat (map (\<lambda>url. map (\<lambda>v. (v, redact parseUrl url)) (url_variants parseUrl url)) rpcUrls) @
     map (\<lambda>secret. (secret, redacted_mark)) others"

text \<open>Secrets of at least eight units, longest first; the sort is stable.\<close>

definition usable_pairs ::
  "(jstring \<rightharpoonup> js_url) \<Rightarrow> jstring list \<Rightarrow> jstring list \<Rightarrow> (jstring \<times> jstring) list" where
  "usable_pairs parseUrl rpcUrls others =
     sort_key (\<lambda>p. - int (length (fst p)))
       (filter (\<lambda>p. 8 \<le> length (fst p)) (scrub_pairs parseUrl rpcUrls others))"

definition apply_pairs :: "(jstring \<times> jstring) list \<Rightarrow> jstring \<Rightarrow> jstring" where
  "apply_pairs ps s = foldl (\<lambda>acc (fr, to). replace_all fr to acc) s ps"

definition makeScrubber ::
  "(jstring \<rightharpoonup> js_url) \<Rightarrow> jstring list \<Rightarrow> jstring list \<Rightarrow> jstring \<Rightarrow> jstring" where
  "makeScrubber parseUrl rpcUrls others s = apply_pairs (usable_pairs parseUrl rpcUrls others) s"

section \<open>Replacing leaves nothing behind\<close>

text \<open>
  A replacement text keeps a secret out when its two ends are units the secret does not have, and
  the secret is not part of it.
\<close>

definition guards :: "jstring \<Rightarrow> jstring \<Rightarrow> bool" where
  "guards to s \<longleftrightarrow> to \<noteq> [] \<and> hd to \<notin> set s \<and> last to \<notin> set s \<and> \<not> js_includes s to"

lemma replace_all_prefix:
  assumes "fr \<noteq> []" "to \<noteq> []" "hd to \<notin> set s" "prefix s (replace_all fr to t)"
  shows "prefix s t"
  using assms(1,3,4)
proof (induction t arbitrary: s rule: replace_all_induct)
  case Nil
  then show ?case by (simp add: replace_all_Nil)
next
  case (hit t)
  then have "prefix s (to @ replace_all fr to (drop (length fr) t))"
    using assms(1) by (simp add: replace_all_hit)
  then show ?case using hit(3) assms(2) by (cases s; cases to) auto
next
  case (miss c cs)
  then show ?case using assms(1) by (cases s) (auto simp: replace_all_miss)
qed

lemma sublist_append_guard:
  assumes "sublist s (to @ r)" "to \<noteq> []" "last to \<notin> set s"
  shows "sublist s to \<or> sublist s r"
proof -
  from assms(1) obtain us vs where eq: "to @ r = us @ s @ vs" by (auto simp: sublist_def)
  then consider (left) ws where "to = (us @ s) @ ws" | (right) ws where "us = to @ ws"
    | (cross) ws xs where "to = us @ ws" "s = ws @ xs" "ws \<noteq> []"
    by (auto simp: append_eq_append_conv2) blast
  then show ?thesis
  proof cases
    case left
    then show ?thesis by (auto simp: sublist_def)
  next
    case right
    then have "r = ws @ s @ vs" using eq by simp
    then show ?thesis by (auto simp: sublist_def)
  next
    case cross
    then have "last to \<in> set s" by (metis Un_iff last_appendR last_in_set set_append)
    then show ?thesis using assms(3) by simp
  qed
qed

lemma replace_all_hides:
  assumes "guards to s" "fr \<noteq> []" "s = fr \<or> \<not> sublist s t"
  shows "\<not> sublist s (replace_all fr to t)"
  using assms(2,3)
proof (induction t rule: replace_all_induct)
  case Nil
  then show ?case using assms(2) by (auto simp: replace_all_Nil)
next
  case (hit t)
  have "\<not> sublist s (drop (length fr) t)" if "\<not> sublist s t"
    using that by (meson sublist_drop sublist_order.order_trans)
  then have "\<not> sublist s (replace_all fr to (drop (length fr) t))" using hit by blast
  then show ?case using hit(1) assms(1,2) sublist_append_guard [of s to]
    by (auto simp: replace_all_hit guards_def js_includes_sublist)
next
  case (miss c cs)
  have "\<not> sublist s (replace_all fr to cs)" using miss by (auto simp: sublist_Cons_right)
  moreover have "\<not> prefix s (replace_all fr to (c # cs))"
  proof
    assume "prefix s (replace_all fr to (c # cs))"
    then have "prefix s (c # cs)" using assms(1,2) replace_all_prefix by (auto simp: guards_def)
    then show False using miss by (auto simp: js_starts_with_prefix)
  qed
  ultimately show ?case using miss(1) assms(2)
    by (simp add: replace_all_miss sublist_Cons_right)
qed

lemma apply_pairs_simps [simp]:
  "apply_pairs [] s = s"
  "apply_pairs (p # ps) s = apply_pairs ps (replace_all (fst p) (snd p) s)"
  by (simp_all add: apply_pairs_def case_prod_beta)

lemma apply_pairs_keeps_out:
  "\<forall>p \<in> set ps. fst p \<noteq> [] \<and> guards (snd p) s \<Longrightarrow> \<not> sublist s t \<Longrightarrow> \<not> sublist s (apply_pairs ps t)"
  by (induction ps arbitrary: t) (auto simp: replace_all_hides)

lemma apply_pairs_hides:
  "\<forall>p \<in> set ps. fst p \<noteq> [] \<and> guards (snd p) s \<Longrightarrow> s \<in> fst ` set ps \<Longrightarrow>
   \<not> sublist s (apply_pairs ps t)"
proof (induction ps arbitrary: t)
  case (Cons p ps)
  show ?case
  proof (cases "fst p = s")
    case True
    then have "\<not> sublist s (replace_all (fst p) (snd p) t)"
      using Cons.prems(1) by (intro replace_all_hides) auto
    then show ?thesis using Cons.prems(1) apply_pairs_keeps_out by simp
  next
    case False
    then show ?thesis using Cons by auto
  qed
qed simp

section \<open>Short texts\<close>

lemma js_includes_length: "js_includes p s \<Longrightarrow> length p \<le> length s"
  by (auto simp: js_includes_sublist dest: sublist_length_le)

lemma usable_long: "p \<in> set (usable_pairs parseUrl rpcUrls others) \<Longrightarrow> 8 \<le> length (fst p)"
  by (simp add: usable_pairs_def)

lemma apply_pairs_short:
  "\<forall>p \<in> set ps. 8 \<le> length (fst p) \<Longrightarrow> length s < 8 \<Longrightarrow> apply_pairs ps s = s"
proof (induction ps)
  case (Cons p ps)
  then have "\<not> js_includes (fst p) s" by (force dest: js_includes_length)
  then show ?case using Cons by (simp add: replace_all_absent)
qed simp

text \<open>What a report relies on when its texts are scrubbed.\<close>

locale text_scrubber =
  fixes scrub :: "jstring \<Rightarrow> jstring"
  assumes scrub_short: "length s < 8 \<Longrightarrow> scrub s = s"
begin

lemma scrub_Nil [simp]: "scrub [] = []"
  by (rule scrub_short) simp

end

interpretation made: text_scrubber "makeScrubber parseUrl rpcUrls others"
  by unfold_locales (simp add: makeScrubber_def apply_pairs_short usable_long)

lemma scrubbed_text_hides:
  assumes "secret \<in> set others" and "8 \<le> length secret"
    and "guards redacted_mark secret"
    and "\<forall>url \<in> set rpcUrls. guards (redact parseUrl url) secret"
  shows "\<not> js_includes secret (makeScrubber parseUrl rpcUrls others msg)"
proof -
  let ?ps = "usable_pairs parseUrl rpcUrls others"
  have "(secret, redacted_mark) \<in> set ?ps"
    using assms(1,2) by (auto simp: usable_pairs_def scrub_pairs_def)
  then have "secret \<in> fst ` set ?ps" by force
  moreover have "\<forall>p \<in> set ?ps. fst p \<noteq> [] \<and> guards (snd p) secret"
    using assms(3,4) by (auto simp: usable_pairs_def scrub_pairs_def)
  ultimately show ?thesis
    by (simp add: js_includes_sublist makeScrubber_def apply_pairs_hides)
qed

section \<open>Property\<close>

text \<open>
  Scrubbing removes a secret from any text: no occurrence of a configured secret of at least
  eight units is left, and none comes into being by the replacements, provided the placeholder and
  the redacted form of every RPC URL keep it out at their ends.
\<close>

lemma scrub_hides_secret:
  assumes "secret \<in> set others" and "8 \<le> length secret"
    and "guards redacted_mark secret"
    and "\<forall>url \<in> set rpcUrls. guards (redact parseUrl url) secret"
  shows "\<not> js_includes secret (makeScrubber parseUrl rpcUrls others msg)"
  by (rule scrubbed_text_hides [OF assms])

definition sample_url :: jstring where
  "sample_url = js ''https://rpc.test/v3/0123''"

definition sample_parse_url :: "jstring \<rightharpoonup> js_url" where
  "sample_parse_url =
     [sample_url \<mapsto>
        \<lparr>url_protocol = js ''https:'', url_host = js ''rpc.test'', url_pathname = js ''/v3/0123'',
         url_search = [], url_href = sample_url\<rparr>]"

theorem scrub_hides_secret_witness:
  "\<not> js_includes (js ''0xdeadbeef'')
     (makeScrubber sample_parse_url [sample_url] [js ''0xdeadbeef''] (js ''key 0xdeadbeef used''))"
proof (rule scrub_hides_secret)
  show "guards redacted_mark (js ''0xdeadbeef'')"
    by (simp add: guards_def redacted_mark_def js_def js_starts_with_def)
  show "\<forall>url\<in>set [sample_url]. guards (redact sample_parse_url url) (js ''0xdeadbeef'')"
    by (simp add: guards_def redact_def sample_parse_url_def ellipsis_def js_def js_starts_with_def)
qed simp_all

end
