(* ===== verification/RpcEndpoints.thy ===== *)
theory RpcEndpoints
  imports ChainClient Scrubbing
begin

text \<open>
  \<open>services/keeper/src/client.ts\<close>: the supported chains, the pre-flight probe of the RPC endpoints,
  and what the wallet client is built from.

  viem's chain definitions, the runtime's URL parser and viem's pure helpers are fields of the
  record \<open>platform\<close>, and the network is the record \<open>probe_net\<close>. The endpoints are probed one after
  the other here; the source starts them together, and no probe reads what another wrote.
\<close>

section \<open>The platform\<close>

record chain =
  chain_id :: nat
  chain_name :: jstring
  chain_symbol :: jstring
  chain_blockTime :: "nat option"

record platform =
  viem_gnosis :: chain
  viem_sepolia :: chain
  parse_url :: "jstring \<rightharpoonup> js_url"
  is_address :: "jstring \<Rightarrow> bool"
  number_rest :: "jstring \<Rightarrow> js_number"
  number_text :: "nat \<Rightarrow> jstring"
  format_ether :: "nat \<Rightarrow> jstring"

text \<open>A non-negative integer in a template literal: plain digits below \<open>10 ^ 21\<close>.\<close>

definition show_number :: "platform \<Rightarrow> nat \<Rightarrow> jstring" where
  "show_number L n = (if n < 10 ^ 21 then dec n else number_text L n)"

section \<open>Chains\<close>

text \<open>The record \<open>CHAINS\<close>: a later key replaces an equal earlier one.\<close>

definition CHAINS :: "platform \<Rightarrow> nat \<rightharpoonup> chain" where
  "CHAINS L = [chain_id (viem_gnosis L) \<mapsto> viem_gnosis L, chain_id (viem_sepolia L) \<mapsto> viem_sepolia L]"

text \<open>\<open>Object.keys(CHAINS)\<close>: integer keys come in ascending order.\<close>

definition chain_keys :: "platform \<Rightarrow> nat list" where
  "chain_keys L = sort (remdups [chain_id (viem_gnosis L), chain_id (viem_sepolia L)])"

text \<open>\<open>CHAINS[n]\<close> for a JavaScript number.\<close>

definition chain_at :: "platform \<Rightarrow> js_number \<Rightarrow> chain option" where
  "chain_at L n = (case n of IntNumber i \<Rightarrow> if 0 \<le> i then CHAINS L (nat i) else None | _ \<Rightarrow> None)"

lemma CHAINS_id: "CHAINS L n = Some c \<Longrightarrow> chain_id c = n"
  by (auto simp: CHAINS_def split: if_splits)

lemma dom_CHAINS: "dom (CHAINS L) = set (chain_keys L)"
  by (auto simp: CHAINS_def chain_keys_def)

section \<open>The probe\<close>

definition PROBE_TIMEOUT_MS :: nat where
  "PROBE_TIMEOUT_MS = 5000"

definition REQUEST_TIMEOUT_MS :: nat where
  "REQUEST_TIMEOUT_MS = 4000"

record endpoint_health =
  eh_url :: jstring
  eh_ok :: bool
  eh_chainId :: "nat option"
  eh_blockNumber :: "nat option"
  eh_latencyMs :: millis
  eh_error :: "jstring option"

record 'w probe_net =
  net_now :: "'w \<Rightarrow> millis \<times> 'w"
  net_chain_id :: "jstring \<Rightarrow> nat \<Rightarrow> ('w, nat) effect"
  net_block_number :: "jstring \<Rightarrow> nat \<Rightarrow> ('w, nat) effect"

text \<open>Both requests of the \<open>Promise.all\<close> are made; the first rejection in list order is reported.\<close>

definition probe_requests ::
  "'w probe_net \<Rightarrow> jstring \<Rightarrow> nat \<Rightarrow> ('w, nat \<times> nat) effect" where
  "probe_requests N url timeout w =
     (let (c, w1) = net_chain_id N url timeout w;
          (b, w2) = net_block_number N url timeout w1
      in (case c of Inl e \<Rightarrow> Inl e | Inr chainId \<Rightarrow>
          (case b of Inl e \<Rightarrow> Inl e | Inr blockNumber \<Rightarrow> Inr (chainId, blockNumber)), w2))"

definition probe_endpoint ::
  "'w probe_net \<Rightarrow> platform \<Rightarrow> chain \<Rightarrow> nat \<Rightarrow> jstring \<Rightarrow> 'w \<Rightarrow> endpoint_health \<times> 'w" where
  "probe_endpoint N L ch timeout url w =
     (let (startedAt, w1) = net_now N w;
          (answer, w2) = probe_requests N url timeout w1;
          (t, w3) = net_now N w2;
          latencyMs = t - startedAt
      in (case answer of
            Inl e \<Rightarrow>
              \<lparr>eh_url = url, eh_ok = False, eh_chainId = None, eh_blockNumber = None,
               eh_latencyMs = latencyMs, eh_error = Some (exn_message e)\<rparr>
          | Inr (chainId, blockNumber) \<Rightarrow>
              if chainId \<noteq> chain_id ch then
                \<lparr>eh_url = url, eh_ok = False, eh_chainId = Some chainId, eh_blockNumber = None,
                 eh_latencyMs = latencyMs,
                 eh_error = Some (js ''reports chain id '' @ show_number L chainId @
                   js '', expected '' @ show_number L (chain_id ch))\<rparr>
              else
                \<lparr>eh_url = url, eh_ok = True, eh_chainId = Some chainId,
                 eh_blockNumber = Some blockNumber, eh_latencyMs = latencyMs, eh_error = None\<rparr>,
          w3))"

fun probeEndpoints ::
  "'w probe_net \<Rightarrow> platform \<Rightarrow> jstring list \<Rightarrow> chain \<Rightarrow> nat \<Rightarrow> 'w \<Rightarrow> endpoint_health list \<times> 'w" where
  "probeEndpoints N L [] ch timeout w = ([], w)"
| "probeEndpoints N L (url # urls) ch timeout w =
     (let (e, w1) = probe_endpoint N L ch timeout url w;
          (es, w2) = probeEndpoints N L urls ch timeout w1
      in (e # es, w2))"

section \<open>The wallet client's options\<close>

record transport_options =
  transport_url :: jstring
  transport_retryCount :: nat
  transport_timeout :: nat

record client_options =
  opt_privateKey :: hex
  opt_chain :: chain
  opt_pollingInterval :: nat
  opt_transports :: "transport_options list"
  opt_fallbackRetryCount :: nat

text \<open>What \<open>buildClient\<close> hands to viem; making the client of it is viem's.\<close>

definition buildClient :: "chain \<Rightarrow> hex \<Rightarrow> jstring list \<Rightarrow> client_options" where
  "buildClient ch privateKey endpoints =
     \<lparr>opt_privateKey = privateKey, opt_chain = ch,
      opt_pollingInterval = nullish (chain_blockTime ch) 12000,
      opt_transports =
        map (\<lambda>url. \<lparr>transport_url = url, transport_retryCount = 0,
                    transport_timeout = REQUEST_TIMEOUT_MS\<rparr>) endpoints,
      opt_fallbackRetryCount = 2\<rparr>"

section \<open>What a probe reports\<close>

text \<open>
  An endpoint's report is sound for a chain: it is usable exactly when it reported that very chain
  and nothing went wrong; a usable one carries its block number, an unusable one its error.
\<close>

definition sound_health :: "chain \<Rightarrow> endpoint_health \<Rightarrow> bool" where
  "sound_health ch e \<longleftrightarrow>
     eh_ok e = (eh_chainId e = Some (chain_id ch)) \<and>
     (eh_blockNumber e \<noteq> None) = eh_ok e \<and>
     (eh_error e = None) = eh_ok e"

lemma probe_endpoint_sound:
  "sound_health ch (fst (probe_endpoint N L ch t url w)) \<and> eh_url (fst (probe_endpoint N L ch t url w)) = url"
  by (simp add: probe_endpoint_def sound_health_def Let_def case_prod_beta split: sum.split)

lemma probe_sound:
  "map eh_url (fst (probeEndpoints N L urls ch t w)) = urls \<and>
   list_all (sound_health ch) (fst (probeEndpoints N L urls ch t w))"
proof (induction urls arbitrary: w)
  case Nil
  then show ?case by simp
next
  case (Cons url urls)
  then show ?case using probe_endpoint_sound [of ch N L t url w]
    by (simp add: case_prod_beta Let_def)
qed

text \<open>
  The probe reports on every configured endpoint, in the configured order, and calls one usable
  only if it answered and reported the chain the deployment is for.
\<close>

lemma probe_reports_sound:
  "map eh_url (fst (probeEndpoints N L urls ch t w)) = urls \<and>
   list_all (sound_health ch) (fst (probeEndpoints N L urls ch t w))"
  by (rule probe_sound)

end
