(* ===== verification/KeeperConfig.thy ===== *)
theory KeeperConfig
  imports RpcEndpoints
begin

text \<open>
  \<open>services/keeper/src/config.ts\<close>: the Worker's bindings, validated into a configuration or into the
  list of everything that is wrong with them.

  A binding is a text or some other value (\<open>typeof value === "string"\<close> tells them apart). A regular
  expression of the source is a predicate on code units. \<open>readConfig\<close> collects its problems in the
  order the source pushes them: the checks of the statements first, then those that \<open>flag\<close> and
  \<open>count\<close> make while the configuration object is built.
\<close>

section \<open>Bindings\<close>

datatype env_key =
    DEPLOYMENT_NAME | CHAIN_ID | REGISTRY_ADDRESS | NOTIFY_WARNINGS | MIN_BALANCE_WEI
  | MAX_VOLUMES_PER_CYCLE | CYCLE_TIMEOUT_MS | RECEIPT_TIMEOUT_MS | CONFIRMATIONS
  | PRIVATE_KEY | RPC_URL | TELEGRAM_BOT_TOKEN | TELEGRAM_CHAT_ID
  | DRY_RUN | VOLUME_IDS | PAGE_SIZE

datatype env_value = EnvText jstring | EnvOther

type_synonym env = "env_key \<rightharpoonup> env_value"

fun key_name :: "env_key \<Rightarrow> jstring" where
  "key_name DEPLOYMENT_NAME = js ''DEPLOYMENT_NAME''"
| "key_name CHAIN_ID = js ''CHAIN_ID''"
| "key_name REGISTRY_ADDRESS = js ''REGISTRY_ADDRESS''"
| "key_name NOTIFY_WARNINGS = js ''NOTIFY_WARNINGS''"
| "key_name MIN_BALANCE_WEI = js ''MIN_BALANCE_WEI''"
| "key_name MAX_VOLUMES_PER_CYCLE = js ''MAX_VOLUMES_PER_CYCLE''"
| "key_name CYCLE_TIMEOUT_MS = js ''CYCLE_TIMEOUT_MS''"
| "key_name RECEIPT_TIMEOUT_MS = js ''RECEIPT_TIMEOUT_MS''"
| "key_name CONFIRMATIONS = js ''CONFIRMATIONS''"
| "key_name PRIVATE_KEY = js ''PRIVATE_KEY''"
| "key_name RPC_URL = js ''RPC_URL''"
| "key_name TELEGRAM_BOT_TOKEN = js ''TELEGRAM_BOT_TOKEN''"
| "key_name TELEGRAM_CHAT_ID = js ''TELEGRAM_CHAT_ID''"
| "key_name DRY_RUN = js ''DRY_RUN''"
| "key_name VOLUME_IDS = js ''VOLUME_IDS''"
| "key_name PAGE_SIZE = js ''PAGE_SIZE''"

record telegram_config =
  tg_botToken :: jstring
  tg_chatId :: jstring

record cycle_limits =
  lim_maxVolumesPerCycle :: nat
  lim_pageSize :: nat
  lim_cycleTimeoutMs :: nat
  lim_receiptTimeoutMs :: nat
  lim_confirmations :: nat

record config =
  cfg_deployment :: jstring
  cfg_chain :: chain
  cfg_registry :: address
  cfg_privateKey :: hex
  cfg_endpoints :: "jstring list"
  cfg_telegram :: telegram_config
  cfg_notifyWarnings :: bool
  cfg_minBalanceWei :: nat
  cfg_mode :: keeper_mode
  cfg_dryRun :: bool
  cfg_limits :: cycle_limits

record deployment_identity =
  di_deployment :: jstring
  di_chainId :: "nat option"
  di_chainName :: "jstring option"
  di_registry :: "jstring option"

section \<open>Shapes\<close>

definition is_hex_digit :: "code_unit \<Rightarrow> bool" where
  "is_hex_digit c \<longleftrightarrow> is_digit c \<or> (0x61 \<le> c \<and> c \<le> 0x66) \<or> (0x41 \<le> c \<and> c \<le> 0x46)"

definition is_letter :: "code_unit \<Rightarrow> bool" where
  "is_letter c \<longleftrightarrow> (0x61 \<le> c \<and> c \<le> 0x7A) \<or> (0x41 \<le> c \<and> c \<le> 0x5A)"

text \<open>\<open>\w\<close>.\<close>

definition is_word_unit :: "code_unit \<Rightarrow> bool" where
  "is_word_unit c \<longleftrightarrow> is_letter c \<or> is_digit c \<or> c = 0x5F"

text \<open>\<open>/^0x[0-9a-fA-F]{64}$/\<close>, the shape of a private key and of a volume id.\<close>

definition is_hex32 :: "jstring \<Rightarrow> bool" where
  "is_hex32 s \<longleftrightarrow> length s = 66 \<and> js_starts_with (js ''0x'') s \<and> list_all is_hex_digit (drop 2 s)"

text \<open>\<open>/^\d+:[\w-]+$/\<close>.\<close>

definition is_bot_token :: "jstring \<Rightarrow> bool" where
  "is_bot_token s \<longleftrightarrow>
     takeWhile is_digit s \<noteq> [] \<and>
     (case dropWhile is_digit s of
        [] \<Rightarrow> False
      | c # r \<Rightarrow> c = 0x3A \<and> r \<noteq> [] \<and> list_all (\<lambda>d. is_word_unit d \<or> d = 0x2D) r)"

text \<open>\<open>/^(-?\d+|@[A-Za-z]\w{3,})$/\<close>.\<close>

definition is_chat_id :: "jstring \<Rightarrow> bool" where
  "is_chat_id s \<longleftrightarrow>
     all_digits s \<or>
     (case s of
        [] \<Rightarrow> False
      | c # r \<Rightarrow>
          (c = 0x2D \<and> all_digits r) \<or>
          (c = 0x40 \<and> (case r of [] \<Rightarrow> False
             | d # t \<Rightarrow> is_letter d \<and> 3 \<le> length t \<and> list_all is_word_unit t)))"

definition isHttpUrl :: "platform \<Rightarrow> jstring \<Rightarrow> bool" where
  "isHttpUrl L raw =
     (case parse_url L raw of
        Some u \<Rightarrow> url_protocol u = js ''https:'' \<or> url_protocol u = js ''http:''
      | None \<Rightarrow> False)"

section \<open>Reading bindings\<close>

definition env_text :: "env \<Rightarrow> env_key \<Rightarrow> jstring" where
  "env_text env key = (case env key of Some (EnvText s) \<Rightarrow> js_trim s | _ \<Rightarrow> [])"

definition env_list :: "jstring \<Rightarrow> jstring list" where
  "env_list raw = filter (\<lambda>s. 0 < length s) (map js_trim (js_split (js '','') raw))"

definition readIdentity :: "platform \<Rightarrow> env \<Rightarrow> deployment_identity" where
  "readIdentity L env =
     (let chainId = string_to_number (number_rest L) (env_text env CHAIN_ID);
          registry = env_text env REGISTRY_ADDRESS;
          deployment = env_text env DEPLOYMENT_NAME
      in \<lparr>di_deployment = (if deployment \<noteq> [] then deployment
                           else js ''keeper (DEPLOYMENT_NAME unset)''),
          di_chainId = (case chainId of
             IntNumber i \<Rightarrow> if 0 < i then Some (nat i) else None | _ \<Rightarrow> None),
          di_chainName = map_option chain_name (chain_at L chainId),
          di_registry = truthy (Some registry)\<rparr>)"

definition readTelegramConfig :: "env \<Rightarrow> telegram_config option" where
  "readTelegramConfig env =
     (let botToken = env_text env TELEGRAM_BOT_TOKEN;
          chatId = env_text env TELEGRAM_CHAT_ID
      in if is_bot_token botToken \<and> is_chat_id chatId
         then Some \<lparr>tg_botToken = botToken, tg_chatId = chatId\<rparr> else None)"

text \<open>The two local helpers of \<open>readConfig\<close>: the value, and the problem it pushed, if any.\<close>

definition quoted :: "jstring \<Rightarrow> jstring" where
  "quoted s = [0x22] @ s @ [0x22]"

definition config_flag :: "env \<Rightarrow> env_key \<Rightarrow> bool \<times> jstring list" where
  "config_flag env key =
     (let raw = js_lower (env_text env key) in
      if raw = [] \<or> raw = js ''false'' then (False, [])
      else if raw = js ''true'' then (True, [])
      else (False, [key_name key @ js '' must be '' @ quoted (js ''true'') @ js '' or '' @
                    quoted (js ''false'') @ js '', got '' @ quoted raw]))"

definition below_one :: "js_number \<Rightarrow> bool" where
  "below_one n = (case n of IntNumber i \<Rightarrow> i < 1 | _ \<Rightarrow> False)"

definition config_count :: "platform \<Rightarrow> env \<Rightarrow> env_key \<Rightarrow> nat option \<Rightarrow> nat \<times> jstring list" where
  "config_count L env key fallback =
     (let raw = env_text env key; n = string_to_number (number_rest L) raw in
      case fallback of
        Some d \<Rightarrow>
          if raw = [] then (d, [])
          else if \<not> all_digits raw \<or> below_one n \<or> \<not> is_safe_integer n
          then (0, [key_name key @ js '' must be a positive integer, got '' @ quoted raw])
          else (case n of IntNumber i \<Rightarrow> nat i | _ \<Rightarrow> 0, [])
      | None \<Rightarrow>
          if raw = [] then (0, [key_name key @ js '' is required''])
          else if \<not> all_digits raw \<or> below_one n \<or> \<not> is_safe_integer n
          then (0, [key_name key @ js '' must be a positive integer, got '' @ quoted raw])
          else (case n of IntNumber i \<Rightarrow> nat i | _ \<Rightarrow> 0, []))"

section \<open>Validation\<close>

text \<open>The problems of one required text of a given shape.\<close>

definition shape_problems :: "jstring \<Rightarrow> bool \<Rightarrow> jstring \<Rightarrow> jstring \<Rightarrow> jstring list" where
  "shape_problems value ok required malformed =
     (if value = [] then [required] else if ok then [] else [malformed])"

definition chain_problems :: "platform \<Rightarrow> env \<Rightarrow> jstring list" where
  "chain_problems L env =
     (let rawChainId = env_text env CHAIN_ID in
      if chain_at L (string_to_number (number_rest L) rawChainId) \<noteq> None then []
      else [js ''CHAIN_ID '' @
            (if rawChainId \<noteq> [] then rawChainId @ js '' is not supported'' else js ''is required'') @
            js '' (supported: '' @ js_join (js '', '') (map dec (chain_keys L)) @ js '')''])"

definition endpoint_problems :: "platform \<Rightarrow> jstring list \<Rightarrow> jstring list" where
  "endpoint_problems L endpoints =
     (if endpoints = [] then [js ''RPC_URL is required''] else []) @
     concat (map (\<lambda>(i, url). if isHttpUrl L url then []
       else [js ''RPC_URL entry '' @ dec i @ js '' is not an http(s) URL'']) (enumerate 1 endpoints))"

text \<open>The pushes of the statements, in order.\<close>

definition statement_problems :: "platform \<Rightarrow> env \<Rightarrow> jstring list" where
  "statement_problems L env =
     (let deployment = env_text env DEPLOYMENT_NAME;
          registry = env_text env REGISTRY_ADDRESS;
          privateKey = env_text env PRIVATE_KEY;
          endpoints = env_list (env_text env RPC_URL);
          botToken = env_text env TELEGRAM_BOT_TOKEN;
          chatId = env_text env TELEGRAM_CHAT_ID;
          volumeIds = env_list (env_text env VOLUME_IDS);
          rawBalance = env_text env MIN_BALANCE_WEI
      in (if deployment = [] then [js ''DEPLOYMENT_NAME is required''] else []) @
         chain_problems L env @
         (if is_address L registry then []
          else [if registry \<noteq> [] then js ''REGISTRY_ADDRESS is not a valid address: '' @ registry
                else js ''REGISTRY_ADDRESS is required'']) @
         shape_problems privateKey (is_hex32 privateKey)
           (js ''PRIVATE_KEY is required'')
           (js ''PRIVATE_KEY must be a 0x-prefixed 32-byte hex string'') @
         endpoint_problems L endpoints @
         shape_problems botToken (is_bot_token botToken)
           (js ''TELEGRAM_BOT_TOKEN is required'')
           (js ''TELEGRAM_BOT_TOKEN does not look like a bot token (<id>:<secret>)'') @
         shape_problems chatId (is_chat_id chatId)
           (js ''TELEGRAM_CHAT_ID is required'')
           (js ''TELEGRAM_CHAT_ID must be a numeric chat id or @channel: '' @ chatId) @
         concat (map (\<lambda>i. if is_hex32 i then []
           else [js ''VOLUME_IDS entry is not a 32-byte hex string: '' @ i]) volumeIds) @
         shape_problems rawBalance (all_digits rawBalance)
           (js ''MIN_BALANCE_WEI is required (0 disables the warning)'')
           (js ''MIN_BALANCE_WEI must be a whole number of wei, got '' @ quoted rawBalance))"

text \<open>The pushes made while the configuration object is built, in the order of its fields.\<close>

definition field_problems :: "platform \<Rightarrow> env \<Rightarrow> jstring list" where
  "field_problems L env =
     snd (config_flag env NOTIFY_WARNINGS) @
     snd (config_flag env DRY_RUN) @
     snd (config_count L env MAX_VOLUMES_PER_CYCLE None) @
     snd (config_count L env PAGE_SIZE (Some 100)) @
     snd (config_count L env CYCLE_TIMEOUT_MS None) @
     snd (config_count L env RECEIPT_TIMEOUT_MS None) @
     snd (config_count L env CONFIRMATIONS (Some 1))"

definition build_config :: "platform \<Rightarrow> env \<Rightarrow> chain \<Rightarrow> config" where
  "build_config L env ch =
     (let volumeIds = env_list (env_text env VOLUME_IDS);
          rawBalance = env_text env MIN_BALANCE_WEI
      in \<lparr>cfg_deployment = env_text env DEPLOYMENT_NAME,
          cfg_chain = ch,
          cfg_registry = env_text env REGISTRY_ADDRESS,
          cfg_privateKey = env_text env PRIVATE_KEY,
          cfg_endpoints = env_list (env_text env RPC_URL),
          cfg_telegram = \<lparr>tg_botToken = env_text env TELEGRAM_BOT_TOKEN,
                          tg_chatId = env_text env TELEGRAM_CHAT_ID\<rparr>,
          cfg_notifyWarnings = fst (config_flag env NOTIFY_WARNINGS),
          cfg_minBalanceWei = (if all_digits rawBalance then dec_value rawBalance else 0),
          cfg_mode = (if volumeIds \<noteq> [] then Selected volumeIds else AllVolumes),
          cfg_dryRun = fst (config_flag env DRY_RUN),
          cfg_limits =
            \<lparr>lim_maxVolumesPerCycle = fst (config_count L env MAX_VOLUMES_PER_CYCLE None),
             lim_pageSize = fst (config_count L env PAGE_SIZE (Some 100)),
             lim_cycleTimeoutMs = fst (config_count L env CYCLE_TIMEOUT_MS None),
             lim_receiptTimeoutMs = fst (config_count L env RECEIPT_TIMEOUT_MS None),
             lim_confirmations = fst (config_count L env CONFIRMATIONS (Some 1))\<rparr>\<rparr>)"

text \<open>
  The configuration, or the problems of the \<open>ConfigError\<close>. Without a supported chain there is
  always a problem, so the last branch is never taken with an empty list.
\<close>

definition readConfig :: "platform \<Rightarrow> env \<Rightarrow> jstring list + config" where
  "readConfig L env =
     (let problems = statement_problems L env @ field_problems L env in
      case chain_at L (string_to_number (number_rest L) (env_text env CHAIN_ID)) of
        Some ch \<Rightarrow> if problems \<noteq> [] then Inl problems else Inr (build_config L env ch)
      | None \<Rightarrow> Inl problems)"

text \<open>The message of a \<open>ConfigError\<close>.\<close>

definition config_error_message :: "jstring list \<Rightarrow> jstring" where
  "config_error_message problems = js ''invalid configuration: '' @ js_join (js ''; '') problems"

section \<open>Which bindings are accepted\<close>

definition flag_ok :: "env \<Rightarrow> env_key \<Rightarrow> bool" where
  "flag_ok env key \<longleftrightarrow> js_lower (env_text env key) \<in> {[], js ''false'', js ''true''}"

definition count_ok :: "env \<Rightarrow> env_key \<Rightarrow> bool" where
  "count_ok env key \<longleftrightarrow>
     all_digits (env_text env key) \<and> 1 \<le> dec_value (env_text env key) \<and>
     dec_value (env_text env key) \<le> max_safe"

lemma config_flag_ok [config_simps]: "snd (config_flag env key) = [] \<longleftrightarrow> flag_ok env key"
  by (auto simp: config_flag_def flag_ok_def Let_def)

lemma config_count_required [config_simps]:
  "snd (config_count L env key None) = [] \<longleftrightarrow> count_ok env key"
proof (cases "all_digits (env_text env key)")
  case True
  then have ne: "env_text env key \<noteq> []" by (simp add: all_digits_def)
  note safe = string_to_number_digits_safe [OF True, of "number_rest L"]
  show ?thesis
  proof (cases "dec_value (env_text env key) \<le> max_safe")
    case True
    then show ?thesis using safe ne \<open>all_digits _\<close>
      by (auto simp: config_count_def count_ok_def below_one_def Let_def)
  next
    case False
    then show ?thesis using safe ne
      by (auto simp: config_count_def count_ok_def Let_def)
  qed
next
  case False
  then show ?thesis by (simp add: config_count_def count_ok_def Let_def)
qed

lemma config_count_optional [config_simps]:
  "snd (config_count L env key (Some d)) = [] \<longleftrightarrow> env_text env key = [] \<or> count_ok env key"
proof (cases "env_text env key = []")
  case True
  then show ?thesis by (simp add: config_count_def Let_def)
next
  case False
  then have "config_count L env key (Some d) = config_count L env key None"
    by (simp add: config_count_def Let_def)
  then show ?thesis using False config_count_required by simp
qed

lemma config_count_value:
  assumes "count_ok env key"
  shows "fst (config_count L env key fallback) = dec_value (env_text env key)"
proof -
  have "all_digits (env_text env key)" "env_text env key \<noteq> []"
    using assms by (auto simp: count_ok_def all_digits_def)
  then show ?thesis
    using assms string_to_number_digits_safe [of "env_text env key" "number_rest L"]
    by (auto simp: config_count_def count_ok_def below_one_def Let_def split: option.split)
qed

lemma config_count_default:
  "env_text env key = [] \<Longrightarrow> fst (config_count L env key (Some d)) = d"
  by (simp add: config_count_def Let_def)

lemma endpoint_problems_Nil [config_simps]:
  "endpoint_problems L us = [] \<longleftrightarrow> us \<noteq> [] \<and> list_all (isHttpUrl L) us"
proof -
  have "concat (map (\<lambda>(i, url). if isHttpUrl L url then []
       else [js ''RPC_URL entry '' @ dec i @ js '' is not an http(s) URL'']) (enumerate n us)) = []
     \<longleftrightarrow> list_all (isHttpUrl L) us" for n
    by (induction us arbitrary: n) auto
  then show ?thesis by (simp add: endpoint_problems_def)
qed

lemma shape_problems_Nil [config_simps]:
  "shape_problems v ok x y = [] \<longleftrightarrow> v \<noteq> [] \<and> ok"
  by (simp add: shape_problems_def)

lemma chain_problems_Nil [config_simps]:
  "chain_problems L env = [] \<longleftrightarrow>
   chain_at L (string_to_number (number_rest L) (env_text env CHAIN_ID)) \<noteq> None"
  by (simp add: chain_problems_def Let_def)

text \<open>What the bindings have to be, setting by setting.\<close>

definition settings_ok :: "platform \<Rightarrow> env \<Rightarrow> bool" where
  "settings_ok L env \<longleftrightarrow>
     env_text env DEPLOYMENT_NAME \<noteq> [] \<and>
     chain_at L (string_to_number (number_rest L) (env_text env CHAIN_ID)) \<noteq> None \<and>
     is_address L (env_text env REGISTRY_ADDRESS) \<and>
     is_hex32 (env_text env PRIVATE_KEY) \<and>
     env_list (env_text env RPC_URL) \<noteq> [] \<and>
     list_all (isHttpUrl L) (env_list (env_text env RPC_URL)) \<and>
     is_bot_token (env_text env TELEGRAM_BOT_TOKEN) \<and>
     is_chat_id (env_text env TELEGRAM_CHAT_ID) \<and>
     list_all is_hex32 (env_list (env_text env VOLUME_IDS)) \<and>
     all_digits (env_text env MIN_BALANCE_WEI) \<and>
     flag_ok env NOTIFY_WARNINGS \<and> flag_ok env DRY_RUN \<and>
     count_ok env MAX_VOLUMES_PER_CYCLE \<and>
     (env_text env PAGE_SIZE = [] \<or> count_ok env PAGE_SIZE) \<and>
     count_ok env CYCLE_TIMEOUT_MS \<and>
     count_ok env RECEIPT_TIMEOUT_MS \<and>
     (env_text env CONFIRMATIONS = [] \<or> count_ok env CONFIRMATIONS)"

lemma shapes_nonempty [simp]:
  "\<not> is_hex32 []" "\<not> is_bot_token []" "\<not> is_chat_id []" "\<not> all_digits []"
  by (simp_all add: is_hex32_def is_bot_token_def is_chat_id_def all_digits_def)

lemma nonempty_and_shape:
  "(v \<noteq> [] \<and> is_hex32 v) = is_hex32 v" "(v \<noteq> [] \<and> is_bot_token v) = is_bot_token v"
  "(v \<noteq> [] \<and> is_chat_id v) = is_chat_id v" "(v \<noteq> [] \<and> all_digits v) = all_digits v"
  by (cases v; simp)+

lemma problems_Nil:
  "statement_problems L env @ field_problems L env = [] \<longleftrightarrow> settings_ok L env"
  unfolding statement_problems_def field_problems_def Let_def append_is_Nil_conv config_simps
    nonempty_and_shape settings_ok_def
  by (auto simp: list_all_iff split: if_splits)

lemma readConfig_cases:
  "(settings_ok L env \<and> (\<exists>ch. chain_at L (string_to_number (number_rest L) (env_text env CHAIN_ID)) = Some ch \<and>
      readConfig L env = Inr (build_config L env ch))) \<or>
   (\<not> settings_ok L env \<and>
      readConfig L env = Inl (statement_problems L env @ field_problems L env))"
proof (cases "settings_ok L env")
  case True
  then obtain ch where "chain_at L (string_to_number (number_rest L) (env_text env CHAIN_ID)) = Some ch"
    by (auto simp: settings_ok_def)
  then show ?thesis using True problems_Nil [of L env] by (simp add: readConfig_def Let_def)
next
  case False
  then show ?thesis using problems_Nil [of L env]
    by (simp add: readConfig_def Let_def split: option.split)
qed

section \<open>Accepted configurations\<close>

text \<open>What the rest of the Worker may rely on in a configuration.\<close>

definition valid_limits :: "cycle_limits \<Rightarrow> bool" where
  "valid_limits l \<longleftrightarrow>
     list_all (\<lambda>n. 1 \<le> n \<and> n \<le> max_safe)
       [lim_maxVolumesPerCycle l, lim_pageSize l, lim_cycleTimeoutMs l, lim_receiptTimeoutMs l,
        lim_confirmations l]"

definition valid_mode :: "keeper_mode \<Rightarrow> bool" where
  "valid_mode m = (case m of AllVolumes \<Rightarrow> True | Selected ids \<Rightarrow> ids \<noteq> [] \<and> list_all is_hex32 ids)"

definition valid_config :: "platform \<Rightarrow> config \<Rightarrow> bool" where
  "valid_config L c \<longleftrightarrow>
     cfg_deployment c \<noteq> [] \<and>
     CHAINS L (chain_id (cfg_chain c)) = Some (cfg_chain c) \<and>
     is_address L (cfg_registry c) \<and>
     is_hex32 (cfg_privateKey c) \<and>
     cfg_endpoints c \<noteq> [] \<and> list_all (isHttpUrl L) (cfg_endpoints c) \<and>
     is_bot_token (tg_botToken (cfg_telegram c)) \<and> is_chat_id (tg_chatId (cfg_telegram c)) \<and>
     valid_mode (cfg_mode c) \<and> valid_limits (cfg_limits c)"

lemma chain_at_CHAINS: "chain_at L n = Some c \<Longrightarrow> CHAINS L (chain_id c) = Some c"
  using CHAINS_id by (auto simp: chain_at_def split: js_number.splits if_splits)

lemma count_value_range:
  "count_ok env key \<Longrightarrow>
   1 \<le> fst (config_count L env key fallback) \<and> fst (config_count L env key fallback) \<le> max_safe"
  by (auto simp: config_count_value count_ok_def)

lemma count_value_range_optional:
  assumes "env_text env key = [] \<or> count_ok env key" "1 \<le> d" "d \<le> max_safe"
  shows "1 \<le> fst (config_count L env key (Some d)) \<and> fst (config_count L env key (Some d)) \<le> max_safe"
  using assms count_value_range [of env key L "Some d"] by (auto simp: config_count_default)

lemma build_config_valid:
  assumes "settings_ok L env"
    and "chain_at L (string_to_number (number_rest L) (env_text env CHAIN_ID)) = Some ch"
  shows "valid_config L (build_config L env ch)"
proof -
  have small: "1 \<le> max_safe" "100 \<le> max_safe" by (simp_all add: max_safe_def)
  have "valid_limits (cfg_limits (build_config L env ch))"
    using assms(1) small count_value_range count_value_range_optional
    unfolding valid_limits_def build_config_def settings_ok_def Let_def
    by simp
  moreover have "valid_mode (cfg_mode (build_config L env ch))"
    using assms(1) by (simp add: valid_mode_def build_config_def settings_ok_def Let_def)
  ultimately show ?thesis
    using assms chain_at_CHAINS [OF assms(2)]
    by (simp add: valid_config_def build_config_def settings_ok_def Let_def)
qed

lemma digits_trimmed: "all_digits s \<Longrightarrow> trimmed s"
proof -
  assume s: "all_digits s"
  have "\<not> is_white c" if "c \<in> set s" for c
    using s that by (auto simp: all_digits_def list_all_iff is_digit_def is_white_def white_units_def)
  then show ?thesis by (auto simp: trimmed_def)
qed

section \<open>Properties\<close>

text \<open>
  C35: configuration is all or nothing. The bindings are accepted exactly when every setting is right;
  the configuration then has a supported chain, a valid registry address, a well-formed key, at
  least one endpoint and only http(s) ones, a usable alert channel, and limits that are exact
  positive integers. Otherwise the result is a non-empty list of problems.
\<close>

theorem readConfig_decides:
  "case readConfig L env of
     Inr c \<Rightarrow> settings_ok L env \<and> valid_config L c
   | Inl problems \<Rightarrow> \<not> settings_ok L env \<and> problems \<noteq> []"
  using readConfig_cases [of L env] problems_Nil [of L env] build_config_valid
  by (auto split: sum.split)

text \<open>
  An accepted configuration and the lenient reading of the alert channel agree, so an alert
  about a run goes to the channel the configuration names.
\<close>

lemma telegram_config_agrees:
  "case readConfig L env of
     Inr c \<Rightarrow> readTelegramConfig env = Some (cfg_telegram c)
   | Inl _ \<Rightarrow> True"
  using readConfig_cases [of L env]
  by (auto simp: readTelegramConfig_def Let_def build_config_def settings_ok_def split: sum.split)

text \<open>
  Two bindings that differ at most in secrets, and whose secrets have the same shape: each is
  missing, malformed or well-formed alike, and the endpoint lists are valid at the same places.
\<close>

definition same_secret_shapes :: "platform \<Rightarrow> env \<Rightarrow> env \<Rightarrow> bool" where
  "same_secret_shapes L e f \<longleftrightarrow>
     (env_text e PRIVATE_KEY = []) = (env_text f PRIVATE_KEY = []) \<and>
     is_hex32 (env_text e PRIVATE_KEY) = is_hex32 (env_text f PRIVATE_KEY) \<and>
     (env_text e TELEGRAM_BOT_TOKEN = []) = (env_text f TELEGRAM_BOT_TOKEN = []) \<and>
     is_bot_token (env_text e TELEGRAM_BOT_TOKEN) = is_bot_token (env_text f TELEGRAM_BOT_TOKEN) \<and>
     map (isHttpUrl L) (env_list (env_text e RPC_URL)) =
       map (isHttpUrl L) (env_list (env_text f RPC_URL))"

definition agree_outside_secrets :: "env \<Rightarrow> env \<Rightarrow> bool" where
  "agree_outside_secrets e f \<longleftrightarrow>
     list_all (\<lambda>k. e k = f k)
       [DEPLOYMENT_NAME, CHAIN_ID, REGISTRY_ADDRESS, NOTIFY_WARNINGS, MIN_BALANCE_WEI,
        MAX_VOLUMES_PER_CYCLE, CYCLE_TIMEOUT_MS, RECEIPT_TIMEOUT_MS, CONFIRMATIONS,
        TELEGRAM_CHAT_ID, DRY_RUN, VOLUME_IDS, PAGE_SIZE]"

definition endpoint_marks :: "nat \<Rightarrow> bool list \<Rightarrow> jstring list" where
  "endpoint_marks n oks = concat (map (\<lambda>(i, ok). if ok then []
     else [js ''RPC_URL entry '' @ dec i @ js '' is not an http(s) URL'']) (enumerate n oks))"

lemma endpoint_problems_marks:
  "endpoint_problems L us =
     (if map (isHttpUrl L) us = [] then [js ''RPC_URL is required''] else []) @
     endpoint_marks 1 (map (isHttpUrl L) us)"
proof -
  have "concat (map (\<lambda>(i, url). if isHttpUrl L url then []
       else [js ''RPC_URL entry '' @ dec i @ js '' is not an http(s) URL'']) (enumerate n us)) =
     endpoint_marks n (map (isHttpUrl L) us)" for n
    unfolding endpoint_marks_def by (induction us arbitrary: n) simp_all
  then show ?thesis by (simp add: endpoint_problems_def)
qed

lemma endpoint_problems_shape:
  "map (isHttpUrl L) us = map (isHttpUrl L) vs \<Longrightarrow> endpoint_problems L us = endpoint_problems L vs"
  by (simp add: endpoint_problems_marks)

lemma env_text_cong: "e k = f k \<Longrightarrow> env_text e k = env_text f k"
  by (simp add: env_text_def)

text \<open>
  Problems never tell a secret. The list of problems depends on the private key, the bot token
  and the RPC URLs only through whether each is missing, malformed or well-formed: bindings that
  agree elsewhere and have secrets of the same shapes are accepted alike and rejected with the very
  same texts.
\<close>

lemma problems_hide_secrets:
  assumes "agree_outside_secrets e f" and "same_secret_shapes L e f"
  shows "case readConfig L e of
           Inl problems \<Rightarrow> readConfig L f = Inl problems
         | Inr _ \<Rightarrow> \<not> is_Inl (readConfig L f)"
proof -
  have same: "env_text e k = env_text f k" if "k \<notin> {PRIVATE_KEY, TELEGRAM_BOT_TOKEN, RPC_URL}" for k
    using that assms(1) by (intro env_text_cong) (cases k; simp add: agree_outside_secrets_def)
  have "statement_problems L e = statement_problems L f"
    using assms(2) endpoint_problems_shape [of L "env_list (env_text e RPC_URL)" "env_list (env_text f RPC_URL)"]
    by (simp add: statement_problems_def chain_problems_def shape_problems_def same same_secret_shapes_def
        Let_def)
  moreover have "field_problems L e = field_problems L f"
    by (simp add: field_problems_def config_flag_def config_count_def same)
  ultimately show ?thesis using readConfig_cases [of L e] readConfig_cases [of L f]
      problems_Nil [of L e] problems_Nil [of L f]
    by (auto split: sum.split)
qed

definition sample_platform :: platform where
  "sample_platform =
     \<lparr>viem_gnosis = \<lparr>chain_id = 100, chain_name = js ''Gnosis'', chain_symbol = js ''xDAI'',
                      chain_blockTime = Some 5000\<rparr>,
      viem_sepolia = \<lparr>chain_id = 11155111, chain_name = js ''Sepolia'', chain_symbol = js ''ETH'',
                       chain_blockTime = None\<rparr>,
      parse_url = sample_parse_url, is_address = (\<lambda>s. length s = 42),
      number_rest = (\<lambda>_. NotANumber), number_text = dec, format_ether = dec\<rparr>"

theorem problems_hide_secrets_witness:
  "case readConfig sample_platform [PRIVATE_KEY \<mapsto> EnvText (js ''key one'')] of
     Inl problems \<Rightarrow> readConfig sample_platform [PRIVATE_KEY \<mapsto> EnvText (js ''key two'')] = Inl problems
   | Inr _ \<Rightarrow> \<not> is_Inl (readConfig sample_platform [PRIVATE_KEY \<mapsto> EnvText (js ''key two'')])"
proof (rule problems_hide_secrets)
  show "agree_outside_secrets [PRIVATE_KEY \<mapsto> EnvText (js ''key one'')]
      [PRIVATE_KEY \<mapsto> EnvText (js ''key two'')]"
    by (simp add: agree_outside_secrets_def)
  show "same_secret_shapes sample_platform [PRIVATE_KEY \<mapsto> EnvText (js ''key one'')]
      [PRIVATE_KEY \<mapsto> EnvText (js ''key two'')]"
    by (simp add: same_secret_shapes_def env_text_def js_trim_def is_white_def white_units_def
        js_def is_hex32_def)
qed

text \<open>
  A count is read exactly: the decimal digits of any safe positive integer, with or without white
  space around them, are accepted and read back as that integer, as a required setting and as one
  with a default.
\<close>

lemma count_reads_back:
  assumes "1 \<le> n" "n \<le> max_safe" "list_all is_white before" "list_all is_white behind"
    and "env key = Some (EnvText (before @ dec n @ behind))"
  shows "config_count L env key fallback = (n, [])"
proof -
  have "trimmed (dec n)"
    using all_digits_dec [of n] by (intro digits_trimmed) 
  then have read: "env_text env key = dec n"
    using assms(3-5) js_trim_pad [of "dec n" before behind] by (simp add: env_text_def list_all_iff)
  then have ok: "count_ok env key" using assms(1,2) all_digits_dec by (simp add: count_ok_def)
  then have "snd (config_count L env key fallback) = []"
    by (cases fallback) (simp_all add: config_count_required config_count_optional)
  moreover have "fst (config_count L env key fallback) = n"
    using config_count_value [OF ok] read by simp
  ultimately show ?thesis by (simp add: prod_eq_iff)
qed

lemma count_reads_back_witness:
  "config_count sample_platform [CONFIRMATIONS \<mapsto> EnvText ([0x20] @ dec 12 @ [0xA])] CONFIRMATIONS (Some 1) = (12, [])"
  using count_reads_back [of 12 "[0x20]" "[0xA]" "[CONFIRMATIONS \<mapsto> EnvText ([0x20] @ dec 12 @ [0xA])]" CONFIRMATIONS]
  by (simp add: max_safe_def is_white_def white_units_def)

end
