(* ===== verification/ActiveVolumes.thy ===== *)
theory ActiveVolumes
  imports ChainClient
begin

text \<open>
  \<open>getActiveVolumeCount.ts\<close> and \<open>collectActiveVolumes.ts\<close> of
  \<open>services/keeper/src/keeper/actions/\<close>: the registry's whole active index, read page by page.

  \<open>Math.ceil(Number(total) / pageSize)\<close> is a division of doubles; it is the exact ceiling for every
  count below \<open>2 ^ 53\<close>, and the contract keeps the index in \<open>uint32\<close> slots.

  The interface \<open>paged_index\<close> says what the client of a paged view may rely on; that the pages of a
  collection are the index, each entry once and in order, is proved there once.
\<close>

section \<open>Definitions\<close>

definition getActiveVolumeCount ::
  "'w client \<Rightarrow> address \<Rightarrow> nat option \<Rightarrow> ('w, nat) effect" where
  "getActiveVolumeCount C registry blockNumber = read_active_count C registry blockNumber"

text \<open>The \<open>args\<close> of page \<open>i\<close>: its offset and the page size.\<close>

definition page_args :: "nat \<Rightarrow> nat \<Rightarrow> (nat \<times> nat) list" where
  "page_args pageSize pageCount = map (\<lambda>i. (i * pageSize, pageSize)) [0..<pageCount]"

definition page_count :: "nat \<Rightarrow> nat \<Rightarrow> nat" where
  "page_count totalCount pageSize = (totalCount + pageSize - 1) div pageSize"

definition show_int :: "int \<Rightarrow> jstring" where
  "show_int i = (if i < 0 then js ''-'' @ dec (nat (- i)) else dec (nat i))"

definition collectActiveVolumes ::
  "'w client \<Rightarrow> address \<Rightarrow> int option \<Rightarrow> nat option \<Rightarrow> ('w, volume_view list) effect" where
  "collectActiveVolumes C registry pageSize_param blockNumber w =
     (let pageSize = nullish pageSize_param 100 in
      if pageSize < 1 then
        (Inl (ErrorObject (js ''pageSize must be >= 1, got '' @ show_int pageSize)), w)
      else
        case getActiveVolumeCount C registry blockNumber w of
          (Inl e, w1) \<Rightarrow> (Inl e, w1)
        | (Inr totalCount, w1) \<Rightarrow>
            if totalCount = 0 then (Inr [], w1)
            else
              (let pageCount = page_count totalCount (nat pageSize) in
               case multicall_active_pages C registry blockNumber
                      (page_args (nat pageSize) pageCount) w1 of
                 (Inl e, w2) \<Rightarrow> (Inl e, w2)
               | (Inr pages, w2) \<Rightarrow> (Inr (concat pages), w2)))"

section \<open>Paged views of an index\<close>

text \<open>
  A view of an index by pages, in arithmetic below \<open>bound\<close>: \<open>count\<close> is the index's length, and a page
  is the slice it names, shorter where the index ends. \<open>row\<close> is what the view shows of an entry. The
  provider promises this for an index and for pages within the bound.
\<close>

locale paged_index =
  fixes index :: "'id list"
    and row :: "'id \<Rightarrow> 'row"
    and count :: nat
    and page :: "nat \<Rightarrow> nat \<Rightarrow> 'row list"
    and bound :: nat
  assumes count_eq: "length index < bound \<Longrightarrow> count = length index"
    and page_eq: "length index < bound \<Longrightarrow> off + len < bound \<Longrightarrow>
      page off len = map row (take len (drop off index))"
begin

lemma pages_cover:
  assumes "0 < k" and "length index + 2 * k < bound"
  shows "concat (map (\<lambda>(off, len). page off len) (page_args k (page_count count k))) = map row index"
proof -
  let ?n = "page_count count k"
  have short: "length index < bound" using assms(2) by linarith
  have count: "count = length index" by (rule count_eq [OF short])
  have "(length index + k - 1) div k * k \<le> length index + k - 1"
    by (rule div_times_less_eq_dividend)
  then have last: "?n * k \<le> length index + k" unfolding page_count_def count by linarith
  have "page (i * k) k = map row (take k (drop (i * k) index))" if "i < ?n" for i
  proof (rule page_eq [OF short])
    have "i * k \<le> ?n * k" using that by simp
    then show "i * k + k < bound" using assms last by linarith
  qed
  then have "map (\<lambda>(off, len). page off len) (page_args k ?n) =
      map (map row) (map (\<lambda>i. take k (drop (i * k) index)) [0..<?n])"
    by (simp add: page_args_def)
  then have "concat (map (\<lambda>(off, len). page off len) (page_args k ?n)) =
      map row (concat (map (\<lambda>i. take k (drop (i * k) index)) [0..<?n]))"
    by (simp only: map_concat)
  also have "\<dots> = map row (take (?n * k) index)"
    using assms(1) by (simp only: concat_take_drop_pages)
  also have "take (?n * k) index = index"
    using ceil_div_covers [OF assms(1), of count] by (simp add: page_count_def count)
  finally show ?thesis .
qed

lemma pages_empty: "length index < bound \<Longrightarrow> count = 0 \<Longrightarrow> map row index = []"
  using count_eq by simp

end

section \<open>Collecting from a paged index\<close>

text \<open>
  A client whose two registry reads answer from such an index, at the block asked for and without
  failing, collects exactly the index.
\<close>

definition reads_index ::
  "'w client \<Rightarrow> address \<Rightarrow> nat option \<Rightarrow> nat \<Rightarrow> (nat \<Rightarrow> nat \<Rightarrow> volume_view list) \<Rightarrow> bool" where
  "reads_index C registry blockNumber count page \<longleftrightarrow>
     (\<forall>w. fst (read_active_count C registry blockNumber w) = Inr count) \<and>
     (\<forall>w calls. fst (multicall_active_pages C registry blockNumber calls w) =
        Inr (map (\<lambda>(off, len). page off len) calls))"

lemma collect_error_page_size:
  "nullish k 100 < 1 \<Longrightarrow>
   collectActiveVolumes C r k b w =
     (Inl (ErrorObject (js ''pageSize must be >= 1, got '' @ show_int (nullish k 100))), w)"
  by (simp add: collectActiveVolumes_def)

lemma collect_pages:
  assumes "reads_index C r b count page" and "1 \<le> nullish k 100"
  shows "fst (collectActiveVolumes C r k b w) =
     Inr (if count = 0 then []
          else concat (map (\<lambda>(off, len). page off len)
                 (page_args (nat (nullish k 100)) (page_count count (nat (nullish k 100))))))"
proof -
  obtain w1 where r1: "read_active_count C r b w = (Inr count, w1)"
    using assms(1) unfolding reads_index_def by (metis prod.collapse)
  let ?calls = "page_args (nat (nullish k 100)) (page_count count (nat (nullish k 100)))"
  obtain w2 where r2: "multicall_active_pages C r b ?calls w1 =
      (Inr (map (\<lambda>(off, len). page off len) ?calls), w2)"
    using assms(1) unfolding reads_index_def by (metis prod.collapse)
  show ?thesis using assms(2)
    by (simp add: collectActiveVolumes_def getActiveVolumeCount_def Let_def r1 r2)
qed

end
