(* ===== verification/TriggerTx.thy ===== *)
theory TriggerTx
  imports ChainClient
begin

text \<open>
  \<open>services/keeper/src/keeper/actions/trigger.ts\<close>: one \<open>trigger(bytes32)\<close> transaction.

  The floating-point \<open>gasMultiplier\<close> enters the code only as \<open>Math.round(multiplier * 100)\<close>, a whole
  percentage; the model's argument is that percentage, 120 for the default of 1.2. Gas amounts are
  \<open>bigint\<close>s, so \<open>/ 100n\<close> is exact integer division.
\<close>

section \<open>Definitions\<close>

record trigger_params =
  tp_registry :: address
  tp_volumeId :: hex
  tp_gas :: "nat option"
  tp_gasPercent :: "nat option"
  tp_gasFloor :: "nat option"
  tp_nonce :: "nat option"
  tp_maxFeePerGas :: "nat option"
  tp_maxPriorityFeePerGas :: "nat option"

definition scaleGas :: "nat \<Rightarrow> nat \<Rightarrow> nat" where
  "scaleGas gas percent = (gas * percent) div 100"

text \<open>The estimate, scaled and floored; an explicit gas limit skips the estimate.\<close>

definition trigger_gas :: "'w client \<Rightarrow> trigger_params \<Rightarrow> ('w, nat) effect" where
  "trigger_gas C p w =
     (case tp_gas p of
        Some gas \<Rightarrow> (Inr gas, w)
      | None \<Rightarrow>
          (case estimate_trigger_gas C (tp_registry p) (tp_volumeId p) w of
             (Inl e, w1) \<Rightarrow> (Inl e, w1)
           | (Inr estimate, w1) \<Rightarrow>
               (let gas = scaleGas estimate (nullish (tp_gasPercent p) 120);
                    gasFloor = nullish (tp_gasFloor p) 3000000
                in (Inr (if gas < gasFloor then gasFloor else gas), w1))))"

definition trigger :: "'w client \<Rightarrow> trigger_params \<Rightarrow> ('w, hex) effect" where
  "trigger C p w =
     (case trigger_gas C p w of
        (Inl e, w1) \<Rightarrow> (Inl e, w1)
      | (Inr gas, w1) \<Rightarrow>
          write_contract C
            \<lparr>tx_registry = tp_registry p, tx_volumeId = tp_volumeId p, tx_gas = gas,
             tx_chainId = client_chainId C, tx_nonce = tp_nonce p,
             tx_maxFeePerGas = tp_maxFeePerGas p,
             tx_maxPriorityFeePerGas = tp_maxPriorityFeePerGas p\<rparr> w1)"

section \<open>The gas limit\<close>

text \<open>The limit an estimate leads to.\<close>

definition gas_limit :: "trigger_params \<Rightarrow> nat \<Rightarrow> nat" where
  "gas_limit p estimate =
     max (nullish (tp_gasFloor p) 3000000) (scaleGas estimate (nullish (tp_gasPercent p) 120))"

lemma trigger_gas_estimated:
  "tp_gas p = None \<Longrightarrow>
   estimate_trigger_gas C (tp_registry p) (tp_volumeId p) w = (Inr estimate, w1) \<Longrightarrow>
   trigger_gas C p w = (Inr (gas_limit p estimate), w1)"
  by (auto simp: trigger_gas_def gas_limit_def Let_def max_def)

lemma trigger_gas_error:
  "tp_gas p = None \<Longrightarrow>
   estimate_trigger_gas C (tp_registry p) (tp_volumeId p) w = (Inl e, w1) \<Longrightarrow>
   trigger C p w = (Inl e, w1)"
  by (simp add: trigger_def trigger_gas_def)

lemma scaleGas_headroom: "100 \<le> percent \<Longrightarrow> gas \<le> scaleGas gas percent"
  unfolding scaleGas_def
  by (metis div_le_mono div_mult_self_is_m mult_le_mono2 zero_less_numeral)

lemma scaleGas_mono: "gas \<le> gas' \<Longrightarrow> scaleGas gas percent \<le> scaleGas gas' percent"
  unfolding scaleGas_def by (simp add: div_le_mono)

lemma gas_limit_floor: "nullish (tp_gasFloor p) 3000000 \<le> gas_limit p estimate"
  by (simp add: gas_limit_def)

lemma gas_limit_default:
  "tp_gasPercent p = None \<Longrightarrow> 6 * estimate div 5 \<le> gas_limit p estimate"
  by (simp add: gas_limit_def scaleGas_def)

text \<open>A send that succeeded sent exactly this request, after an estimate that succeeded.\<close>

lemma trigger_sent:
  assumes "trigger C p w = (Inr hash, w2)" and "tp_gas p = None"
  obtains estimate w1 where
    "estimate_trigger_gas C (tp_registry p) (tp_volumeId p) w = (Inr estimate, w1)"
    and "write_contract C
            \<lparr>tx_registry = tp_registry p, tx_volumeId = tp_volumeId p,
             tx_gas = gas_limit p estimate,
             tx_chainId = client_chainId C, tx_nonce = tp_nonce p,
             tx_maxFeePerGas = tp_maxFeePerGas p,
             tx_maxPriorityFeePerGas = tp_maxPriorityFeePerGas p\<rparr> w1 = (Inr hash, w2)"
proof (cases "estimate_trigger_gas C (tp_registry p) (tp_volumeId p) w")
  case (Pair r w1)
  show ?thesis
  proof (cases r)
    case (Inl e)
    then have "trigger C p w = (Inl e, w1)" using assms(2) Pair by (simp add: trigger_gas_error)
    then show ?thesis using assms(1) by simp
  next
    case (Inr estimate)
    then show ?thesis using assms Pair that
      by (simp add: trigger_def trigger_gas_estimated)
  qed
qed

end
