(* ===== verification/KeeperCycle.thy ===== *)
theory KeeperCycle
  imports ActiveVolumes TriggerTx
begin

text \<open>
  \<open>services/keeper/src/keeper/actions/runKeeperCycle.ts\<close>: one keeper cycle. The state a cycle keeps
  is the \<open>result\<close> it fills in, the \<open>sending\<close> values it shares between transactions, and the outside
  world behind the client. \<open>sendOne\<close> is one volume's turn, \<open>cycle_loop\<close> the loop over the volumes
  with its deadline, \<open>cycle_body\<close> the \<open>try\<close> block and \<open>runKeeperCycle\<close> the whole function with its
  \<open>catch\<close> and \<open>finally\<close>.

  A rejection inside \<open>cycle_body\<close> is its first component; the result filled in so far is kept, as the
  source's \<open>catch\<close> keeps it.
\<close>

section \<open>State\<close>

record cycle_params =
  cp_registry :: address
  cp_mode :: "keeper_mode option"
  cp_pageSize :: "int option"
  cp_maxVolumesPerCycle :: "nat option"
  cp_gasPercent :: "nat option"
  cp_gasFloor :: "nat option"
  cp_confirmations :: "nat option"
  cp_receiptTimeout :: "nat option"
  cp_cycleTimeout :: "nat option"
  cp_dryRun :: "bool option"

record cycle_result =
  cr_ok :: bool
  cr_mode :: jstring
  cr_blockNumber :: "nat option"
  cr_volumeCount :: nat
  cr_skipped :: "jstring option"
  cr_volumes :: "volume_result list"
  cr_toppedUp :: "(hex \<times> nat) list"
  cr_retired :: "volume_outcome list"
  cr_topupSkipped :: "volume_outcome list"
  cr_noop :: "hex list"
  cr_failed :: "hex list"
  cr_notActive :: "hex list"
  cr_warnings :: "keeper_issue list"
  cr_error :: "jstring option"
  cr_durationMs :: millis

text \<open>What every transaction in a cycle shares, read once.\<close>

record sending =
  snd_nonce :: nat
  snd_maxFeePerGas :: nat
  snd_maxPriorityFeePerGas :: nat

section \<open>Rotation\<close>

definition rotateVolumes :: "viem \<Rightarrow> 'a list \<Rightarrow> nat \<Rightarrow> 'a list" where
  "rotateVolumes V ids blockNumber =
     (if length ids < 2 then ids
      else let hash = keccak256 V (numberToHex32 V blockNumber);
               start = hexToBigInt V hash mod length ids
           in drop start ids @ take start ids)"

section \<open>The volume list\<close>

text \<open>The \<open>forEach\<close> over the views of selected mode; viem's multicall answers each call in order.\<close>

fun select_active ::
  "(hex \<times> volume_view) list \<Rightarrow> hex list \<Rightarrow> cycle_result \<Rightarrow> hex list \<times> cycle_result" where
  "select_active [] active r = (active, r)"
| "select_active ((volumeId, view) # rest) active r =
     (if view_status view = VOLUME_STATUS_active
      then select_active rest (active @ [view_volumeId view]) r
      else select_active rest active
             (r\<lparr>cr_notActive := cr_notActive r @ [volumeId],
                cr_warnings := cr_warnings r @
                  [\<lparr>issue_message = js ''requested volume is not Active'',
                    issue_volumeId = Some volumeId, issue_hash = None\<rparr>]\<rparr>))"

definition collectIds ::
  "'w client \<Rightarrow> cycle_params \<Rightarrow> nat \<Rightarrow> cycle_result \<Rightarrow> 'w \<Rightarrow>
     (exn + hex list) \<times> cycle_result \<times> 'w" where
  "collectIds C P blockNumber r w =
     (case nullish (cp_mode P) AllVolumes of
        AllVolumes \<Rightarrow>
          (case collectActiveVolumes C (cp_registry P) (cp_pageSize P) (Some blockNumber) w of
             (Inl e, w1) \<Rightarrow> (Inl e, r, w1)
           | (Inr volumes, w1) \<Rightarrow> (Inr (map view_volumeId volumes), r, w1))
      | Selected ids \<Rightarrow>
          (case multicall_volumes C (cp_registry P) (Some blockNumber) ids w of
             (Inl e, w1) \<Rightarrow> (Inl e, r, w1)
           | (Inr views, w1) \<Rightarrow>
               (let (active, r1) = select_active (zip ids views) [] r in (Inr active, r1, w1))))"

section \<open>One volume\<close>

definition readSending :: "'w client \<Rightarrow> ('w, sending) effect" where
  "readSending C w =
     (let (nonce, w1) = get_transaction_count C (client_address C) w;
          (block, w2) = get_block C w1;
          (tip, w3) = estimate_priority_fee C w2
      in (case nonce of Inl e \<Rightarrow> Inl e | Inr n \<Rightarrow>
          (case block of Inl e \<Rightarrow> Inl e | Inr b \<Rightarrow>
          (case tip of Inl e \<Rightarrow> Inl e | Inr t \<Rightarrow>
             Inr \<lparr>snd_nonce = n, snd_maxFeePerGas = nullish (baseFeePerGas b) 0 * 2 + t,
                  snd_maxPriorityFeePerGas = t\<rparr>)), w3))"

text \<open>\<open>sending ??= await readSending()\<close>.\<close>

definition ensure_sending :: "'w client \<Rightarrow> sending option \<Rightarrow> ('w, sending) effect" where
  "ensure_sending C sending w = (case sending of Some s \<Rightarrow> (Inr s, w) | None \<Rightarrow> readSending C w)"

definition trigger_args :: "cycle_params \<Rightarrow> hex \<Rightarrow> sending \<Rightarrow> trigger_params" where
  "trigger_args P volumeId s =
     \<lparr>tp_registry = cp_registry P, tp_volumeId = volumeId, tp_gas = None,
      tp_gasPercent = cp_gasPercent P, tp_gasFloor = cp_gasFloor P,
      tp_nonce = Some (snd_nonce s), tp_maxFeePerGas = Some (snd_maxFeePerGas s),
      tp_maxPriorityFeePerGas = Some (snd_maxPriorityFeePerGas s)\<rparr>"

definition failed_result :: "hex \<Rightarrow> hex option \<Rightarrow> exn \<Rightarrow> volume_result" where
  "failed_result volumeId hash e =
     \<lparr>vr_volumeId = volumeId, vr_status = StFailed, vr_outcome = None, vr_amount = None,
      vr_reason = None, vr_hash = truthy hash, vr_blockNumber = None, vr_gasUsed = None,
      vr_error = Some (exn_message e)\<rparr>"

definition simulated_result :: "hex \<Rightarrow> volume_result" where
  "simulated_result volumeId =
     \<lparr>vr_volumeId = volumeId, vr_status = StSimulated, vr_outcome = None, vr_amount = None,
      vr_reason = None, vr_hash = None, vr_blockNumber = None, vr_gasUsed = None,
      vr_error = None\<rparr>"

definition reverted_result :: "hex \<Rightarrow> hex \<Rightarrow> tx_receipt \<Rightarrow> volume_result" where
  "reverted_result volumeId hash receipt =
     \<lparr>vr_volumeId = volumeId, vr_status = StReverted, vr_outcome = None, vr_amount = None,
      vr_reason = None, vr_hash = Some hash,
      vr_blockNumber = Some (receipt_blockNumber receipt),
      vr_gasUsed = Some (receipt_gasUsed receipt), vr_error = None\<rparr>"

definition success_result :: "hex \<Rightarrow> hex \<Rightarrow> tx_receipt \<Rightarrow> volume_summary \<Rightarrow> volume_result" where
  "success_result volumeId hash receipt summary =
     \<lparr>vr_volumeId = volumeId, vr_status = StSuccess, vr_outcome = Some (summary_outcome summary),
      vr_amount = summary_amount summary, vr_reason = summary_reason summary,
      vr_hash = Some hash, vr_blockNumber = Some (receipt_blockNumber receipt),
      vr_gasUsed = Some (receipt_gasUsed receipt), vr_error = None\<rparr>"

text \<open>The \<open>switch\<close> on the outcome: the result's own lists.\<close>

fun record_summary :: "hex \<Rightarrow> hex \<Rightarrow> volume_summary \<Rightarrow> cycle_result \<Rightarrow> cycle_result" where
  "record_summary volumeId hash (SummaryToppedUp amount) r =
     r\<lparr>cr_toppedUp := cr_toppedUp r @ [(volumeId, amount)]\<rparr>"
| "record_summary volumeId hash (SummaryRetired reason) r =
     r\<lparr>cr_retired := cr_retired r @ [\<lparr>vo_volumeId = volumeId, vo_reason = reason\<rparr>],
       cr_warnings := cr_warnings r @
         [\<lparr>issue_message = js ''retired: '' @ reason, issue_volumeId = Some volumeId,
           issue_hash = Some hash\<rparr>]\<rparr>"
| "record_summary volumeId hash (SummaryTopupSkipped reason) r =
     r\<lparr>cr_topupSkipped := cr_topupSkipped r @ [\<lparr>vo_volumeId = volumeId, vo_reason = reason\<rparr>],
       cr_warnings := cr_warnings r @
         [\<lparr>issue_message = js ''not funded: '' @ reason, issue_volumeId = Some volumeId,
           issue_hash = Some hash\<rparr>]\<rparr>"
| "record_summary volumeId hash SummaryNoop r = r\<lparr>cr_noop := cr_noop r @ [volumeId]\<rparr>"

type_synonym 'w turn = "volume_result \<times> sending option \<times> cycle_result \<times> 'w"

definition sendOne ::
  "'w client \<Rightarrow> viem \<Rightarrow> cycle_params \<Rightarrow> hex \<Rightarrow> sending option \<Rightarrow> cycle_result \<Rightarrow> 'w \<Rightarrow> 'w turn" where
  "sendOne C V P volumeId sending r w =
     (if nullish (cp_dryRun P) False then
        (case simulate_trigger C (cp_registry P) volumeId w of
           (Inl e, w1) \<Rightarrow> (failed_result volumeId None e, None, r, w1)
         | (Inr _, w1) \<Rightarrow> (simulated_result volumeId, sending, r, w1))
      else
        (case ensure_sending C sending w of
           (Inl e, w1) \<Rightarrow> (failed_result volumeId None e, None, r, w1)
         | (Inr s, w1) \<Rightarrow>
        (case trigger C (trigger_args P volumeId s) w1 of
           (Inl e, w2) \<Rightarrow> (failed_result volumeId None e, None, r, w2)
         | (Inr hash, w2) \<Rightarrow>
        (case wait_for_receipt C hash (nullish (cp_confirmations P) 1)
                (nullish (cp_receiptTimeout P) 60000) w2 of
           (Inl e, w3) \<Rightarrow> (failed_result volumeId (Some hash) e, None, r, w3)
         | (Inr receipt, w3) \<Rightarrow>
             (let next = Some (s\<lparr>snd_nonce := snd_nonce s + 1\<rparr>) in
              if receipt_status receipt \<noteq> js ''success'' then
                (reverted_result volumeId hash receipt, next, r, w3)
              else
                (let summary = summarizeVolume
                       (decodeCycleEvents (parseEventLogs V) (receipt_logs receipt) (cp_registry P))
                       volumeId
                 in (success_result volumeId hash receipt summary, next,
                     record_summary volumeId hash summary r, w3)))))))"

section \<open>The loop and the cycle\<close>

definition tx_failed :: "volume_result \<Rightarrow> bool" where
  "tx_failed v \<longleftrightarrow> vr_status v = StFailed \<or> vr_status v = StReverted"

text \<open>What follows a turn in the loop body.\<close>

definition push_volume :: "hex \<Rightarrow> volume_result \<Rightarrow> cycle_result \<Rightarrow> cycle_result" where
  "push_volume volumeId v r =
     (let r1 = r\<lparr>cr_volumes := cr_volumes r @ [v]\<rparr> in
      if tx_failed v then r1\<lparr>cr_ok := False, cr_failed := cr_failed r1 @ [volumeId]\<rparr> else r1)"

definition deadline_warning :: "nat \<Rightarrow> nat \<Rightarrow> keeper_issue" where
  "deadline_warning i left =
     \<lparr>issue_message = js ''cycle deadline reached after '' @ dec i @ js '' volume(s); '' @
        dec left @ js '' deferred to the next cycle'',
      issue_volumeId = None, issue_hash = None\<rparr>"

text \<open>
  The loop over \<open>attempting.entries()\<close>. \<open>send\<close> is one volume's turn and \<open>clock\<close> is \<open>Date.now()\<close>, which
  the loop does not read before the first volume. \<open>i\<close> counts the volumes behind it.
\<close>

fun cycle_loop ::
  "(hex \<Rightarrow> sending option \<Rightarrow> cycle_result \<Rightarrow> 'w \<Rightarrow> 'w turn) \<Rightarrow> ('w \<Rightarrow> millis \<times> 'w) \<Rightarrow> millis \<Rightarrow>
     nat \<Rightarrow> hex list \<Rightarrow> sending option \<Rightarrow> cycle_result \<Rightarrow> 'w \<Rightarrow> cycle_result \<times> 'w" where
  "cycle_loop send clock deadline i [] sending r w = (r, w)"
| "cycle_loop send clock deadline i (volumeId # rest) sending r w =
     (let (late, w1) = (if 0 < i then (let (t, w') = clock w in (deadline < t, w')) else (False, w))
      in if late then
           (r\<lparr>cr_warnings := cr_warnings r @ [deadline_warning i (length (volumeId # rest))]\<rparr>, w1)
         else
           (let (v, sending', r', w2) = send volumeId sending r w1
            in cycle_loop send clock deadline (Suc i) rest sending' (push_volume volumeId v r') w2))"

definition initial_result :: "cycle_params \<Rightarrow> cycle_result" where
  "initial_result P =
     \<lparr>cr_ok = True, cr_mode = mode_type (nullish (cp_mode P) AllVolumes), cr_blockNumber = None,
      cr_volumeCount = 0, cr_skipped = None, cr_volumes = [], cr_toppedUp = [], cr_retired = [],
      cr_topupSkipped = [], cr_noop = [], cr_failed = [], cr_notActive = [], cr_warnings = [],
      cr_error = None, cr_durationMs = 0\<rparr>"

definition deferred_warning :: "nat \<Rightarrow> nat \<Rightarrow> keeper_issue" where
  "deferred_warning maxVolumes left =
     \<lparr>issue_message = js ''maxVolumesPerCycle ('' @ dec maxVolumes @ js '') reached: '' @ dec left @
        js '' volume(s) deferred to the next cycle'',
      issue_volumeId = None, issue_hash = None\<rparr>"

definition attempt_list :: "viem \<Rightarrow> cycle_params \<Rightarrow> nat \<Rightarrow> hex list \<Rightarrow> hex list" where
  "attempt_list V P blockNumber volumeIds =
     take (nullish (cp_maxVolumesPerCycle P) 50) (rotateVolumes V volumeIds blockNumber)"

text \<open>The part of the \<open>try\<close> block behind the enumeration.\<close>

definition attempt_all ::
  "'w client \<Rightarrow> viem \<Rightarrow> cycle_params \<Rightarrow> millis \<Rightarrow> nat \<Rightarrow> hex list \<Rightarrow> cycle_result \<Rightarrow> 'w \<Rightarrow>
     cycle_result \<times> 'w" where
  "attempt_all C V P startedAt blockNumber volumeIds r w =
     (let r1 = r\<lparr>cr_volumeCount := length volumeIds\<rparr> in
      if volumeIds = [] then (r1\<lparr>cr_skipped := Some (js ''no active volumes'')\<rparr>, w)
      else
        (let maxVolumes = nullish (cp_maxVolumesPerCycle P) 50;
             attempting = attempt_list V P blockNumber volumeIds;
             r2 = (if length attempting < length volumeIds
                   then r1\<lparr>cr_warnings := cr_warnings r1 @
                          [deferred_warning maxVolumes (length volumeIds - length attempting)]\<rparr>
                   else r1);
             deadline = startedAt + int (nullish (cp_cycleTimeout P) 120000)
         in cycle_loop (sendOne C V P) (date_now C) deadline 0 attempting None r2 w))"

definition cycle_body ::
  "'w client \<Rightarrow> viem \<Rightarrow> cycle_params \<Rightarrow> millis \<Rightarrow> cycle_result \<Rightarrow> 'w \<Rightarrow>
     exn option \<times> cycle_result \<times> 'w" where
  "cycle_body C V P startedAt r w =
     (case get_block_number C w of
        (Inl e, w1) \<Rightarrow> (Some e, r, w1)
      | (Inr blockNumber, w1) \<Rightarrow>
          (case collectIds C P blockNumber (r\<lparr>cr_blockNumber := Some blockNumber\<rparr>) w1 of
             (Inl e, r1, w2) \<Rightarrow> (Some e, r1, w2)
           | (Inr volumeIds, r1, w2) \<Rightarrow>
               (None, attempt_all C V P startedAt blockNumber volumeIds r1 w2)))"

definition runKeeperCycle ::
  "'w client \<Rightarrow> viem \<Rightarrow> cycle_params \<Rightarrow> 'w \<Rightarrow> cycle_result \<times> 'w" where
  "runKeeperCycle C V P w =
     (let (startedAt, w0) = date_now C w;
          (thrown, r, w1) = cycle_body C V P startedAt (initial_result P) w0;
          r1 = (case thrown of
                  None \<Rightarrow> r
                | Some e \<Rightarrow> r\<lparr>cr_ok := False, cr_error := Some (exn_message e)\<rparr>);
          (finishedAt, w2) = date_now C w1
      in (r1\<lparr>cr_durationMs := finishedAt - startedAt\<rparr>, w2))"

section \<open>One iteration of the loop\<close>

text \<open>An iteration either stops at the deadline, never at the first volume, or takes a turn.\<close>

lemma cycle_loop_cases [consumes 1, case_names late turn]:
  assumes "cycle_loop send clock deadline i (v # ids) s r w = (r', w')"
  obtains
    (late) "0 < i" "deadline < fst (clock w)" "w' = snd (clock w)"
      "r' = r\<lparr>cr_warnings := cr_warnings r @ [deadline_warning i (Suc (length ids))]\<rparr>"
  | (turn) w1 vr s1 r1 w2 where
      "w1 = (if 0 < i then snd (clock w) else w)"
      "0 < i \<Longrightarrow> fst (clock w) \<le> deadline"
      "send v s r w1 = (vr, s1, r1, w2)"
      "cycle_loop send clock deadline (Suc i) ids s1 (push_volume v vr r1) w2 = (r', w')"
proof (cases "0 < i \<and> deadline < fst (clock w)")
  case True
  then show ?thesis using assms late by (auto split: prod.splits)
next
  case False
  define w1 where "w1 = (if 0 < i then snd (clock w) else w)"
  obtain vr s1 r1 w2 where t: "send v s r w1 = (vr, s1, r1, w2)" by (metis prod_cases4)
  have "(if 0 < i then (let (t, w') = clock w in (deadline < t, w')) else (False, w)) = (False, w1)"
    using False by (auto simp: w1_def split: prod.splits)
  then have "cycle_loop send clock deadline (Suc i) ids s1 (push_volume v vr r1) w2 = (r', w')"
    using assms t by simp
  then show ?thesis using turn [OF w1_def _ t] False by auto
qed

end
