(* ===== verification/CycleAccounting.thy ===== *)
theory CycleAccounting
  imports KeeperCycle
begin

text \<open>
  What a cycle's result says agrees with itself: the lists of the result are the projections of the
  per-volume results, and \<open>ok\<close> is the absence of failures. The loop relies on one turn through the
  interface \<open>turn_contract\<close>; \<open>sendOne\<close> provides it.
\<close>

section \<open>Invariants\<close>

text \<open>Which fields of a volume's result are present (the comments of \<open>VolumeResult\<close>).\<close>

definition wf_volume_result :: "volume_result \<Rightarrow> bool" where
  "wf_volume_result v \<longleftrightarrow>
     (vr_outcome v \<noteq> None) = (vr_status v = StSuccess) \<and>
     (vr_amount v \<noteq> None) = (vr_outcome v = Some OutToppedUp) \<and>
     (vr_reason v \<noteq> None) = (vr_outcome v \<in> {Some OutRetired, Some OutTopupSkipped}) \<and>
     (vr_error v \<noteq> None) = (vr_status v = StFailed) \<and>
     (vr_blockNumber v \<noteq> None) = (vr_status v \<in> {StSuccess, StReverted}) \<and>
     (vr_gasUsed v \<noteq> None) = (vr_status v \<in> {StSuccess, StReverted}) \<and>
     (vr_hash v \<noteq> None) \<ge> (vr_status v \<in> {StSuccess, StReverted}) \<and>
     (vr_hash v \<noteq> None) \<le> (vr_status v \<noteq> StSimulated)"

text \<open>What each list of the result holds of one volume's result.\<close>

definition topped_entry :: "volume_result \<Rightarrow> (hex \<times> nat) option" where
  "topped_entry v =
     (if vr_outcome v = Some OutToppedUp then map_option (\<lambda>a. (vr_volumeId v, a)) (vr_amount v)
      else None)"

definition reason_entry :: "outcome_kind \<Rightarrow> volume_result \<Rightarrow> volume_outcome option" where
  "reason_entry k v =
     (if vr_outcome v = Some k
      then map_option (\<lambda>x. \<lparr>vo_volumeId = vr_volumeId v, vo_reason = x\<rparr>) (vr_reason v)
      else None)"

definition noop_entry :: "volume_result \<Rightarrow> hex option" where
  "noop_entry v = (if vr_outcome v = Some OutNoop then Some (vr_volumeId v) else None)"

definition failed_entry :: "volume_result \<Rightarrow> hex option" where
  "failed_entry v = (if tx_failed v then Some (vr_volumeId v) else None)"

text \<open>The warning a turn leaves: a retirement or an unfunded volume, with its transaction.\<close>

definition turn_warning :: "volume_result \<Rightarrow> keeper_issue option" where
  "turn_warning v =
     (case (vr_outcome v, vr_reason v) of
        (Some OutRetired, Some x) \<Rightarrow>
          Some \<lparr>issue_message = js ''retired: '' @ x, issue_volumeId = Some (vr_volumeId v),
                issue_hash = vr_hash v\<rparr>
      | (Some OutTopupSkipped, Some x) \<Rightarrow>
          Some \<lparr>issue_message = js ''not funded: '' @ x, issue_volumeId = Some (vr_volumeId v),
                issue_hash = vr_hash v\<rparr>
      | _ \<Rightarrow> None)"

text \<open>The whole effect of a turn on the result, read off the volume's own result.\<close>

definition note_turn :: "volume_result \<Rightarrow> cycle_result \<Rightarrow> cycle_result" where
  "note_turn v r =
     r\<lparr>cr_toppedUp := cr_toppedUp r @ opt_list (topped_entry v),
       cr_retired := cr_retired r @ opt_list (reason_entry OutRetired v),
       cr_topupSkipped := cr_topupSkipped r @ opt_list (reason_entry OutTopupSkipped v),
       cr_noop := cr_noop r @ opt_list (noop_entry v),
       cr_warnings := cr_warnings r @ opt_list (turn_warning v)\<rparr>"

text \<open>The lists of the result are projections of its volumes.\<close>

definition lists_agree :: "cycle_result \<Rightarrow> bool" where
  "lists_agree r \<longleftrightarrow>
     cr_toppedUp r = List.map_filter topped_entry (cr_volumes r) \<and>
     cr_retired r = List.map_filter (reason_entry OutRetired) (cr_volumes r) \<and>
     cr_topupSkipped r = List.map_filter (reason_entry OutTopupSkipped) (cr_volumes r) \<and>
     cr_noop r = List.map_filter noop_entry (cr_volumes r) \<and>
     cr_failed r = List.map_filter failed_entry (cr_volumes r)"

definition ok_agrees :: "cycle_result \<Rightarrow> bool" where
  "ok_agrees r \<longleftrightarrow> cr_ok r = (cr_failed r = [] \<and> cr_error r = None)"

definition accounting :: "cycle_result \<Rightarrow> bool" where
  "accounting r \<longleftrightarrow> lists_agree r \<and> ok_agrees r \<and> list_all wf_volume_result (cr_volumes r)"

section \<open>One turn\<close>

locale turn_contract =
  fixes send :: "hex \<Rightarrow> sending option \<Rightarrow> cycle_result \<Rightarrow> 'w \<Rightarrow> 'w turn"
  assumes send_volume: "send v s r w = (vr, s', r', w') \<Longrightarrow> vr_volumeId vr = v"
    and send_wf: "send v s r w = (vr, s', r', w') \<Longrightarrow> wf_volume_result vr"
    and send_notes: "send v s r w = (vr, s', r', w') \<Longrightarrow> r' = note_turn vr r"
begin

lemma turn_accounting:
  assumes "send v s r w = (vr, s', r', w')" "accounting r" "cr_error r = None"
  shows "accounting (push_volume v vr r')"
  using assms send_wf [OF assms(1)] send_notes [OF assms(1)] send_volume [OF assms(1)]
  by (auto simp: accounting_def lists_agree_def ok_agrees_def push_volume_def note_turn_def Let_def
      map_filter_snoc failed_entry_def)

lemma turn_frame:
  assumes "send v s r w = (vr, s', r', w')"
  shows "cr_error (push_volume v vr r') = cr_error r"
    and "cr_volumes (push_volume v vr r') = cr_volumes r @ [vr]"
    and "cr_volumeCount (push_volume v vr r') = cr_volumeCount r"
    and "cr_blockNumber (push_volume v vr r') = cr_blockNumber r"
    and "cr_skipped (push_volume v vr r') = cr_skipped r"
    and "cr_notActive (push_volume v vr r') = cr_notActive r"
    and "cr_mode (push_volume v vr r') = cr_mode r"
    and "cr_warnings (push_volume v vr r') = cr_warnings r @ opt_list (turn_warning vr)"
  using send_notes [OF assms] by (simp_all add: push_volume_def note_turn_def Let_def)

lemma loop_accounting:
  assumes "cycle_loop send clock deadline i ids s r w = (r', w')"
    and "accounting r" and "cr_error r = None"
  shows "accounting r' \<and> cr_error r' = None"
  using assms
proof (induction ids arbitrary: i s r w)
  case Nil
  then show ?case by simp
next
  case (Cons v ids)
  from Cons.prems(1) show ?case
  proof (cases rule: cycle_loop_cases)
    case late
    then show ?thesis using Cons.prems
      by (simp add: accounting_def lists_agree_def ok_agrees_def)
  next
    case (turn w1 vr s1 r1 w2)
    then show ?thesis using Cons.IH Cons.prems turn_accounting turn_frame(1) by metis
  qed
qed

lemma loop_frame:
  assumes "cycle_loop send clock deadline i ids s r w = (r', w')"
  shows "cr_volumeCount r' = cr_volumeCount r \<and> cr_blockNumber r' = cr_blockNumber r \<and>
    cr_skipped r' = cr_skipped r \<and> cr_notActive r' = cr_notActive r \<and> cr_mode r' = cr_mode r \<and>
    (\<exists>ws. cr_warnings r' = cr_warnings r @ ws)"
  using assms
proof (induction ids arbitrary: i s r w)
  case Nil
  then show ?case by simp
next
  case (Cons v ids)
  from Cons.prems show ?case
  proof (cases rule: cycle_loop_cases)
    case late
    then show ?thesis by simp
  next
    case (turn w1 vr s1 r1 w2)
    from Cons.IH [OF turn(4)] show ?thesis by (auto simp: turn_frame [OF turn(3)])
  qed
qed

end

section \<open>sendOne provides the contract\<close>

lemma note_turn_plain: "vr_outcome v = None \<Longrightarrow> note_turn v r = r"
  by (simp add: note_turn_def topped_entry_def reason_entry_def noop_entry_def turn_warning_def)

lemma record_summary_note:
  "record_summary v hash s r = note_turn (success_result v hash receipt s) r"
  by (cases s) (simp_all add: note_turn_def topped_entry_def reason_entry_def noop_entry_def
      turn_warning_def success_result_def)

lemmas turn_results = failed_result_def simulated_result_def reverted_result_def success_result_def

lemma wf_turn_results [simp]:
  "wf_volume_result (failed_result v h e)" "wf_volume_result (simulated_result v)"
  "wf_volume_result (reverted_result v hash receipt)"
  "wf_volume_result (success_result v hash receipt s)"
  by (simp_all add: wf_volume_result_def turn_results) (cases s; simp)

text \<open>The four ways a turn ends.\<close>

lemma sendOne_cases:
  assumes "sendOne C V P v s r w = (vr, s', r', w')"
  obtains (failed) h e where "vr = failed_result v h e" "r' = r" "s' = None"
    | (simulated) "vr = simulated_result v" "r' = r" "s' = s" "nullish (cp_dryRun P) False"
    | (reverted) hash receipt where "vr = reverted_result v hash receipt" "r' = r"
        "\<not> nullish (cp_dryRun P) False"
    | (success) hash receipt summary where "vr = success_result v hash receipt summary"
        "r' = record_summary v hash summary r" "\<not> nullish (cp_dryRun P) False"
  using assms unfolding sendOne_def Let_def
  by (fastforce split: if_splits prod.splits sum.splits)

interpretation keeper_turn: turn_contract "sendOne C V P"
proof unfold_locales
  fix v s r w vr s' r' w'
  assume t: "sendOne C V P v s r w = (vr, s', r', w')"
  then show "vr_volumeId vr = v" by (cases rule: sendOne_cases) (simp_all add: turn_results)
  from t show "wf_volume_result vr" by (cases rule: sendOne_cases) simp_all
  from t show "r' = note_turn vr r"
    by (cases rule: sendOne_cases)
      (simp_all add: note_turn_plain turn_results record_summary_note [unfolded turn_results])
qed

end
