(* ===== verification/CycleSchedule.thy ===== *)
theory CycleSchedule
  imports CycleAccounting "HOL-Library.Multiset"
begin

text \<open>
  Which volumes a cycle attempts, and in what order: \<open>rotateVolumes\<close>, the cut at
  \<open>maxVolumesPerCycle\<close>, the deadline, and the enumeration behind them
  (\<open>services/keeper/src/keeper/actions/runKeeperCycle.ts\<close>). The properties of a whole cycle's result
  are here: its accounting and the fairness of the rotation.
\<close>

section \<open>Rotation\<close>

lemma rotateVolumes_rotate:
  "rotateVolumes V ids b = rotate (hexToBigInt V (keccak256 V (numberToHex32 V b))) ids"
proof (cases "length ids < 2")
  case True
  then have "ids = [] \<or> (\<exists>x. ids = [x])" by (cases ids) (auto simp: length_Suc_conv less_Suc_eq)
  then show ?thesis using True by (auto simp: rotateVolumes_def)
next
  case False
  then show ?thesis by (simp add: rotateVolumes_def Let_def rotate_drop_take)
qed

lemma set_rotateVolumes [simp]: "set (rotateVolumes V ids b) = set ids"
  by (simp add: rotateVolumes_rotate)

lemma length_rotateVolumes [simp]: "length (rotateVolumes V ids b) = length ids"
  by (simp add: rotateVolumes_rotate)

lemma distinct_rotateVolumes [simp]: "distinct (rotateVolumes V ids b) = distinct ids"
  by (simp add: rotateVolumes_rotate)

text \<open>The starts that bring the entry at \<open>j\<close> among the first \<open>m\<close> of a rotation.\<close>

lemma nth_rotate_position:
  assumes "distinct ids" "j < length ids" "s < length ids" "m \<le> length ids"
  shows "ids ! j \<in> set (take m (rotate s ids)) \<longleftrightarrow> (j + length ids - s) mod length ids < m"
    (is "?lhs \<longleftrightarrow> ?p < m")
proof -
  let ?n = "length ids"
  have n: "0 < ?n" using assms(2) by linarith
  have p: "?p < ?n" using n by simp
  have "(s + ?p) mod ?n = (s + (j + ?n - s)) mod ?n" by (simp add: mod_add_right_eq)
  also have "s + (j + ?n - s) = j + ?n" using assms(3) by linarith
  also have "(j + ?n) mod ?n = j" using assms(2) by simp
  finally have at: "rotate s ids ! ?p = ids ! j" using p by (simp add: nth_rotate)
  show ?thesis
  proof
    assume ?lhs
    then obtain i where i: "i < m" "rotate s ids ! i = ids ! j"
      by (auto simp: in_set_conv_nth)
    then have "rotate s ids ! i = rotate s ids ! ?p" "i < ?n" using at assms(4) by auto
    then have "i = ?p" using p assms(1) by (simp add: nth_eq_iff_index_eq)
    then show "?p < m" using i(1) by simp
  next
    assume "?p < m"
    then have "take m (rotate s ids) ! ?p = ids ! j" "?p < length (take m (rotate s ids))"
      using at p by auto
    then show ?lhs by (metis nth_mem)
  qed
qed

lemma card_starts:
  fixes n :: nat
  assumes "j < n" "m \<le> n"
  shows "card {s. s < n \<and> (j + n - s) mod n < m} = m"
proof -
  let ?f = "\<lambda>s. (j + n - s) mod n"
  have inv: "?f (?f s) = s" if "s < n" for s
  proof (cases "s \<le> j")
    case True
    then have "?f s = j - s" using assms that
      by (metis Nat.add_diff_assoc2 add.commute less_imp_diff_less mod_add_self1 mod_less)
    then show ?thesis using True assms that by simp
  next
    case False
    then have f: "?f s = j + n - s" using that by simp
    have "j + n - (j + n - s) = s" using False that by linarith
    then show ?thesis using f that by simp
  qed
  have "bij_betw ?f {s. s < n \<and> ?f s < m} {..<m}"
  proof (rule bij_betw_byWitness [where f' = ?f])
    show "\<forall>s\<in>{s. s < n \<and> ?f s < m}. ?f (?f s) = s" using inv by simp
    show "\<forall>s\<in>{..<m}. ?f (?f s) = s" using inv assms(2) by simp
    show "?f ` {s. s < n \<and> ?f s < m} \<subseteq> {..<m}" by auto
    show "?f ` {..<m} \<subseteq> {s. s < n \<and> ?f s < m}" using assms inv by auto
  qed
  then show ?thesis using bij_betw_same_card by fastforce
qed

section \<open>The enumeration\<close>

definition not_active_warning :: "hex \<Rightarrow> keeper_issue" where
  "not_active_warning volumeId =
     \<lparr>issue_message = js ''requested volume is not Active'', issue_volumeId = Some volumeId,
      issue_hash = None\<rparr>"

abbreviation is_active :: "hex \<times> volume_view \<Rightarrow> bool" where
  "is_active x \<equiv> view_status (snd x) = VOLUME_STATUS_active"

lemma select_active_eq:
  "select_active xs active r =
     (active @ map (\<lambda>x. view_volumeId (snd x)) (filter is_active xs),
      r\<lparr>cr_notActive := cr_notActive r @ map fst (filter (\<lambda>x. \<not> is_active x) xs),
        cr_warnings := cr_warnings r @
          map (\<lambda>x. not_active_warning (fst x)) (filter (\<lambda>x. \<not> is_active x) xs)\<rparr>)"
proof (induction xs arbitrary: active r)
  case Nil
  then show ?case by simp
next
  case (Cons x xs)
  then show ?case by (cases x) (simp add: not_active_warning_def)
qed

lemma collectIds_frame:
  assumes "collectIds C P b r w = (ids, r', w')"
  shows "accounting r' = accounting r \<and> cr_error r' = cr_error r \<and> cr_volumes r' = cr_volumes r \<and>
     cr_blockNumber r' = cr_blockNumber r \<and> cr_skipped r' = cr_skipped r \<and> cr_ok r' = cr_ok r"
  using assms
  by (auto simp: collectIds_def Let_def select_active_eq accounting_def lists_agree_def
      ok_agrees_def split: keeper_mode.splits prod.splits sum.splits)

text \<open>What a cycle enumerates from a given start: the block it pins and the volumes it finds.\<close>

definition enumeration :: "'w client \<Rightarrow> cycle_params \<Rightarrow> 'w \<Rightarrow> (nat \<times> hex list) option" where
  "enumeration C P w =
     (case get_block_number C (snd (date_now C w)) of
        (Inl e, w1) \<Rightarrow> None
      | (Inr b, w1) \<Rightarrow>
          (case fst (collectIds C P b ((initial_result P)\<lparr>cr_blockNumber := Some b\<rparr>) w1) of
             Inl e \<Rightarrow> None
           | Inr ids \<Rightarrow> Some (b, ids)))"

section \<open>A whole cycle\<close>

lemma accounting_initial [simp]: "accounting (initial_result P)"
  by (simp add: accounting_def lists_agree_def ok_agrees_def initial_result_def)

lemma attempt_all_loop:
  assumes "ids \<noteq> []"
  obtains r2 deadline where
    "attempt_all C V P t b ids r w =
       cycle_loop (sendOne C V P) (date_now C) deadline 0 (attempt_list V P b ids) None r2 w"
    "deadline = t + int (nullish (cp_cycleTimeout P) 120000)"
    "accounting r2 = accounting r" "cr_error r2 = cr_error r" "cr_volumes r2 = cr_volumes r"
    "cr_volumeCount r2 = length ids" "cr_skipped r2 = cr_skipped r"
    "cr_warnings r2 = cr_warnings r @
       (if length (attempt_list V P b ids) < length ids
        then [deferred_warning (nullish (cp_maxVolumesPerCycle P) 50)
                (length ids - length (attempt_list V P b ids))] else [])"
proof -
  let ?r1 = "r\<lparr>cr_volumeCount := length ids\<rparr>"
  let ?r2 = "if length (attempt_list V P b ids) < length ids
    then ?r1\<lparr>cr_warnings := cr_warnings ?r1 @
           [deferred_warning (nullish (cp_maxVolumesPerCycle P) 50)
              (length ids - length (attempt_list V P b ids))]\<rparr>
    else ?r1"
  have "accounting ?r2 = accounting r"
    by (simp add: accounting_def lists_agree_def ok_agrees_def)
  then show ?thesis using assms
    by (intro that [of _ ?r2]) (simp_all add: attempt_all_def Let_def)
qed

lemma attempt_all_accounting:
  assumes "accounting r" "cr_error r = None"
  shows "accounting (fst (attempt_all C V P t b ids r w)) \<and>
    cr_error (fst (attempt_all C V P t b ids r w)) = None"
proof (cases "ids = []")
  case True
  then show ?thesis using assms
    by (simp add: attempt_all_def accounting_def lists_agree_def ok_agrees_def)
next
  case False
  then show ?thesis
    by (rule attempt_all_loop [of ids C V P t b r w])
      (metis assms keeper_turn.loop_accounting prod.collapse)
qed

text \<open>A cycle is its enumeration and, when that succeeded, its attempts.\<close>

lemma run_failed:
  assumes "enumeration C P w = None"
  shows "cr_error (fst (runKeeperCycle C V P w)) \<noteq> None \<and>
    \<not> cr_ok (fst (runKeeperCycle C V P w)) \<and>
    cr_volumes (fst (runKeeperCycle C V P w)) = [] \<and> accounting (fst (runKeeperCycle C V P w))"
proof -
  let ?w0 = "snd (date_now C w)"
  let ?r0 = "\<lambda>b. (initial_result P)\<lparr>cr_blockNumber := Some b\<rparr>"
  have "\<exists>e r w1. cycle_body C V P (fst (date_now C w)) (initial_result P) ?w0 = (Some e, r, w1) \<and>
      accounting r \<and> cr_volumes r = [] \<and> cr_ok r"
  proof (cases "get_block_number C ?w0")
    case (Pair res w1)
    show ?thesis
    proof (cases res)
      case (Inl e)
      then show ?thesis using Pair by (simp add: cycle_body_def initial_result_def)
          (simp add: accounting_def lists_agree_def ok_agrees_def)
    next
      case (Inr b)
      obtain ids r1 w2 where c: "collectIds C P b (?r0 b) w1 = (ids, r1, w2)"
        by (metis prod_cases3)
      then obtain e where e: "ids = Inl e"
        using assms Pair Inr by (auto simp: enumeration_def split: sum.splits)
      have "accounting r1 \<and> cr_volumes r1 = [] \<and> cr_ok r1"
        using collectIds_frame [OF c]
        by (simp add: initial_result_def accounting_def lists_agree_def ok_agrees_def)
      then show ?thesis using Pair Inr c e by (simp add: cycle_body_def)
    qed
  qed
  then obtain e r w1 where b:
    "cycle_body C V P (fst (date_now C w)) (initial_result P) ?w0 = (Some e, r, w1)"
    "accounting r" "cr_volumes r = []" "cr_ok r" by blast
  have "fst (runKeeperCycle C V P w) =
      r\<lparr>cr_ok := False, cr_error := Some (exn_message e),
        cr_durationMs := fst (date_now C w1) - fst (date_now C w)\<rparr>"
    using b by (simp add: runKeeperCycle_def Let_def case_prod_beta)
  moreover have "accounting (r\<lparr>cr_ok := False, cr_error := Some x, cr_durationMs := d\<rparr>)" for x d
    using b by (simp add: accounting_def lists_agree_def ok_agrees_def)
  ultimately show ?thesis using b(3) by simp
qed

lemma run_enumerated:
  assumes "enumeration C P w = Some (b, ids)"
  obtains r1 w2 d where
    "fst (runKeeperCycle C V P w) =
       (fst (attempt_all C V P (fst (date_now C w)) b ids r1 w2))\<lparr>cr_durationMs := d\<rparr>"
    "accounting r1" "cr_error r1 = None" "cr_volumes r1 = []" "cr_skipped r1 = None"
proof -
  let ?w0 = "snd (date_now C w)"
  let ?r0 = "(initial_result P)\<lparr>cr_blockNumber := Some b\<rparr>"
  obtain w1 where g: "get_block_number C ?w0 = (Inr b, w1)"
    and "fst (collectIds C P b ?r0 w1) = Inr ids"
    using assms by (auto simp: enumeration_def split: prod.splits sum.splits)
  then obtain r1 w2 where c: "collectIds C P b ?r0 w1 = (Inr ids, r1, w2)"
    by (metis prod.collapse)
  have r1: "accounting r1 \<and> cr_error r1 = None \<and> cr_volumes r1 = [] \<and> cr_skipped r1 = None"
    using collectIds_frame [OF c]
    by (simp add: initial_result_def accounting_def lists_agree_def ok_agrees_def)
  obtain r w3 where a: "attempt_all C V P (fst (date_now C w)) b ids r1 w2 = (r, w3)"
    by (metis surj_pair)
  have "fst (runKeeperCycle C V P w) =
      r\<lparr>cr_durationMs := fst (date_now C w3) - fst (date_now C w)\<rparr>"
    using g c a by (simp add: runKeeperCycle_def cycle_body_def Let_def case_prod_beta)
  then show ?thesis using r1 a by (intro that [of _ r1 w2]) simp_all
qed

lemma run_accounting: "accounting (fst (runKeeperCycle C V P w))"
proof (cases "enumeration C P w")
  case None
  then show ?thesis using run_failed [OF None] by simp
next
  case (Some x)
  then obtain b ids where "enumeration C P w = Some (b, ids)" by (cases x) auto
  then obtain r1 w2 d where r:
    "fst (runKeeperCycle C V P w) =
       (fst (attempt_all C V P (fst (date_now C w)) b ids r1 w2))\<lparr>cr_durationMs := d\<rparr>"
    "accounting r1" "cr_error r1 = None" by (rule run_enumerated)
  have "accounting (fst (attempt_all C V P (fst (date_now C w)) b ids r1 w2))"
    by (rule attempt_all_accounting [OF r(2,3), THEN conjunct1])
  then show ?thesis by (simp add: r(1) accounting_def lists_agree_def ok_agrees_def)
qed

section \<open>Properties of a cycle\<close>

text \<open>
  C8: whatever the endpoints answer, a cycle's result accounts for itself: the topped-up, retired,
  skipped, no-op and failed lists are exactly the projections of the per-volume results, every
  per-volume result has exactly the optional fields its status and outcome call for, and \<open>ok\<close>
  holds exactly when no volume failed and the cycle itself did not.
\<close>

theorem cycle_accounting: "accounting (fst (runKeeperCycle C V P w))"
  by (rule run_accounting)

text \<open>
  C38: the rotation is fair. Over the possible values of the block's hash modulo the number of
  volumes, each volume is among those attempted for exactly as many values as a cycle attempts
  volumes: no volume is deferred for ever by its place in the index, and none is favoured.
\<close>

theorem rotation_fair:
  assumes "distinct ids" and "v \<in> set ids"
  shows "card {h. h < length ids \<and>
           v \<in> set (attempt_list (V\<lparr>hexToBigInt := (\<lambda>_. h)\<rparr>) P b ids)} =
         min (nullish (cp_maxVolumesPerCycle P) 50) (length ids)"
proof -
  let ?n = "length ids" and ?max = "nullish (cp_maxVolumesPerCycle P) 50"
  obtain j where j: "j < ?n" "ids ! j = v" using assms(2) by (auto simp: in_set_conv_nth)
  have "v \<in> set (attempt_list (V\<lparr>hexToBigInt := (\<lambda>_. h)\<rparr>) P b ids) \<longleftrightarrow>
      (j + ?n - h) mod ?n < min ?max ?n" if "h < ?n" for h
  proof -
    have "attempt_list (V\<lparr>hexToBigInt := (\<lambda>_. h)\<rparr>) P b ids = take (min ?max ?n) (rotate h ids)"
      by (cases "?max \<le> ?n") (simp_all add: attempt_list_def rotateVolumes_rotate min_def)
    then show ?thesis using nth_rotate_position [OF assms(1) j(1) that, of "min ?max ?n"] j(2) by simp
  qed
  then have "{h. h < ?n \<and> v \<in> set (attempt_list (V\<lparr>hexToBigInt := (\<lambda>_. h)\<rparr>) P b ids)} =
      {h. h < ?n \<and> (j + ?n - h) mod ?n < min ?max ?n}" by auto
  then show ?thesis using card_starts [OF j(1), of "min ?max ?n"] by simp
qed

definition sample_params :: cycle_params where
  "sample_params =
     \<lparr>cp_registry = js ''0xr'', cp_mode = None, cp_pageSize = None, cp_maxVolumesPerCycle = Some 2,
      cp_gasPercent = None, cp_gasFloor = None, cp_confirmations = None, cp_receiptTimeout = None,
      cp_cycleTimeout = None, cp_dryRun = None\<rparr>"

definition sample_viem :: viem where
  "sample_viem =
     \<lparr>keccak256 = (\<lambda>h. h), numberToHex32 = dec, hexToBigInt = dec_value, parseEventLogs = (\<lambda>_. [])\<rparr>"

theorem rotation_fair_witness:
  "card {h. h < 3 \<and> js ''b'' \<in> set (attempt_list (sample_viem\<lparr>hexToBigInt := (\<lambda>_. h)\<rparr>)
       sample_params 7 [js ''a'', js ''b'', js ''c''])} = 2"
  using rotation_fair [of "[js ''a'', js ''b'', js ''c'']" "js ''b''" sample_viem sample_params 7]
  by (simp add: js_def sample_params_def numeral_3_eq_3)

text \<open>
  The rotation is the library's \<open>rotate\<close> by the block's hash, so it loses and repeats nothing:
  it is a rearrangement of the ids, whatever the block.
\<close>

lemma rotation_rearranges:
  "rotateVolumes V ids b = rotate (hexToBigInt V (keccak256 V (numberToHex32 V b))) ids \<and>
   mset (rotateVolumes V ids b) = mset ids"
proof
  show "rotateVolumes V ids b = rotate (hexToBigInt V (keccak256 V (numberToHex32 V b))) ids"
    by (rule rotateVolumes_rotate)
  have "mset (drop n ids @ take n ids) = mset ids" for n
    by (metis append_take_drop_id mset_append union_commute)
  then show "mset (rotateVolumes V ids b) = mset ids"
    by (simp add: rotateVolumes_def Let_def)
qed

end
