(* ===== verification/KeeperReporting.thy ===== *)
theory KeeperReporting
  imports KeeperConfig CycleSchedule
begin

text \<open>
  \<open>services/keeper/src/reporting.ts\<close>: the one report of a scheduled run. The report is built by
  \<open>abortedReport\<close> or \<open>cycleReport\<close>, and scrubbed by \<open>scrubReport\<close>, which maps a function over every
  text in it; so the status words and outcome names of a report are texts here too.

  \<open>Date.now()\<close> at the end of a builder is its argument \<open>finishedAt\<close>. \<open>summarize\<close> reads
  \<open>failures[0]\<close> in the failure case; \<open>aborted_failures\<close> and \<open>cycle_status\<close> show that the list has a
  first element there.
\<close>

section \<open>The report\<close>

datatype run_status = RunOk | RunWarning | RunFailure

fun run_status_text :: "run_status \<Rightarrow> jstring" where
  "run_status_text RunOk = js ''ok''"
| "run_status_text RunWarning = js ''warning''"
| "run_status_text RunFailure = js ''failure''"

record reported_volume =
  rv_volumeId :: hex
  rv_status :: jstring
  rv_outcome :: "jstring option"
  rv_amount :: "jstring option"
  rv_reason :: "jstring option"
  rv_hash :: "hex option"
  rv_blockNumber :: "jstring option"
  rv_gasUsed :: "jstring option"
  rv_error :: "jstring option"

record endpoint_report =
  er_endpoint :: jstring
  er_ok :: bool
  er_latencyMs :: millis
  er_error :: "jstring option"

record keeper_report =
  k_kind :: jstring
  k_status :: jstring
  k_summary :: jstring
  k_deployment :: jstring
  k_chainId :: "nat option"
  k_chainName :: "jstring option"
  k_registry :: "jstring option"
  k_keeper :: "address option"
  k_cron :: "jstring option"
  k_scheduledTime :: "millis option"
  k_dryRun :: "bool option"
  k_blockNumber :: "jstring option"
  k_balanceWei :: "jstring option"
  k_volumeCount :: "nat option"
  k_outcomes :: "(jstring \<times> nat) list option"
  k_endpoints :: "endpoint_report list option"
  k_failures :: "keeper_issue list"
  k_warnings :: "keeper_issue list"
  k_volumes :: "reported_volume list option"
  k_durationMs :: millis

record run_input =
  ri_identity :: deployment_identity
  ri_cron :: "jstring option"
  ri_scheduledTime :: "millis option"
  ri_startedAt :: millis

record cycle_report_input = run_input +
  ci_chain :: chain
  ci_keeper :: address
  ci_dryRun :: bool
  ci_endpoints :: "endpoint_health list"
  ci_result :: cycle_result
  ci_balanceWei :: "nat option"
  ci_minBalanceWei :: nat

section \<open>Texts\<close>

definition plain_issue :: "jstring \<Rightarrow> keeper_issue" where
  "plain_issue m = \<lparr>issue_message = m, issue_volumeId = None, issue_hash = None\<rparr>"

definition statusOf :: "'a list \<Rightarrow> 'b list \<Rightarrow> run_status" where
  "statusOf failures warnings =
     (if 0 < length failures then RunFailure else if 0 < length warnings then RunWarning else RunOk)"

definition plural :: "nat \<Rightarrow> jstring \<Rightarrow> jstring" where
  "plural n noun = dec n @ js '' '' @ noun @ (if n = 1 then [] else js ''s'')"

definition newline :: code_unit where
  "newline = 0xA"

definition em_dash :: code_unit where
  "em_dash = 0x2014"

definition summarize ::
  "jstring \<Rightarrow> run_status \<Rightarrow> keeper_issue list \<Rightarrow> keeper_issue list \<Rightarrow> jstring \<Rightarrow> jstring" where
  "summarize deployment status failures warnings detail =
     (case status of
        RunFailure \<Rightarrow>
          (let volumes = length (filter (\<lambda>f. truthy (issue_volumeId f) \<noteq> None) failures) in
           if 0 < volumes then deployment @ js '': '' @ plural volumes (js ''volume'') @ js '' failed''
           else deployment @ js '': run failed '' @ [em_dash] @ js '' '' @
             (case failures of [] \<Rightarrow> [] | f # _ \<Rightarrow> issue_message f))
      | RunWarning \<Rightarrow>
          deployment @ js '': '' @ detail @ js '', '' @ plural (length warnings) (js ''warning'')
      | RunOk \<Rightarrow> deployment @ js '': '' @ detail)"

text \<open>\<open>head.replace(/\.$/, "")\<close>.\<close>

definition drop_final_dot :: "jstring \<Rightarrow> jstring" where
  "drop_final_dot s = (if s \<noteq> [] \<and> last s = 0x2E then butlast s else s)"

definition brief_lines :: "jstring \<Rightarrow> jstring list" where
  "brief_lines m = filter (\<lambda>s. s \<noteq> []) (map js_trim (js_split [newline] m))"

definition brief :: "jstring \<Rightarrow> nat \<Rightarrow> jstring" where
  "brief m maxLength =
     (let ls = brief_lines m;
          head = (case ls of [] \<Rightarrow> m | l # _ \<Rightarrow> l);
          details = map_option (\<lambda>l. js_trim (slice_from l 8))
                      (List.find (js_starts_with (js ''Details:'')) ls);
          txt = (case truthy details of
                   Some d \<Rightarrow> if js_includes d head then head
                             else drop_final_dot head @ js '': '' @ d
                 | None \<Rightarrow> head)
      in if maxLength < length txt then slice_to txt (maxLength - 1) @ [ellipsis] else txt)"

definition MAX_LOGGED_ERROR :: nat where
  "MAX_LOGGED_ERROR = 2000"

section \<open>Building\<close>

definition reportEndpoint :: "platform \<Rightarrow> endpoint_health \<Rightarrow> endpoint_report" where
  "reportEndpoint L e =
     \<lparr>er_endpoint = redact (parse_url L) (eh_url e), er_ok = eh_ok e, er_latencyMs = eh_latencyMs e,
      er_error = map_option (\<lambda>m. brief m 200) (truthy (eh_error e))\<rparr>"

definition reportVolume :: "volume_result \<Rightarrow> reported_volume" where
  "reportVolume v =
     \<lparr>rv_volumeId = vr_volumeId v, rv_status = status_text (vr_status v),
      rv_outcome = map_option outcome_text (vr_outcome v), rv_amount = map_option dec (vr_amount v),
      rv_reason = vr_reason v, rv_hash = vr_hash v,
      rv_blockNumber = map_option dec (vr_blockNumber v),
      rv_gasUsed = map_option dec (vr_gasUsed v),
      rv_error = map_option (\<lambda>m. slice_to m MAX_LOGGED_ERROR) (truthy (vr_error v))\<rparr>"

definition endpointWarnings :: "platform \<Rightarrow> endpoint_health list \<Rightarrow> keeper_issue list" where
  "endpointWarnings L endpoints =
     map (\<lambda>e. plain_issue (js ''RPC '' @ redact (parse_url L) (eh_url e) @ js '' is unusable: '' @
            brief (nullish (eh_error e) (js ''unknown error'')) 200))
       (filter (\<lambda>e. \<not> eh_ok e) endpoints) @
     (case (List.find eh_ok endpoints, endpoints) of
        (Some usable, first # _) \<Rightarrow>
          if \<not> eh_ok first then
            [plain_issue (js ''primary RPC '' @ redact (parse_url L) (eh_url first) @
               js '' is down; failed over to '' @ redact (parse_url L) (eh_url usable))]
          else []
      | _ \<Rightarrow> [])"

text \<open>The fields a report takes from its run; the optional ones are absent where there is nothing to say.\<close>

record identity_fields =
  if_deployment :: jstring
  if_chainId :: "nat option"
  if_chainName :: "jstring option"
  if_registry :: "jstring option"
  if_cron :: "jstring option"
  if_scheduledTime :: "millis option"

definition identityFields :: "('a) run_input_scheme \<Rightarrow> identity_fields" where
  "identityFields run =
     (let i = ri_identity run in
      \<lparr>if_deployment = di_deployment i, if_chainId = di_chainId i,
       if_chainName = truthy (di_chainName i), if_registry = truthy (di_registry i),
       if_cron = truthy (ri_cron run), if_scheduledTime = ri_scheduledTime run\<rparr>)"

declare identityFields_def [simp]

definition abortedReport ::
  "platform \<Rightarrow> millis \<Rightarrow> ('a) run_input_scheme \<Rightarrow> jstring list \<Rightarrow> endpoint_health list option \<Rightarrow>
     keeper_report" where
  "abortedReport L finishedAt run problems endpoints =
     (let failures = map plain_issue problems; i = identityFields run in
      \<lparr>k_kind = js ''keeper/run'',
       k_status = run_status_text RunFailure,
       k_summary = summarize (di_deployment (ri_identity run)) RunFailure failures [] [],
       k_deployment = if_deployment i,
       k_chainId = if_chainId i,
       k_chainName = if_chainName i,
       k_registry = if_registry i,
       k_keeper = None,
       k_cron = if_cron i,
       k_scheduledTime = if_scheduledTime i,
       k_dryRun = None,
       k_blockNumber = None,
       k_balanceWei = None,
       k_volumeCount = None,
       k_outcomes = None,
       k_endpoints = map_option (map (reportEndpoint L)) endpoints,
       k_failures = failures,
       k_warnings = [],
       k_volumes = None,
       k_durationMs = finishedAt - ri_startedAt run\<rparr>)"

text \<open>The failures of a cycle: its own error first, then each volume whose transaction failed.\<close>

definition volume_failure :: "volume_result \<Rightarrow> keeper_issue" where
  "volume_failure v =
     \<lparr>issue_message =
        (if vr_status v = StReverted then js ''transaction reverted''
         else brief (nullish (vr_error v) (js ''transaction failed'')) 200),
      issue_volumeId = Some (vr_volumeId v), issue_hash = truthy (vr_hash v)\<rparr>"

definition cycle_failures :: "cycle_result \<Rightarrow> keeper_issue list" where
  "cycle_failures r =
     (case truthy (cr_error r) of Some e \<Rightarrow> [plain_issue (brief e 200)] | None \<Rightarrow> []) @
     map volume_failure (filter tx_failed (cr_volumes r))"

definition balance_warnings :: "platform \<Rightarrow> chain \<Rightarrow> nat option \<Rightarrow> nat \<Rightarrow> keeper_issue list" where
  "balance_warnings L ch balanceWei minBalanceWei =
     (case balanceWei of
        None \<Rightarrow> [plain_issue (js ''could not read the keeper wallet balance'')]
      | Some b \<Rightarrow>
          if 0 < minBalanceWei \<and> b < minBalanceWei then
            [plain_issue (js ''keeper balance '' @ format_ether L b @ js '' '' @ chain_symbol ch @
               js '' is below the floor of '' @ format_ether L minBalanceWei @ js '' '' @
               chain_symbol ch)]
          else [])"

definition cycle_warnings :: "platform \<Rightarrow> cycle_report_input \<Rightarrow> keeper_issue list" where
  "cycle_warnings L i =
     endpointWarnings L (ci_endpoints i) @
     (if ci_dryRun i then [plain_issue (js ''dry run: nothing was sent'')] else []) @
     balance_warnings L (ci_chain i) (ci_balanceWei i) (ci_minBalanceWei i) @
     cr_warnings (ci_result i)"

text \<open>\<open>outcomes[key] = (outcomes[key] ?? 0) + 1\<close> on an object, which keeps insertion order.\<close>

fun bump :: "jstring \<Rightarrow> (jstring \<times> nat) list \<Rightarrow> (jstring \<times> nat) list" where
  "bump key [] = [(key, 1)]"
| "bump key ((k, n) # rest) = (if k = key then (k, n + 1) # rest else (k, n) # bump key rest)"

definition outcome_key :: "volume_result \<Rightarrow> jstring" where
  "outcome_key v = nullish (map_option outcome_text (vr_outcome v)) (status_text (vr_status v))"

definition count_outcomes :: "volume_result list \<Rightarrow> (jstring \<times> nat) list" where
  "count_outcomes vs = foldl (\<lambda>acc v. bump (outcome_key v) acc) [] vs"

definition cycle_detail :: "cycle_report_input \<Rightarrow> jstring" where
  "cycle_detail i =
     (let r = ci_result i in
      case truthy (cr_skipped r) of
        Some s \<Rightarrow> s
      | None \<Rightarrow> plural (length (cr_volumes r)) (js ''volume'') @ js '' of '' @
          dec (cr_volumeCount r) @ js '' '' @
          (if ci_dryRun i then js ''simulated'' else js ''triggered''))"

definition cycleReport :: "platform \<Rightarrow> millis \<Rightarrow> cycle_report_input \<Rightarrow> keeper_report" where
  "cycleReport L finishedAt i =
     (let r = ci_result i; d = identityFields i;
          failures = cycle_failures r;
          warnings = cycle_warnings L i;
          status = statusOf failures warnings
      in \<lparr>k_kind = js ''keeper/run'',
          k_status = run_status_text status,
          k_summary = summarize (di_deployment (ri_identity i)) status failures warnings (cycle_detail i),
          k_deployment = if_deployment d,
          k_chainId = if_chainId d,
          k_chainName = if_chainName d,
          k_registry = if_registry d,
          k_keeper = Some (ci_keeper i),
          k_cron = if_cron d,
          k_scheduledTime = if_scheduledTime d,
          k_dryRun = Some (ci_dryRun i),
          k_blockNumber = map_option dec (cr_blockNumber r),
          k_balanceWei = map_option dec (ci_balanceWei i),
          k_volumeCount = Some (cr_volumeCount r),
          k_outcomes = Some (count_outcomes (cr_volumes r)),
          k_endpoints = Some (map (reportEndpoint L) (ci_endpoints i)),
          k_failures = failures,
          k_warnings = warnings,
          k_volumes = Some (map reportVolume (cr_volumes r)),
          k_durationMs = finishedAt - ri_startedAt i\<rparr>)"

section \<open>Scrubbing a report\<close>

text \<open>\<open>walk\<close> applied to every field: texts are scrubbed, lists mapped, everything else is kept.\<close>

definition scrub_issue :: "(jstring \<Rightarrow> jstring) \<Rightarrow> keeper_issue \<Rightarrow> keeper_issue" where
  "scrub_issue f i =
     \<lparr>issue_message = f (issue_message i), issue_volumeId = map_option f (issue_volumeId i),
      issue_hash = map_option f (issue_hash i)\<rparr>"

definition scrub_endpoint :: "(jstring \<Rightarrow> jstring) \<Rightarrow> endpoint_report \<Rightarrow> endpoint_report" where
  "scrub_endpoint f e =
     \<lparr>er_endpoint = f (er_endpoint e), er_ok = er_ok e, er_latencyMs = er_latencyMs e,
      er_error = map_option f (er_error e)\<rparr>"

definition scrub_volume :: "(jstring \<Rightarrow> jstring) \<Rightarrow> reported_volume \<Rightarrow> reported_volume" where
  "scrub_volume f v =
     \<lparr>rv_volumeId = f (rv_volumeId v), rv_status = f (rv_status v),
      rv_outcome = map_option f (rv_outcome v), rv_amount = map_option f (rv_amount v),
      rv_reason = map_option f (rv_reason v), rv_hash = map_option f (rv_hash v),
      rv_blockNumber = map_option f (rv_blockNumber v), rv_gasUsed = map_option f (rv_gasUsed v),
      rv_error = map_option f (rv_error v)\<rparr>"

definition scrubReport :: "keeper_report \<Rightarrow> (jstring \<Rightarrow> jstring) \<Rightarrow> keeper_report" where
  "scrubReport r f =
     \<lparr>k_kind = f (k_kind r), k_status = f (k_status r), k_summary = f (k_summary r),
      k_deployment = f (k_deployment r), k_chainId = k_chainId r,
      k_chainName = map_option f (k_chainName r), k_registry = map_option f (k_registry r),
      k_keeper = map_option f (k_keeper r), k_cron = map_option f (k_cron r),
      k_scheduledTime = k_scheduledTime r, k_dryRun = k_dryRun r,
      k_blockNumber = map_option f (k_blockNumber r), k_balanceWei = map_option f (k_balanceWei r),
      k_volumeCount = k_volumeCount r, k_outcomes = k_outcomes r,
      k_endpoints = map_option (map (scrub_endpoint f)) (k_endpoints r),
      k_failures = map (scrub_issue f) (k_failures r),
      k_warnings = map (scrub_issue f) (k_warnings r),
      k_volumes = map_option (map (scrub_volume f)) (k_volumes r),
      k_durationMs = k_durationMs r\<rparr>"

section \<open>Logging\<close>

text \<open>The console method a report goes to; the line is the report as JSON.\<close>

datatype log_level = LogInfo | LogWarn | LogError

definition logReport :: "keeper_report \<Rightarrow> log_level \<times> keeper_report" where
  "logReport r =
     (if k_status r = js ''failure'' then LogError
      else if k_status r = js ''warning'' then LogWarn else LogInfo, r)"

end
