(* ===== verification/ReportProperties.thy ===== *)
theory ReportProperties
  imports KeeperReporting
begin

text \<open>
  What a report says agrees with the run it reports (\<open>services/keeper/src/reporting.ts\<close>): its status
  and failures against the cycle's result, its outcome counts against the volumes, the bounds of
  its one-line texts, and what scrubbing does to it.
\<close>

section \<open>Status and failures\<close>

lemma run_status_text_inject [simp]: "run_status_text a = run_status_text b \<longleftrightarrow> a = b"
  by (cases a; cases b) (simp_all add: js_def)

lemma aborted_failures:
  "k_failures (abortedReport L t run problems es) = map plain_issue problems"
  by (simp add: abortedReport_def Let_def)

lemma cycle_status:
  "k_status (cycleReport L t i) =
     run_status_text (statusOf (cycle_failures (ci_result i)) (cycle_warnings L i))"
  by (simp add: cycleReport_def Let_def)

lemma cycle_report_failures: "k_failures (cycleReport L t i) = cycle_failures (ci_result i)"
  by (simp add: cycleReport_def Let_def)

lemma failed_volumes:
  "List.map_filter failed_entry vs = map vr_volumeId (filter tx_failed vs)"
  by (induction vs) (auto simp: map_filter_simps failed_entry_def)

lemma failure_ids:
  assumes "accounting r"
  shows "map issue_volumeId (cycle_failures r) =
    (if truthy (cr_error r) = None then [] else [None]) @ map Some (cr_failed r)"
  using assms
  by (auto simp: cycle_failures_def accounting_def lists_agree_def failed_volumes volume_failure_def
      plain_issue_def split: option.splits)

lemma cycle_failures_Nil:
  "accounting r \<Longrightarrow> cycle_failures r = [] \<longleftrightarrow> truthy (cr_error r) = None \<and> cr_failed r = []"
  using arg_cong [OF failure_ids [of r], of length] by (auto split: if_splits)

lemma not_failure_iff:
  assumes "accounting (ci_result i)"
  shows "(k_status (cycleReport L t i) \<noteq> js ''failure'') =
    (cr_failed (ci_result i) = [] \<and> truthy (cr_error (ci_result i)) = None)"
proof -
  have word: "js ''failure'' = run_status_text RunFailure" by simp
  have "(statusOf (cycle_failures (ci_result i)) (cycle_warnings L i) \<noteq> RunFailure) =
      (cycle_failures (ci_result i) = [])"
    by (simp add: statusOf_def)
  then show ?thesis unfolding word cycle_status run_status_text_inject
    using cycle_failures_Nil [OF assms] by blast
qed

section \<open>Warnings\<close>

text \<open>How many warnings a report adds to the cycle's own: one for each thing that is worth one.\<close>

definition balance_low :: "cycle_report_input \<Rightarrow> bool" where
  "balance_low i = (case ci_balanceWei i of None \<Rightarrow> True | Some b \<Rightarrow> b < ci_minBalanceWei i)"

definition failed_over :: "endpoint_health list \<Rightarrow> bool" where
  "failed_over es \<longleftrightarrow> es \<noteq> [] \<and> \<not> eh_ok (hd es) \<and> list_ex eh_ok es"

definition own_warnings :: "cycle_report_input \<Rightarrow> nat" where
  "own_warnings i = length (filter (\<lambda>e. \<not> eh_ok e) (ci_endpoints i)) +
     of_bool (failed_over (ci_endpoints i)) + of_bool (ci_dryRun i) + of_bool (balance_low i)"

lemma endpoint_warnings_count:
  "length (endpointWarnings L es) = length (filter (\<lambda>e. \<not> eh_ok e) es) + of_bool (failed_over es)"
proof -
  have "(List.find eh_ok es = None) = (\<not> list_ex eh_ok es)"
    by (auto simp: find_None_iff list_ex_iff)
  then show ?thesis
    by (cases "List.find eh_ok es"; cases es) (auto simp: endpointWarnings_def failed_over_def Let_def split: option.splits)
qed

lemma own_warnings_count:
  "\<exists>own. cycle_warnings L i = own @ cr_warnings (ci_result i) \<and> length own = own_warnings i"
proof -
  have "length (balance_warnings L (ci_chain i) (ci_balanceWei i) (ci_minBalanceWei i)) = of_bool (balance_low i)"
    by (auto simp: balance_warnings_def balance_low_def split: option.splits)
  then show ?thesis
    by (simp add: cycle_warnings_def endpoint_warnings_count own_warnings_def flip: append_assoc)
qed

lemma no_own_warnings:
  "own_warnings i = 0 \<longleftrightarrow> list_all eh_ok (ci_endpoints i) \<and> \<not> ci_dryRun i \<and> \<not> balance_low i"
proof -
  have "list_all eh_ok es \<Longrightarrow> \<not> failed_over es" for es by (cases es) (simp_all add: failed_over_def)
  then show ?thesis by (auto simp: own_warnings_def filter_empty_conv list_all_iff)
qed

section \<open>Counting outcomes\<close>

lemma map_of_bump: "map_of (bump k xs) = (map_of xs)(k \<mapsto> nullish (map_of xs k) 0 + 1)"
  by (induction xs) (auto simp: fun_eq_iff)

lemma keys_bump: "map fst (bump k xs) = (if k \<in> set (map fst xs) then map fst xs else map fst xs @ [k])"
proof (induction xs)
  case (Cons x xs)
  then show ?case by (cases x) (simp add: eq_commute [of k])
qed simp

lemma distinct_bump: "distinct (map fst xs) \<Longrightarrow> distinct (map fst (bump k xs))"
  by (simp add: keys_bump)

lemma sum_bump: "sum_list (map snd (bump k xs)) = Suc (sum_list (map snd xs))"
  by (induction xs) auto

lemma count_outcomes_snoc:
  "count_outcomes (vs @ [v]) = bump (outcome_key v) (count_outcomes vs)"
  by (simp add: count_outcomes_def)

lemma count_outcomes_facts:
  "distinct (map fst (count_outcomes vs)) \<and> sum_list (map snd (count_outcomes vs)) = length vs \<and>
   (\<forall>k. nullish (map_of (count_outcomes vs) k) 0 = length (filter (\<lambda>v. outcome_key v = k) vs))"
proof (induction vs rule: rev_induct)
  case Nil
  then show ?case by (simp add: count_outcomes_def)
next
  case (snoc v vs)
  then show ?case
    by (simp add: count_outcomes_snoc distinct_bump sum_bump map_of_bump)
qed

section \<open>One-line texts\<close>

lemma brief_length: "0 < n \<Longrightarrow> length (brief m n) \<le> n"
  by (auto simp: brief_def Let_def)

lemma brief_lines_props:
  "l \<in> set (brief_lines m) \<Longrightarrow> newline \<notin> set l \<and> l \<noteq> []"
  using set_js_trim js_split_char_pieces unfolding brief_lines_def by fastforce

lemma trim_Nil_blank: "js_trim s = [] \<Longrightarrow> list_all is_white s"
proof (rule ccontr)
  assume trimmed: "js_trim s = []" and "\<not> list_all is_white s"
  then obtain c where c: "c \<in> set s" "\<not> is_white c" by (auto simp: list_all_iff)
  then have "c \<in> set (dropWhile is_white s)"
    using set_takeWhileD [of c is_white s]
    by (metis Un_iff set_append takeWhile_dropWhile_id)
  then show False using trimmed c(2) by (auto simp: js_trim_def dropWhile_eq_Nil_conv)
qed

lemma split_char_covers: "c \<in> set s \<Longrightarrow> c \<noteq> x \<Longrightarrow> \<exists>p \<in> set (js_split [x] s). c \<in> set p"
proof -
  have "set (js_join [x] ps) \<subseteq> insert x (\<Union> (set ` set ps))" for ps
    by (induction "[x]" ps rule: js_join.induct) auto
  from this [of "js_split [x] s"] show "c \<in> set s \<Longrightarrow> c \<noteq> x \<Longrightarrow> ?thesis"
    by (auto simp: join_split)
qed

lemma newline_white: "is_white newline"
  by (simp add: is_white_def white_units_def newline_def)

lemma brief_lines_Nil: "brief_lines m = [] \<Longrightarrow> list_all is_white m"
proof -
  assume "brief_lines m = []"
  then have blank: "list_all is_white p" if "p \<in> set (js_split [newline] m)" for p
    using that trim_Nil_blank by (auto simp: brief_lines_def filter_empty_conv)
  show ?thesis unfolding list_all_iff
  proof
    fix c assume "c \<in> set m"
    then show "is_white c"
      using newline_white split_char_covers [of c m newline] blank
      by (cases "c = newline") (auto simp: list_all_iff)
  qed
qed

lemma ellipsis_not_newline [simp]: "ellipsis \<noteq> newline"
  by (simp add: ellipsis_def newline_def)

lemma set_drop_final_dot: "set (drop_final_dot s) \<subseteq> set s"
  by (auto simp: drop_final_dot_def dest: in_set_butlastD)

lemma brief_one_line:
  assumes "\<not> list_all is_white m"
  shows "newline \<notin> set (brief m n)"
proof -
  let ?ls = "brief_lines m"
  obtain l ls where ls: "?ls = l # ls" using assms brief_lines_Nil by (cases ?ls) auto
  have l: "newline \<notin> set l" using brief_lines_props [of l m] ls by simp
  have details: "newline \<notin> set (js_trim (slice_from d 8))"
    if "List.find (js_starts_with (js ''Details:'')) ?ls = Some d" for d
  proof -
    have "d \<in> set ?ls" using that by (auto simp: find_Some_iff)
    then have "newline \<notin> set d" by (simp add: brief_lines_props)
    then show ?thesis using set_js_trim [of "slice_from d 8"] by (auto dest: in_set_dropD)
  qed
  let ?d = "map_option (\<lambda>l. js_trim (slice_from l 8)) (List.find (js_starts_with (js ''Details:'')) ?ls)"
  let ?line = "case truthy ?d of
      Some d \<Rightarrow> if js_includes d l then l else drop_final_dot l @ js '': '' @ d | None \<Rightarrow> l"
  have sep: "newline \<notin> set (js '': '')" by (simp add: newline_def js_def)
  have line: "newline \<notin> set ?line"
  proof (cases "truthy ?d")
    case (Some d)
    then have "newline \<notin> set d" using details by (auto simp: truthy_Some_iff)
    then show ?thesis using Some l sep set_drop_final_dot [of l] by auto
  qed (simp add: l)
  have "(case ?ls of [] \<Rightarrow> m | h # _ \<Rightarrow> h) = l" by (simp add: ls)
  then have "brief m n = (if n < length ?line then slice_to ?line (n - 1) @ [ellipsis] else ?line)"
    unfolding brief_def Let_def by (simp only:)
  then show ?thesis using line ellipsis_not_newline [symmetric] by (auto dest: in_set_takeD)
qed

section \<open>Every text of a report\<close>

definition issue_texts :: "keeper_issue \<Rightarrow> jstring list" where
  "issue_texts i = issue_message i # opt_list (issue_volumeId i) @ opt_list (issue_hash i)"

definition endpoint_texts :: "endpoint_report \<Rightarrow> jstring list" where
  "endpoint_texts e = er_endpoint e # opt_list (er_error e)"

definition volume_texts :: "reported_volume \<Rightarrow> jstring list" where
  "volume_texts v =
     [rv_volumeId v, rv_status v] @
     concat (map opt_list [rv_outcome v, rv_amount v, rv_reason v, rv_hash v, rv_blockNumber v,
       rv_gasUsed v, rv_error v])"

text \<open>All values; the keys of \<open>outcomes\<close> are the code's own names, which \<open>walk\<close> keeps.\<close>

definition report_texts :: "keeper_report \<Rightarrow> jstring list" where
  "report_texts k =
     [k_kind k, k_status k, k_summary k, k_deployment k] @
     concat (map opt_list [k_chainName k, k_registry k, k_keeper k, k_cron k, k_blockNumber k,
       k_balanceWei k]) @
     concat (map endpoint_texts (nullish (k_endpoints k) [])) @
     concat (map issue_texts (k_failures k @ k_warnings k)) @
     concat (map volume_texts (nullish (k_volumes k) []))"

lemma opt_list_map: "opt_list (map_option f x) = map f (opt_list x)"
  by (cases x) simp_all

lemma nullish_map: "nullish (map_option (map f) x) [] = map f (nullish x [])"
  by (cases x) simp_all

lemma part_texts:
  "issue_texts (scrub_issue f i) = map f (issue_texts i)"
  "endpoint_texts (scrub_endpoint f e) = map f (endpoint_texts e)"
  "volume_texts (scrub_volume f v) = map f (volume_texts v)"
  by (simp_all add: issue_texts_def scrub_issue_def endpoint_texts_def scrub_endpoint_def
      volume_texts_def scrub_volume_def opt_list_map)

lemma scrubbed_texts: "report_texts (scrubReport k f) = map f (report_texts k)"
  by (simp add: report_texts_def scrubReport_def opt_list_map nullish_map map_concat comp_def
      part_texts)

section \<open>Through a scrubber\<close>

text \<open>A built report's status word is short, so scrubbing keeps it, and the log level with it.\<close>

lemma status_word_short: "length (run_status_text s) < 8"
  by (cases s) simp_all

context text_scrubber
begin

lemma cycle_status_kept:
  "k_status (scrubReport (cycleReport L t i) scrub) = k_status (cycleReport L t i)"
  using scrub_short [OF status_word_short] by (simp add: scrubReport_def cycle_status)

lemma cycle_level_kept:
  "fst (logReport (scrubReport (cycleReport L t i) scrub)) = fst (logReport (cycleReport L t i))"
  by (simp add: logReport_def cycle_status_kept)

lemma aborted_status_kept:
  "k_status (scrubReport (abortedReport L t run ps es) scrub) = js ''failure''"
  using scrub_short [OF status_word_short [of RunFailure]]
  by (simp add: scrubReport_def abortedReport_def Let_def)

end

text \<open>A word without blanks is not inside blanks and a proper part of it.\<close>

lemma not_in_padding:
  assumes "c \<notin> set s" "k < length s"
  shows "\<not> sublist s (replicate n c @ take k s)"
proof
  assume "sublist s (replicate n c @ take k s)"
  then have "sublist s (take k s)"
  proof (induction n)
    case (Suc n)
    then have "\<not> prefix s (c # replicate n c @ take k s)" using assms by (cases s) auto
    then show ?case using Suc by (simp add: sublist_Cons_right)
  qed simp
  then show False using assms(2) by (auto dest: sublist_length_le)
qed

section \<open>Properties\<close>

text \<open>
  C16: the report of a cycle says what the cycle did, whatever the endpoints answered. It is a failure
  unless no volume failed and the cycle itself has no error to tell. Its failures are the cycle's own error
  in brief and then exactly the failed volumes, in the order they were attempted, each with its error in
  brief or as reverted; it lists every volume attempted. Its warnings are the cycle's, behind one for each
  endpoint that is down, one for a failover, one for a dry run and one for a balance that is low or could not
  be read; it is ok exactly when it is no failure and there is none of these.
\<close>

theorem report_matches_cycle:
  "let r = fst (runKeeperCycle C V P w); k = cycleReport L t (i\<lparr>ci_result := r\<rparr>)
   in (k_status k \<noteq> js ''failure'') = (cr_failed r = [] \<and> truthy (cr_error r) = None) \<and>
      (k_status k = js ''ok'') =
        (cr_failed r = [] \<and> truthy (cr_error r) = None \<and> cr_warnings r = [] \<and>
         list_all eh_ok (ci_endpoints i) \<and> \<not> ci_dryRun i \<and> \<not> balance_low i) \<and>
      map (\<lambda>f. (issue_volumeId f, issue_message f)) (k_failures k) =
        (case cr_error r of None \<Rightarrow> [] | Some e \<Rightarrow> if e = [] then [] else [(None, brief e 200)]) @
        map (\<lambda>v. (Some (vr_volumeId v),
            case vr_status v of
              StReverted \<Rightarrow> js ''transaction reverted''
            | _ \<Rightarrow> brief (nullish (vr_error v) (js ''transaction failed'')) 200))
          (filter (\<lambda>v. vr_status v \<in> {StFailed, StReverted}) (cr_volumes r)) \<and>
      map issue_volumeId (k_failures k) =
        (if truthy (cr_error r) = None then [] else [None]) @ map Some (cr_failed r) \<and>
      (\<exists>own. k_warnings k = own @ cr_warnings r \<and>
         length own = length (filter (\<lambda>e. \<not> eh_ok e) (ci_endpoints i)) +
           of_bool (failed_over (ci_endpoints i)) + of_bool (ci_dryRun i) + of_bool (balance_low i)) \<and>
      map_option (map rv_volumeId) (k_volumes k) = Some (map vr_volumeId (cr_volumes r))"
proof -
  define r where "r = fst (runKeeperCycle C V P w)"
  define j where "j = i\<lparr>ci_result := r\<rparr>"
  have j: "ci_result j = r" "ci_endpoints j = ci_endpoints i" "ci_dryRun j = ci_dryRun i"
      "balance_low j = balance_low i"
    by (simp_all add: j_def balance_low_def split: option.split)
  have acc: "accounting r" unfolding r_def by (rule run_accounting)
  let ?k = "cycleReport L t j"
  have k: "k_warnings ?k = cycle_warnings L j" "k_failures ?k = cycle_failures r"
      "k_volumes ?k = Some (map reportVolume (cr_volumes r))"
      "k_status ?k = run_status_text (statusOf (cycle_failures r) (cycle_warnings L j))"
    by (simp_all add: cycleReport_def Let_def j)
  have words: "js ''failure'' = run_status_text RunFailure" "js ''ok'' = run_status_text RunOk" by simp_all
  obtain own where own: "cycle_warnings L j = own @ cr_warnings r" "length own = own_warnings j"
    using own_warnings_count [of L j] by (auto simp: j)
  have fail: "(k_status ?k \<noteq> js ''failure'') = (cr_failed r = [] \<and> truthy (cr_error r) = None)"
    using cycle_failures_Nil [OF acc] unfolding words k run_status_text_inject by (auto simp: statusOf_def)
  have "(k_status ?k = js ''ok'') = (cycle_failures r = [] \<and> own_warnings j = 0 \<and> cr_warnings r = [])"
    unfolding words k run_status_text_inject own(2) [symmetric] by (auto simp: statusOf_def own(1))
  then have ok: "(k_status ?k = js ''ok'') = (cr_failed r = [] \<and> truthy (cr_error r) = None \<and> cr_warnings r = [] \<and>
      list_all eh_ok (ci_endpoints i) \<and> \<not> ci_dryRun i \<and> \<not> balance_low i)"
    using cycle_failures_Nil [OF acc] no_own_warnings [of j] unfolding j by blast
  have per: "map (\<lambda>f. (issue_volumeId f, issue_message f)) (map volume_failure vs) =
      map (\<lambda>v. (Some (vr_volumeId v), case vr_status v of StReverted \<Rightarrow> js ''transaction reverted''
        | _ \<Rightarrow> brief (nullish (vr_error v) (js ''transaction failed'')) 200)) vs" for vs
    by (simp add: volume_failure_def split: tx_status.split)
  have fails: "filter tx_failed vs = filter (\<lambda>v. vr_status v \<in> {StFailed, StReverted}) vs" for vs
    by (rule filter_cong) (auto simp: tx_failed_def)
  have told: "map (\<lambda>f. (issue_volumeId f, issue_message f)) (k_failures ?k) =
      (case cr_error r of None \<Rightarrow> [] | Some e \<Rightarrow> if e = [] then [] else [(None, brief e 200)]) @
      map (\<lambda>v. (Some (vr_volumeId v), case vr_status v of StReverted \<Rightarrow> js ''transaction reverted''
        | _ \<Rightarrow> brief (nullish (vr_error v) (js ''transaction failed'')) 200))
        (filter (\<lambda>v. vr_status v \<in> {StFailed, StReverted}) (cr_volumes r))"
    unfolding k cycle_failures_def map_append fails per
    by (cases "cr_error r") (simp_all add: plain_issue_def truthy_def)
  show ?thesis unfolding Let_def r_def [symmetric] j_def [symmetric]
  proof (intro conjI)
    show "map issue_volumeId (k_failures ?k) =
        (if truthy (cr_error r) = None then [] else [None]) @ map Some (cr_failed r)"
      unfolding k by (rule failure_ids [OF acc])
    show "\<exists>own. k_warnings ?k = own @ cr_warnings r \<and>
         length own = length (filter (\<lambda>e. \<not> eh_ok e) (ci_endpoints i)) +
           of_bool (failed_over (ci_endpoints i)) + of_bool (ci_dryRun i) + of_bool (balance_low i)"
      using own by (auto simp: k own_warnings_def j)
    show "map_option (map rv_volumeId) (k_volumes ?k) = Some (map vr_volumeId (cr_volumes r))"
      by (simp add: k reportVolume_def comp_def)
  qed (rule fail ok told)+
qed

text \<open>
  A report's outcome counts are a tally of the volumes: every key appears once, the counts add up
  to the number of volumes, and each key's count is the number of volumes with that outcome, or with
  that status where there is no outcome.
\<close>

lemma outcome_counts_tally:
  "case k_outcomes (cycleReport L t i) of
     None \<Rightarrow> False
   | Some tally \<Rightarrow>
       distinct (map fst tally) \<and> sum_list (map snd tally) = length (cr_volumes (ci_result i)) \<and>
       (\<forall>k. nullish (map_of tally k) 0 =
            length (filter (\<lambda>v. outcome_key v = k) (cr_volumes (ci_result i))))"
  using count_outcomes_facts [of "cr_volumes (ci_result i)"] by (simp add: cycleReport_def Let_def)

text \<open>
  A message that is not blank is reported on one line, within the length asked for.
\<close>

lemma brief_fits_one_line:
  assumes "0 < n" and "\<not> list_all is_white m"
  shows "length (brief m n) \<le> n \<and> newline \<notin> set (brief m n)"
  using brief_length [OF assms(1)] brief_one_line [OF assms(2)] by simp

lemma brief_fits_one_line_witness:
  "length (brief (js ''boom'') 3) \<le> 3 \<and> newline \<notin> set (brief (js ''boom'') 3)"
  by (rule brief_fits_one_line) (simp_all add: js_def is_white_def white_units_def)

text \<open>
  No text of a scrubbed report holds a configured secret, whatever the report says, under the same
  conditions on the placeholders as for one text.
\<close>

lemma scrubbed_report_hides_secret:
  assumes "secret \<in> set others" and "8 \<le> length secret"
    and "guards redacted_mark secret"
    and "list_all (\<lambda>url. guards (redact parseUrl url) secret) rpcUrls"
  shows "list_all (\<lambda>t. \<not> js_includes secret t)
    (report_texts (scrubReport k (makeScrubber parseUrl rpcUrls others)))"
  using assms by (simp add: scrubbed_texts list_all_iff scrubbed_text_hides)

definition sample_run :: run_input where
  "sample_run =
     \<lparr>ri_identity = \<lparr>di_deployment = js ''keeper'', di_chainId = Some 100, di_chainName = None,
        di_registry = None\<rparr>, ri_cron = None, ri_scheduledTime = None, ri_startedAt = 0\<rparr>"

lemma scrubbed_report_hides_secret_witness:
  "list_all (\<lambda>t. \<not> js_includes (js ''0xdeadbeef'') t)
     (report_texts (scrubReport
       (abortedReport sample_platform 7 sample_run [js ''key 0xdeadbeef used''] None)
       (makeScrubber sample_parse_url [sample_url] [js ''0xdeadbeef''])))"
proof (rule scrubbed_report_hides_secret)
  show "guards redacted_mark (js ''0xdeadbeef'')"
    by (simp add: guards_def redacted_mark_def js_def js_starts_with_def)
  show "list_all (\<lambda>url. guards (redact sample_parse_url url) (js ''0xdeadbeef'')) [sample_url]"
    by (simp add: guards_def redact_def sample_parse_url_def ellipsis_def js_def js_starts_with_def)
qed simp_all

text \<open>
  Scrubbing never changes what a report says of the run: the status of a built report, the log
  level it goes to, and so whether the invocation fails, are the same before and after.
\<close>

lemma scrubbing_keeps_status:
  "k_status (scrubReport (cycleReport L t i) (makeScrubber parseUrl urls others)) =
     k_status (cycleReport L t i) \<and>
   fst (logReport (scrubReport (cycleReport L t i) (makeScrubber parseUrl urls others))) =
     fst (logReport (cycleReport L t i)) \<and>
   k_status (scrubReport (abortedReport L t run ps es) (makeScrubber parseUrl urls others)) =
     js ''failure''"
  by (simp only: made.cycle_status_kept made.cycle_level_kept made.aborted_status_kept)

text \<open>
  A text is cut before it is scrubbed, so a secret that the cut divides is not recognised: of a
  secret reaching over the limit of \<open>MAX_LOGGED_ERROR\<close>, the part in front of the limit is reported.
\<close>

lemma divided_secret_survives:
  assumes "8 \<le> length secret" and "0x20 \<notin> set secret" and "k < length secret" and "0 < k" and "k \<le> 2000"
  shows "rv_error (scrub_volume (makeScrubber parseUrl [] [secret])
      (reportVolume (failed_result v h (ErrorObject (replicate (2000 - k) 0x20 @ secret))))) =
    Some (replicate (2000 - k) 0x20 @ take k secret)"
proof -
  let ?pad = "replicate (2000 - k) (0x20 :: code_unit)"
  have cut: "slice_to (?pad @ secret) 2000 = ?pad @ take k secret" using assms(5) by simp
  have "\<not> sublist secret (?pad @ take k secret)"
    by (rule not_in_padding) (use assms in simp_all)
  then have "makeScrubber parseUrl [] [secret] (?pad @ take k secret) = ?pad @ take k secret"
    by (simp add: makeScrubber_def usable_pairs_def scrub_pairs_def assms(1) replace_all_absent
        js_includes_sublist)
  moreover have "?pad @ secret \<noteq> []" using assms(1) by auto
  ultimately show ?thesis
    using assms(5) by (simp add: reportVolume_def scrub_volume_def failed_result_def MAX_LOGGED_ERROR_def)
qed

theorem divided_secret_survives_witness:
  "rv_error (scrub_volume (makeScrubber (\<lambda>_. None) [] [js ''0123456789''])
      (reportVolume (failed_result (js ''0xv'') None
         (ErrorObject (replicate (2000 - 9) 0x20 @ js ''0123456789''))))) =
    Some (replicate (2000 - 9) 0x20 @ take 9 (js ''0123456789''))"
  by (rule divided_secret_survives) (simp_all add: js_def)

end
