(* ===== verification/TelegramAlert.thy ===== *)
theory TelegramAlert
  imports ReportProperties
begin

text \<open>
  \<open>services/keeper/src/notifications/telegram.ts\<close>: when a run is alerted on, how the alert is
  rendered from the report, and how it is sent.

  The HTTP stack is an argument of \<open>sendTelegram\<close>: a function of the request that answers or throws.
  The request holds what the code puts into it; \<open>JSON.stringify\<close> of the body is the runtime's.
\<close>

section \<open>Definitions\<close>

definition TELEGRAM_MAX_LENGTH :: nat where
  "TELEGRAM_MAX_LENGTH = 4096"

definition bullet :: code_unit where
  "bullet = 0x2022"

text \<open>\<open>ICON[status]\<close> in a template literal: a circle, two code units.\<close>

definition status_icon :: "jstring \<Rightarrow> jstring" where
  "status_icon status =
     (if status = js ''failure'' then [0xD83D, 0xDD34]
      else if status = js ''warning'' then [0xD83D, 0xDFE1]
      else if status = js ''ok'' then [0xD83D, 0xDFE2]
      else js ''undefined'')"

definition shouldNotify :: "keeper_report \<Rightarrow> bool \<Rightarrow> bool" where
  "shouldNotify report notifyWarnings \<longleftrightarrow>
     k_status report = js ''failure'' \<or> (k_status report = js ''warning'' \<and> notifyWarnings)"

definition formatIssue :: "keeper_issue \<Rightarrow> jstring" where
  "formatIssue issue =
     js_join [newline]
       ([[bullet] @ js '' '' @ issue_message issue] @
        (case truthy (issue_volumeId issue) of Some v \<Rightarrow> [js ''  volume '' @ v] | None \<Rightarrow> []) @
        (case truthy (issue_hash issue) of Some h \<Rightarrow> [js ''  tx '' @ h] | None \<Rightarrow> []))"

text \<open>The issues among some blocks, and the closing line that counts those left out.\<close>

definition issue_blocks :: "jstring list \<Rightarrow> nat" where
  "issue_blocks blocks = length (filter (js_starts_with [bullet]) blocks)"

definition omitted_line :: "nat \<Rightarrow> jstring" where
  "omitted_line rest =
     [newline, ellipsis] @ js '' and '' @ dec rest @ js '' more '' @ [em_dash] @ js '' see Workers Logs''"

fun fit :: "jstring \<Rightarrow> jstring list \<Rightarrow> jstring" where
  "fit body [] = body"
| "fit body (block # rest) =
     (let closing = omitted_line (issue_blocks (block # rest)) in
      if TELEGRAM_MAX_LENGTH < length body + 1 + length block + length closing then body @ closing
      else fit (body @ [newline] @ block) rest)"

definition header_lines :: "platform \<Rightarrow> keeper_report \<Rightarrow> jstring list" where
  "header_lines L report =
     (let chain = (case k_chainId report of
            None \<Rightarrow> js ''unknown (CHAIN_ID unset or invalid)''
          | Some n \<Rightarrow> nullish (k_chainName report) (js ''unsupported chain'') @ js '' ('' @ show_number L n @ js '')'')
      in [status_icon (k_status report) @ js '' '' @ k_summary report,
          js ''Deployment: '' @ k_deployment report,
          js ''Chain: '' @ chain,
          js ''Registry: '' @ nullish (k_registry report) (js ''unset'')] @
         (case truthy (k_keeper report) of Some a \<Rightarrow> [js ''Keeper: '' @ a] | None \<Rightarrow> []))"

definition section_blocks :: "jstring \<Rightarrow> keeper_issue list \<Rightarrow> jstring list" where
  "section_blocks title issues =
     (if length issues = 0 then [] else ([newline] @ title) # map formatIssue issues)"

definition report_blocks :: "keeper_report \<Rightarrow> jstring list" where
  "report_blocks report =
     section_blocks (js ''Failures'') (k_failures report) @
     section_blocks (js ''Warnings'') (k_warnings report)"

definition formatTelegramMessage :: "platform \<Rightarrow> keeper_report \<Rightarrow> jstring" where
  "formatTelegramMessage L report =
     fit (js_join [newline] (header_lines L report)) (report_blocks report)"

section \<open>Sending\<close>

record telegram_request =
  treq_url :: jstring
  treq_chat_id :: jstring
  treq_text :: jstring
  treq_preview_disabled :: bool
  treq_timeoutMs :: nat

text \<open>A response: its status, and the reading of its body, which may fail.\<close>

record fetch_response =
  resp_ok :: bool
  resp_status :: nat
  resp_text :: "exn + jstring"

record send_result =
  sr_sent :: bool
  sr_reason :: "jstring option"

definition telegram_request :: "telegram_config \<Rightarrow> jstring \<Rightarrow> nat \<Rightarrow> telegram_request" where
  "telegram_request config body timeoutMs =
     \<lparr>treq_url = js ''https://api.telegram.org/bot'' @ tg_botToken config @ js ''/sendMessage'',
      treq_chat_id = tg_chatId config, treq_text = body, treq_preview_disabled = True,
      treq_timeoutMs = timeoutMs\<rparr>"

definition sendTelegram ::
  "(telegram_request \<Rightarrow> ('w, fetch_response) effect) \<Rightarrow> telegram_config \<Rightarrow> jstring \<Rightarrow> nat \<Rightarrow> 'w \<Rightarrow>
     send_result \<times> 'w" where
  "sendTelegram doFetch config body timeoutMs w =
     (case doFetch (telegram_request config body timeoutMs) w of
        (Inl e, w1) \<Rightarrow> (\<lparr>sr_sent = False, sr_reason = Some (exn_message e)\<rparr>, w1)
      | (Inr response, w1) \<Rightarrow>
          (if \<not> resp_ok response then
             (let answer = (case resp_text response of Inl _ \<Rightarrow> [] | Inr t \<Rightarrow> t) in
              \<lparr>sr_sent = False,
               sr_reason = Some (js ''telegram returned '' @ dec (resp_status response) @ js '': '' @
                 slice_to answer 200)\<rparr>)
           else \<lparr>sr_sent = True, sr_reason = None\<rparr>, w1))"

section \<open>What a message keeps\<close>

lemma length_omitted_line: "length (omitted_line n) = 31 + length (dec n)"
  by (simp add: omitted_line_def)

lemma omitted_line_mono: "m \<le> n \<Longrightarrow> length (omitted_line m) \<le> length (omitted_line n)"
  by (simp add: length_omitted_line length_dec_mono)

lemma issue_blocks_Cons: "issue_blocks bs \<le> issue_blocks (b # bs)"
  by (simp add: issue_blocks_def)

lemma fit_length:
  "length body + length (omitted_line (issue_blocks blocks)) \<le> TELEGRAM_MAX_LENGTH \<Longrightarrow>
   length (fit body blocks) \<le> TELEGRAM_MAX_LENGTH"
proof (induction blocks arbitrary: body)
  case Nil
  then show ?case by simp
next
  case (Cons b bs)
  show ?case
  proof (cases "TELEGRAM_MAX_LENGTH <
      length body + 1 + length b + length (omitted_line (issue_blocks (b # bs)))")
    case True
    then show ?thesis using Cons.prems by (simp add: Let_def)
  next
    case False
    moreover have "length (omitted_line (issue_blocks bs)) \<le> length (omitted_line (issue_blocks (b # bs)))"
      by (rule omitted_line_mono [OF issue_blocks_Cons])
    ultimately have "length (fit (body @ [newline] @ b) bs) \<le> TELEGRAM_MAX_LENGTH"
      by (intro Cons.IH) simp
    then show ?thesis using False by (simp add: Let_def)
  qed
qed

text \<open>Whole blocks are kept, from the front, and the closing line counts the issues left out.\<close>

lemma fit_whole_blocks:
  "\<exists>k \<le> length blocks. fit body blocks =
     body @ concat (map (\<lambda>b. newline # b) (take k blocks)) @
     (if k = length blocks then [] else omitted_line (issue_blocks (drop k blocks)))"
proof (induction blocks arbitrary: body)
  case Nil
  then show ?case by simp
next
  case (Cons b bs)
  show ?case
  proof (cases "TELEGRAM_MAX_LENGTH <
      length body + 1 + length b + length (omitted_line (issue_blocks (b # bs)))")
    case True
    then show ?thesis by (intro exI [of _ 0]) (simp add: Let_def)
  next
    case False
    obtain k where "k \<le> length bs" "fit (body @ [newline] @ b) bs =
        (body @ [newline] @ b) @ concat (map (\<lambda>b. newline # b) (take k bs)) @
        (if k = length bs then [] else omitted_line (issue_blocks (drop k bs)))"
      using Cons.IH by blast
    then show ?thesis using False by (intro exI [of _ "Suc k"]) (simp add: Let_def)
  qed
qed

lemma fit_extends: "length body \<le> length (fit body blocks)"
  using fit_whole_blocks [of blocks body] by auto

lemma formatIssue_bullet [simp]: "js_starts_with [bullet] (formatIssue i)"
  by (simp add: formatIssue_def js_starts_with_def split: option.split)

lemma issue_blocks_append [simp]: "issue_blocks (xs @ ys) = issue_blocks xs + issue_blocks ys"
  by (simp add: issue_blocks_def)

lemma issue_blocks_section [simp]: "issue_blocks (section_blocks title issues) = length issues"
proof -
  have "\<not> js_starts_with [bullet] (newline # title)"
    by (simp add: js_starts_with_def bullet_def newline_def)
  moreover have "filter (js_starts_with [bullet]) (map formatIssue issues) = map formatIssue issues"
    by (simp add: filter_id_conv)
  ultimately show ?thesis by (simp add: section_blocks_def issue_blocks_def)
qed

lemma issue_blocks_report: "issue_blocks (report_blocks r) = length (k_failures r) + length (k_warnings r)"
  by (simp add: report_blocks_def)

section \<open>What a message does not tell\<close>

text \<open>A key of the accepted shape is not made by joining texts that do not have it.\<close>

lemma sublist_separated:
  assumes "c \<notin> set s" "\<not> sublist s a" "\<not> sublist s b"
  shows "\<not> sublist s (a @ c # b)"
proof
  assume "sublist s (a @ c # b)"
  then have "sublist s ((a @ [c]) @ b)" by simp
  moreover have "last (a @ [c]) \<notin> set s" using assms(1) by simp
  ultimately have "sublist s (a @ [c])" using sublist_append_guard assms(3) by blast
  then have "suffix s (a @ [c])" using assms(2) by (simp add: sublist_snoc)
  then have "s = [] \<or> c \<in> set s" by (auto simp: suffix_snoc)
  then show False using assms(1,2) by auto
qed

lemma sublist_joined:
  assumes "c \<notin> set s" "s \<noteq> []" "list_all (\<lambda>t. \<not> sublist s t) ts"
  shows "\<not> sublist s (js_join [c] ts)"
  using assms by (induction "[c]" ts rule: js_join.induct) (simp_all add: sublist_separated)

lemma sublist_blocks:
  assumes "c \<notin> set s" "\<not> sublist s h" "list_all (\<lambda>t. \<not> sublist s t) ts"
  shows "\<not> sublist s (h @ concat (map (\<lambda>b. c # b) ts))"
  using assms
proof (induction ts arbitrary: h)
  case (Cons t ts)
  then show ?case using Cons.IH [of "h @ c # t"] sublist_separated [of c s h t] by simp
qed simp

lemma dec_no_x: "0x78 \<notin> set (dec n)"
  using all_digits_dec [of n] by (auto simp: all_digits_def list_all_iff is_digit_def)

lemma too_short: "length t < length s \<Longrightarrow> \<not> sublist s t"
  by (auto dest: sublist_length_le)

lemma key_units: "is_hex32 s \<Longrightarrow> c \<in> set s \<Longrightarrow> is_hex_digit c \<or> c = 0x78"
proof -
  assume key: "is_hex32 s" and c: "c \<in> set s"
  have "take 2 s = js ''0x''" and rest: "list_all is_hex_digit (drop 2 s)"
    using key by (simp_all add: is_hex32_def js_starts_with_def numeral_2_eq_2)
  moreover have "set s = set (take 2 s) \<union> set (drop 2 s)"
    by (metis append_take_drop_id set_append)
  ultimately show ?thesis using c
    by (auto simp: list_all_iff js_def is_hex_digit_def is_digit_def)
qed

lemma key_facts:
  assumes "is_hex32 s"
  shows "length s = 66" "newline \<notin> set s" "0x20 \<notin> set s" "0x78 \<in> set s" "0x28 \<notin> set s"
    "bullet \<notin> set s" "ellipsis \<notin> set s" "em_dash \<notin> set s" "0x3C \<notin> set s" "0x3E \<notin> set s"
proof -
  have "take 2 s = js ''0x''" and s2: "list_all is_hex_digit (drop 2 s)" "length s = 66"
    using assms by (simp_all add: is_hex32_def js_starts_with_def numeral_2_eq_2)
  then have s1: "s = js ''0x'' @ drop 2 s" by (metis append_take_drop_id)
  have "set s = set (js ''0x'') \<union> set (drop 2 s)" by (subst s1) (rule set_append)
  then have units: "set s = {0x30, 0x78} \<union> set (drop 2 s)" by (simp add: js_def)
  show "length s = 66" "0x78 \<in> set s" using s2(2) units by simp_all
  have "c \<notin> set s" if "\<not> is_hex_digit c" "c \<noteq> 0x78" "c \<noteq> 0x30" for c
    using units s2(1) that by (auto simp: list_all_iff)
  then show "newline \<notin> set s" "0x20 \<notin> set s" "0x28 \<notin> set s" "bullet \<notin> set s"
    "ellipsis \<notin> set s" "em_dash \<notin> set s" "0x3C \<notin> set s" "0x3E \<notin> set s"
    by (simp_all add: is_hex_digit_def is_digit_def newline_def bullet_def ellipsis_def em_dash_def)
qed

text \<open>The texts of a report that its alert shows.\<close>

lemma shown_texts:
  assumes "list_all P (report_texts r)"
  shows "P (k_summary r)" "P (k_deployment r)" "k_chainName r = Some a \<Longrightarrow> P a"
    "k_registry r = Some b \<Longrightarrow> P b" "k_keeper r = Some d \<Longrightarrow> P d"
    "i \<in> set (k_failures r @ k_warnings r) \<Longrightarrow> list_all P (issue_texts i)"
  using assms by (auto simp: report_texts_def list_all_iff)

definition tells :: "hex \<Rightarrow> jstring \<Rightarrow> bool" where
  "tells s t \<longleftrightarrow> sublist s t"

lemma word_hides:
  assumes "is_hex32 s" "length a < 66" "\<not> tells s t"
  shows "\<not> tells s (a @ 0x20 # t)" "\<not> tells s (0x20 # t)"
  using key_facts [OF assms(1)] assms(2,3) sublist_separated [of "0x20" s] too_short [of _ s]
  by (auto simp: tells_def) (metis append_Nil list.size(3) zero_less_numeral)

lemma short_hides: "is_hex32 s \<Longrightarrow> length t < 66 \<Longrightarrow> \<not> tells s t"
  using key_facts(1) [of s] too_short [of t s] by (simp add: tells_def)

lemma lacks_x_hides: "is_hex32 s \<Longrightarrow> 0x78 \<notin> set t \<Longrightarrow> \<not> tells s t"
  using key_facts(4) [of s] set_mono_sublist [of s t] by (auto simp: tells_def)

lemma formatIssue_hides:
  assumes "is_hex32 s" "list_all (\<lambda>t. \<not> tells s t) (issue_texts i)"
  shows "\<not> tells s (formatIssue i)"
proof -
  have hides: "\<not> tells s (issue_message i)" "issue_volumeId i = Some v \<Longrightarrow> \<not> tells s v"
    "issue_hash i = Some h \<Longrightarrow> \<not> tells s h" for v h
    using assms(2) by (auto simp: issue_texts_def)
  have "\<not> tells s ([bullet] @ js '' '' @ t)" "\<not> tells s (js ''  volume '' @ t)"
    "\<not> tells s (js ''  tx '' @ t)" if "\<not> tells s t" for t
    using word_hides(1) [OF assms(1) _ that, of "[bullet]"]
      word_hides(1) [OF assms(1) _ that, of "js ''  volume''"]
      word_hides(1) [OF assms(1) _ that, of "js ''  tx''"]
    by (simp_all add: js_def)
  then show ?thesis
    using hides key_facts(1,2) [OF assms(1)] unfolding formatIssue_def tells_def
    by (intro sublist_joined) (auto simp: truthy_Some_iff split: option.split)
qed

lemma header_hides:
  assumes "is_hex32 s" "list_all (\<lambda>t. \<not> tells s t) (report_texts r)"
    and "case k_chainId r of None \<Rightarrow> True | Some n \<Rightarrow> n < 10 ^ 21"
  shows "list_all (\<lambda>t. \<not> tells s t) (header_lines L r)"
proof -
  note shown = shown_texts [OF assms(2)]
  have label: "\<not> tells s (js ''Deployment: '' @ t)" "\<not> tells s (js ''Chain: '' @ t)"
    "\<not> tells s (js ''Registry: '' @ t)" "\<not> tells s (js ''Keeper: '' @ t)"
    if "\<not> tells s t" for t
    using word_hides(1) [OF assms(1) _ that, of "js ''Deployment:''"]
      word_hides(1) [OF assms(1) _ that, of "js ''Chain:''"]
      word_hides(1) [OF assms(1) _ that, of "js ''Registry:''"]
      word_hides(1) [OF assms(1) _ that, of "js ''Keeper:''"]
    by (simp_all add: js_def)
  have icon: "\<not> tells s (status_icon st @ js '' '' @ t)" if "\<not> tells s t" for st t
    using word_hides(1) [OF assms(1) _ that, of "status_icon st"]
    by (simp add: js_def status_icon_def)
  have number: "\<not> tells s (js ''('' @ show_number L n @ js '')'')" if "k_chainId r = Some n" for n
  proof -
    have "0x78 \<notin> set (js ''('' @ show_number L n @ js '')'')"
      using that assms(3) dec_no_x [of n] by (simp add: show_number_def js_def)
    then show ?thesis by (rule lacks_x_hides [OF assms(1)])
  qed
  have chain: "\<not> tells s (case k_chainId r of
      None \<Rightarrow> js ''unknown (CHAIN_ID unset or invalid)''
    | Some n \<Rightarrow> nullish (k_chainName r) (js ''unsupported chain'') @ js '' ('' @ show_number L n @ js '')'')"
  proof (cases "k_chainId r")
    case None
    then show ?thesis by (simp add: short_hides [OF assms(1)])
  next
    case (Some n)
    have "\<not> tells s (nullish (k_chainName r) (js ''unsupported chain''))"
      using shown(3) by (cases "k_chainName r") (simp_all add: short_hides [OF assms(1)])
    then show ?thesis using Some number [OF Some] key_facts(3) [OF assms(1)]
      sublist_separated [of "0x20" s "nullish (k_chainName r) (js ''unsupported chain'')"
        "js ''('' @ show_number L n @ js '')''"]
      by (simp add: tells_def js_def)
  qed
  have registry: "\<not> tells s (nullish (k_registry r) (js ''unset''))"
    using shown(4) by (cases "k_registry r") (simp_all add: short_hides [OF assms(1)])
  show ?thesis
    using label icon chain registry shown unfolding header_lines_def Let_def
    by (auto simp: truthy_Some_iff split: option.split)
qed

lemma alert_hides:
  assumes "is_hex32 s" "list_all (\<lambda>t. \<not> tells s t) (report_texts r)"
    and "case k_chainId r of None \<Rightarrow> True | Some n \<Rightarrow> n < 10 ^ 21"
  shows "\<not> tells s (formatTelegramMessage L r)"
proof -
  note facts = key_facts [OF assms(1)]
  have ne: "s \<noteq> []" using facts(1) by auto
  have header: "\<not> tells s (js_join [newline] (header_lines L r))"
    using sublist_joined [OF facts(2) ne] header_hides [OF assms] by (simp add: tells_def)
  have issues: "list_all (\<lambda>t. \<not> tells s t) (map formatIssue xs)"
    if "set xs \<subseteq> set (k_failures r @ k_warnings r)" for xs
  proof -
    have "\<not> tells s (formatIssue x)" if "x \<in> set (k_failures r @ k_warnings r)" for x
      by (rule formatIssue_hides [OF assms(1) shown_texts(6) [OF assms(2) that]])
    then show ?thesis using that by (auto simp: list_all_iff)
  qed
  have "list_all (\<lambda>t. \<not> tells s t) (report_blocks r)"
    using issues [of "k_failures r"] issues [of "k_warnings r"]
    by (simp add: report_blocks_def section_blocks_def short_hides [OF assms(1)])
  moreover obtain k where k: "formatTelegramMessage L r =
      js_join [newline] (header_lines L r) @ concat (map (\<lambda>b. newline # b) (take k (report_blocks r))) @
      (if k = length (report_blocks r) then [] else omitted_line (issue_blocks (drop k (report_blocks r))))"
    using fit_whole_blocks [of "report_blocks r" "js_join [newline] (header_lines L r)"]
    unfolding formatTelegramMessage_def by blast
  ultimately have body: "\<not> tells s (js_join [newline] (header_lines L r) @
      concat (map (\<lambda>b. newline # b) (take k (report_blocks r))))"
    using sublist_blocks [OF facts(2)] header unfolding tells_def
    by (metis append_take_drop_id list_all_append)
  have closing: "\<not> tells s (omitted_line n)" for n
  proof -
    have "0x78 \<notin> set (omitted_line n)"
      using dec_no_x [of n] by (simp add: omitted_line_def js_def newline_def ellipsis_def em_dash_def)
    then show ?thesis by (rule lacks_x_hides [OF assms(1)])
  qed
  show ?thesis
  proof (cases "k = length (report_blocks r)")
    case True
    then show ?thesis using body k by simp
  next
    case False
    let ?n = "issue_blocks (drop k (report_blocks r))"
    have line: "omitted_line ?n = newline # tl (omitted_line ?n)" by (simp add: omitted_line_def)
    have "\<not> sublist s (tl (omitted_line ?n))"
      using closing [of ?n] sublist_tl [of "omitted_line ?n"] sublist_order.order_trans
      unfolding tells_def by blast
    from sublist_separated [OF facts(2) body [unfolded tells_def] this]
    show ?thesis using False unfolding tells_def k by (simp flip: line)
  qed
qed

text \<open>A scrubber that knows a key hides it.\<close>

lemma scrubber_hides_key:
  assumes "is_hex32 key" "key \<in> set others"
    and "list_all (\<lambda>url. guards (redact parseUrl url) key) rpcUrls"
  shows "\<not> tells key (makeScrubber parseUrl rpcUrls others t)"
proof -
  have "guards redacted_mark key"
    using key_facts [OF assms(1)]
    by (simp add: guards_def redacted_mark_def js_includes_sublist too_short js_def)
  then show ?thesis
    using scrubbed_text_hides [OF assms(2)] assms(3) key_facts(1) [OF assms(1)]
    by (simp add: tells_def js_includes_sublist list_all_iff)
qed

section \<open>Properties\<close>

text \<open>
  C39: an alert with a header of ordinary length is within Telegram's limit, however many issues the
  run has and however long they are.
\<close>

theorem alert_within_limit:
  assumes "length (js_join [newline] (header_lines L r)) +
      length (omitted_line (length (k_failures r) + length (k_warnings r))) \<le> TELEGRAM_MAX_LENGTH"
  shows "length (formatTelegramMessage L r) \<le> TELEGRAM_MAX_LENGTH"
  using assms by (simp add: formatTelegramMessage_def fit_length issue_blocks_report)

theorem alert_within_limit_witness:
  "length (formatTelegramMessage sample_platform
     (abortedReport sample_platform 5 sample_run [js ''no endpoint'', js ''no key''] None))
   \<le> TELEGRAM_MAX_LENGTH"
  by (rule alert_within_limit)
    (simp add: abortedReport_def sample_run_def Let_def header_lines_def summarize_def plain_issue_def
      status_icon_def show_number_def TELEGRAM_MAX_LENGTH_def length_omitted_line dec.simps plural_def)

text \<open>
  An alert is its header, then whole issues and titles from the front, and it either has all of
  them or ends in the line that says how many issues are missing; the issues shown and the number
  told add up to the report's failures and warnings.
\<close>

lemma alert_accounts_for_issues:
  "\<exists>shown. prefix shown (report_blocks r) \<and>
     formatTelegramMessage L r =
       js_join [newline] (header_lines L r) @ concat (map (\<lambda>b. newline # b) shown) @
       (if shown = report_blocks r then []
        else omitted_line (length (k_failures r) + length (k_warnings r) - issue_blocks shown)) \<and>
     issue_blocks shown \<le> length (k_failures r) + length (k_warnings r)"
proof -
  let ?bs = "report_blocks r"
  obtain k where k: "k \<le> length ?bs" "formatTelegramMessage L r =
      js_join [newline] (header_lines L r) @ concat (map (\<lambda>b. newline # b) (take k ?bs)) @
      (if k = length ?bs then [] else omitted_line (issue_blocks (drop k ?bs)))"
    using fit_whole_blocks [of ?bs "js_join [newline] (header_lines L r)"]
    unfolding formatTelegramMessage_def by blast
  have "issue_blocks (take k ?bs) + issue_blocks (drop k ?bs) =
      length (k_failures r) + length (k_warnings r)"
    by (metis append_take_drop_id issue_blocks_append issue_blocks_report)
  then have "issue_blocks (drop k ?bs) =
      length (k_failures r) + length (k_warnings r) - issue_blocks (take k ?bs)" by linarith
  moreover have "issue_blocks (take k ?bs) \<le> length (k_failures r) + length (k_warnings r)"
    using \<open>issue_blocks (take k ?bs) + _ = _\<close> by linarith
  moreover have "take k ?bs = ?bs \<longleftrightarrow> k = length ?bs" using k(1)
    by (metis length_take min.absorb2 take_all_iff order_refl)
  ultimately show ?thesis using k(2)
    by (intro exI [of _ "take k ?bs"]) (simp add: take_is_prefix)
qed

text \<open>
  The summary is not bounded: an unexpected error whose text is longer than the limit gives an
  alert longer than the limit, which the API refuses.
\<close>

lemma long_problem_exceeds_limit:
  assumes "TELEGRAM_MAX_LENGTH \<le> length problem"
  shows "TELEGRAM_MAX_LENGTH <
    length (formatTelegramMessage L (abortedReport L t run [problem] es))"
proof -
  let ?r = "abortedReport L t run [problem] es"
  have "length problem < length (k_summary ?r)"
    by (simp add: abortedReport_def summarize_def plain_issue_def Let_def)
  moreover have "length (k_summary ?r) \<le> length (js_join [newline] (header_lines L ?r))"
    by (simp add: header_lines_def Let_def)
  ultimately show ?thesis using assms fit_extends unfolding formatTelegramMessage_def
    by (meson le_less_trans less_le_trans order_trans)
qed

lemma long_problem_exceeds_limit_witness:
  "TELEGRAM_MAX_LENGTH < length (formatTelegramMessage sample_platform
     (abortedReport sample_platform 5 sample_run [replicate 4096 0x61] None))"
  by (rule long_problem_exceeds_limit) (simp add: TELEGRAM_MAX_LENGTH_def)

text \<open>
  An alert never tells the private key. Whatever went wrong and whatever the texts of the report
  say, the message rendered from the scrubbed report does not hold the key: it is in none of the
  scrubbed texts, and joining them with the message's own words does not make it.
\<close>

lemma alert_hides_private_key:
  assumes "is_hex32 key" and "key \<in> set others"
    and "list_all (\<lambda>url. guards (redact parseUrl url) key) rpcUrls"
    and "case k_chainId k of None \<Rightarrow> True | Some n \<Rightarrow> n < 10 ^ 21"
  shows "\<not> js_includes key
    (formatTelegramMessage L (scrubReport k (makeScrubber parseUrl rpcUrls others)))"
proof -
  let ?f = "makeScrubber parseUrl rpcUrls others"
  have "\<not> tells key (?f t)" for t by (rule scrubber_hides_key [OF assms(1-3)])
  then have "list_all (\<lambda>t. \<not> tells key t) (report_texts (scrubReport k ?f))"
    by (simp add: scrubbed_texts list_all_iff)
  moreover have "k_chainId (scrubReport k ?f) = k_chainId k" by (simp add: scrubReport_def)
  ultimately show ?thesis using alert_hides [OF assms(1)] assms(4)
    by (simp add: tells_def js_includes_sublist)
qed

definition sample_key :: hex where
  "sample_key = js ''0x'' @ replicate 64 0x61"

theorem alert_hides_private_key_witness:
  "\<not> js_includes sample_key
     (formatTelegramMessage sample_platform
       (scrubReport (abortedReport sample_platform 5 sample_run [js ''bad key '' @ sample_key] None)
         (makeScrubber sample_parse_url [sample_url] [sample_key])))"
proof (rule alert_hides_private_key)
  show "is_hex32 sample_key"
    by (simp add: is_hex32_def sample_key_def js_starts_with_def is_hex_digit_def list_all_iff)
  show "list_all (\<lambda>url. guards (redact sample_parse_url url) sample_key) [sample_url]"
    by (simp add: guards_def redact_def sample_parse_url_def ellipsis_def js_def sample_key_def
        js_includes_sublist too_short sample_url_def)
qed (simp_all add: abortedReport_def sample_run_def Let_def)

end
