(* ===== verification/KeeperWorker.thy ===== *)
theory KeeperWorker
  imports TelegramAlert
begin

text \<open>
  \<open>services/keeper/src/index.ts\<close>: the Worker. \<open>runCycle\<close> probes, runs a cycle and reports;
  \<open>runScheduled\<close> is a scheduled run from the bindings to the alert; \<open>scheduled\<close> and \<open>handle_fetch\<close> are
  the Worker's two handlers.

  Everything outside the program is a field of the record \<open>worker\<close>: the clock, the network of the
  probe, viem's account and client (whose making may throw: the shape of a key does not make it a
  valid one), the HTTP stack, the console and the controller.
\<close>

section \<open>The Worker's world\<close>

text \<open>What the Worker writes to the console: a report at its level, or a failed notification.\<close>

datatype console_line =
    ReportLine log_level keeper_report
  | NotifyFailedLine jstring jstring jstring

record 'w worker =
  wk_platform :: platform
  wk_viem :: viem
  wk_net :: "'w probe_net"
  wk_now :: "'w \<Rightarrow> millis \<times> 'w"
  wk_account :: "hex \<Rightarrow> exn + address"
  wk_client :: "client_options \<Rightarrow> exn + 'w client"
  wk_fetch :: "telegram_request \<Rightarrow> ('w, fetch_response) effect"
  wk_print :: "console_line \<Rightarrow> 'w \<Rightarrow> 'w"
  wk_noRetry :: "'w \<Rightarrow> 'w"
  wk_not_a_function :: jstring

section \<open>A cycle\<close>

definition cycle_params_of :: "config \<Rightarrow> cycle_params" where
  "cycle_params_of c =
     \<lparr>cp_registry = cfg_registry c, cp_mode = Some (cfg_mode c),
      cp_pageSize = Some (int (lim_pageSize (cfg_limits c))),
      cp_maxVolumesPerCycle = Some (lim_maxVolumesPerCycle (cfg_limits c)),
      cp_gasPercent = None, cp_gasFloor = None,
      cp_confirmations = Some (lim_confirmations (cfg_limits c)),
      cp_receiptTimeout = Some (lim_receiptTimeoutMs (cfg_limits c)),
      cp_cycleTimeout = Some (lim_cycleTimeoutMs (cfg_limits c)),
      cp_dryRun = Some (cfg_dryRun c)\<rparr>"

definition usable_endpoints :: "endpoint_health list \<Rightarrow> jstring list" where
  "usable_endpoints endpoints = map eh_url (filter eh_ok endpoints)"

definition no_endpoint_problems :: "platform \<Rightarrow> endpoint_health list \<Rightarrow> jstring list" where
  "no_endpoint_problems L endpoints =
     [js ''no usable RPC endpoint: all '' @ dec (length endpoints) @ js '' failed the pre-flight check''] @
     map issue_message (endpointWarnings L endpoints)"

definition cycle_input ::
  "run_input \<Rightarrow> config \<Rightarrow> address \<Rightarrow> endpoint_health list \<Rightarrow> cycle_result \<Rightarrow> nat option \<Rightarrow>
     cycle_report_input" where
  "cycle_input run c keeper endpoints result balanceWei =
     \<lparr>ri_identity = ri_identity run, ri_cron = ri_cron run,
      ri_scheduledTime = ri_scheduledTime run, ri_startedAt = ri_startedAt run,
      ci_chain = cfg_chain c, ci_keeper = keeper, ci_dryRun = cfg_dryRun c,
      ci_endpoints = endpoints, ci_result = result, ci_balanceWei = balanceWei,
      ci_minBalanceWei = cfg_minBalanceWei c\<rparr>"

definition runCycle :: "'w worker \<Rightarrow> config \<Rightarrow> run_input \<Rightarrow> ('w, keeper_report) effect" where
  "runCycle W c run w =
     (let L = wk_platform W;
          (endpoints, w1) = probeEndpoints (wk_net W) L (cfg_endpoints c) (cfg_chain c)
                              PROBE_TIMEOUT_MS w;
          usable = usable_endpoints endpoints
      in if length usable = 0 then
           (let (t, w2) = wk_now W w1
            in (Inr (abortedReport L t run (no_endpoint_problems L endpoints) (Some endpoints)), w2))
         else
           (case wk_client W (buildClient (cfg_chain c) (cfg_privateKey c) usable) of
              Inl e \<Rightarrow> (Inl e, w1)
            | Inr client \<Rightarrow>
                (let (result, w2) = runKeeperCycle client (wk_viem W) (cycle_params_of c) w1;
                     (balance, w3) = get_balance client (client_address client) w2;
                     balanceWei = (case balance of Inl _ \<Rightarrow> None | Inr b \<Rightarrow> Some b);
                     (t, w4) = wk_now W w3
                 in (Inr (cycleReport L t
                       (cycle_input run c (client_address client) endpoints result balanceWei)), w4))))"

section \<open>A scheduled run\<close>

text \<open>\<open>(env.RPC_URL ?? "").split\<close> throws where the binding is neither a text nor missing.\<close>

definition raw_rpc_urls :: "'w worker \<Rightarrow> env \<Rightarrow> exn + jstring list" where
  "raw_rpc_urls W env =
     (case env RPC_URL of
        None \<Rightarrow> Inr (env_list [])
      | Some (EnvText s) \<Rightarrow> Inr (env_list s)
      | Some EnvOther \<Rightarrow> Inl (ErrorObject (wk_not_a_function W)))"

text \<open>\<open>env[key] ?? ""\<close> as a secret to mask; what is not a text has no eight units to look for.\<close>

definition raw_secret :: "env \<Rightarrow> env_key \<Rightarrow> jstring" where
  "raw_secret env key = (case env key of Some (EnvText s) \<Rightarrow> s | _ \<Rightarrow> [])"

definition run_scrubber :: "'w worker \<Rightarrow> env \<Rightarrow> jstring list \<Rightarrow> jstring \<Rightarrow> jstring" where
  "run_scrubber W env rpcUrls =
     makeScrubber (parse_url (wk_platform W)) rpcUrls
       [raw_secret env TELEGRAM_BOT_TOKEN, raw_secret env PRIVATE_KEY]"

text \<open>The \<open>try\<close> and its \<open>catch\<close>: the report of the run, and whether warnings are alerted on.\<close>

definition attempt_run ::
  "'w worker \<Rightarrow> env \<Rightarrow> run_input \<Rightarrow> 'w \<Rightarrow> bool \<times> keeper_report \<times> 'w" where
  "attempt_run W env run w =
     (let L = wk_platform W in
      case readConfig L env of
        Inl problems \<Rightarrow>
          (let (t, w1) = wk_now W w in (False, abortedReport L t run problems None, w1))
      | Inr c \<Rightarrow>
          (case runCycle W c run w of
             (Inl e, w1) \<Rightarrow>
               (let (t, w2) = wk_now W w1
                in (cfg_notifyWarnings c,
                    abortedReport L t run [js ''unexpected error: '' @ exn_message e] None, w2))
           | (Inr report, w1) \<Rightarrow> (cfg_notifyWarnings c, report, w1)))"

text \<open>From the scrubbed report on: the log, and the alert where the report warrants one.\<close>

definition deliver ::
  "'w worker \<Rightarrow> env \<Rightarrow> (jstring \<Rightarrow> jstring) \<Rightarrow> bool \<Rightarrow> keeper_report \<Rightarrow> 'w \<Rightarrow> 'w" where
  "deliver W env scrub notifyWarnings report w =
     (let (level, line) = logReport report;
          w1 = wk_print W (ReportLine level line) w
      in case readTelegramConfig env of
           None \<Rightarrow> w1
         | Some telegram \<Rightarrow>
             if shouldNotify report notifyWarnings then
               (let (result, w2) = sendTelegram (wk_fetch W) telegram
                      (formatTelegramMessage (wk_platform W) report) 10000 w1
                in if \<not> sr_sent result then
                     wk_print W (NotifyFailedLine (k_deployment report) (k_status report)
                       (scrub (nullish (sr_reason result) (js ''unknown'')))) w2
                   else w2)
             else w1)"

definition runScheduled ::
  "'w worker \<Rightarrow> env \<Rightarrow> jstring option \<Rightarrow> millis option \<Rightarrow> ('w, keeper_report) effect" where
  "runScheduled W env cron scheduledTime w =
     (let (startedAt, w1) = wk_now W w;
          run = \<lparr>ri_identity = readIdentity (wk_platform W) env, ri_cron = cron,
                 ri_scheduledTime = scheduledTime, ri_startedAt = startedAt\<rparr>
      in case raw_rpc_urls W env of
           Inl e \<Rightarrow> (Inl e, w1)
         | Inr rpcUrls \<Rightarrow>
             (let scrub = run_scrubber W env rpcUrls;
                  (notifyWarnings, raw, w2) = attempt_run W env run w1;
                  report = scrubReport raw scrub
              in (Inr report, deliver W env scrub notifyWarnings report w2)))"

section \<open>The handlers\<close>

text \<open>\<open>KeeperRunFailed\<close> is an \<open>Error\<close>; of the class, a caller sees the message.\<close>

definition KeeperRunFailed :: "jstring \<Rightarrow> exn" where
  "KeeperRunFailed summary = ErrorObject summary"

declare KeeperRunFailed_def [simp]

definition scheduled ::
  "'w worker \<Rightarrow> env \<Rightarrow> jstring \<Rightarrow> millis \<Rightarrow> ('w, unit) effect" where
  "scheduled W env cron scheduledTime w =
     (case runScheduled W env (Some cron) (Some scheduledTime) (wk_noRetry W w) of
        (Inl e, w1) \<Rightarrow> (Inl e, w1)
      | (Inr report, w1) \<Rightarrow>
          (if k_status report = js ''failure'' then Inl (KeeperRunFailed (k_summary report)) else Inr (), w1))"

datatype health_response =
    NotFound
  | Configured jstring nat jstring address address bool
  | Misconfigured deployment_identity "jstring list"

fun response_status :: "health_response \<Rightarrow> nat" where
  "response_status NotFound = 404"
| "response_status (Configured _ _ _ _ _ _) = 200"
| "response_status (Misconfigured _ _) = 503"

text \<open>\<open>GET /health\<close>, given the path of the request's URL.\<close>

definition handle_fetch :: "'w worker \<Rightarrow> env \<Rightarrow> jstring \<Rightarrow> exn + health_response" where
  "handle_fetch W env pathname =
     (if pathname \<noteq> js ''/health'' then Inr NotFound
      else
        case readConfig (wk_platform W) env of
          Inl problems \<Rightarrow> Inr (Misconfigured (readIdentity (wk_platform W) env) problems)
        | Inr c \<Rightarrow>
            (case wk_account W (cfg_privateKey c) of
               Inl e \<Rightarrow> Inl e
             | Inr keeper \<Rightarrow>
                 Inr (Configured (cfg_deployment c) (chain_id (cfg_chain c)) (chain_name (cfg_chain c))
                   (cfg_registry c) keeper (cfg_dryRun c))))"

end
