(* ===== verification/WalletProtocol.thy ===== *)
theory WalletProtocol
  imports CycleSchedule
begin

text \<open>
  How a cycle uses its wallet. A client is observed by recording, beside the world, the calls that
  touch the wallet: the nonce reads, the transactions handed to \<open>writeContract\<close> with what came
  back, and the receipt waits. The discipline the comments of \<open>runKeeperCycle.ts\<close> describe is a
  state machine over these events: a transaction carries the nonce last read plus the number of
  transactions since, one transaction is outstanding at a time, and after any failure the nonce is
  read again before anything is sent.
\<close>

section \<open>Observing a client\<close>

datatype wallet_event =
    NonceRead "nat option"
  | SendTried tx_request "hex option"
  | ReceiptAwaited hex bool

fun ok_of :: "exn + 'a \<Rightarrow> 'a option" where
  "ok_of (Inl _) = None"
| "ok_of (Inr x) = Some x"

type_synonym 'w observed = "'w \<times> wallet_event list"

text \<open>A call that leaves no trace, and one whose answer is recorded.\<close>

definition silent :: "('w \<Rightarrow> 'a \<times> 'w) \<Rightarrow> 'w \<times> 'l \<Rightarrow> 'a \<times> ('w \<times> 'l)" where
  "silent f = (\<lambda>(w, l). let (x, w') = f w in (x, (w', l)))"

definition recorded ::
  "('a \<Rightarrow> wallet_event) \<Rightarrow> ('w \<Rightarrow> 'a \<times> 'w) \<Rightarrow> 'w observed \<Rightarrow> 'a \<times> 'w observed" where
  "recorded ev f = (\<lambda>(w, l). let (x, w') = f w in (x, (w', l @ [ev x])))"

definition observe :: "'w client \<Rightarrow> 'w observed client" where
  "observe C =
     \<lparr>client_address = client_address C,
      client_chainId = client_chainId C,
      date_now = silent (date_now C),
      get_block_number = silent (get_block_number C),
      read_active_count = (\<lambda>r b. silent (read_active_count C r b)),
      multicall_active_pages = (\<lambda>r b c. silent (multicall_active_pages C r b c)),
      multicall_volumes = (\<lambda>r b c. silent (multicall_volumes C r b c)),
      get_transaction_count =
        (\<lambda>a. recorded (\<lambda>x. NonceRead (ok_of x)) (get_transaction_count C a)),
      get_block = silent (get_block C),
      estimate_priority_fee = silent (estimate_priority_fee C),
      simulate_trigger = (\<lambda>r v. silent (simulate_trigger C r v)),
      estimate_trigger_gas = (\<lambda>r v. silent (estimate_trigger_gas C r v)),
      write_contract = (\<lambda>tx. recorded (\<lambda>x. SendTried tx (ok_of x)) (write_contract C tx)),
      wait_for_receipt =
        (\<lambda>h c t. recorded (\<lambda>x. ReceiptAwaited h (\<not> is_Inl x)) (wait_for_receipt C h c t)),
      get_balance = (\<lambda>a. silent (get_balance C a))\<rparr>"

section \<open>The wallet's state machine\<close>

text \<open>
  \<open>Unread\<close>: no nonce is known. \<open>Ready n\<close>: the next transaction carries nonce \<open>n\<close>.
  \<open>Pending n h\<close>: \<open>h\<close> was accepted and its receipt is waited for; \<open>n\<close> comes after it.
\<close>

datatype wallet = Unread | Ready nat | Pending nat hex

inductive wallet_step :: "wallet \<Rightarrow> wallet_event \<Rightarrow> wallet \<Rightarrow> bool" where
  read: "wallet_step Unread (NonceRead (Some n)) (Ready n)"
| read_failed: "wallet_step Unread (NonceRead None) Unread"
| reread: "wallet_step (Ready m) (NonceRead (Some n)) (Ready n)"
| reread_failed: "wallet_step (Ready m) (NonceRead None) Unread"
| accepted: "tx_nonce tx = Some n \<Longrightarrow> wallet_step (Ready n) (SendTried tx (Some h)) (Pending (Suc n) h)"
| rejected: "tx_nonce tx = Some n \<Longrightarrow> wallet_step (Ready n) (SendTried tx None) Unread"
| mined: "wallet_step (Pending n h) (ReceiptAwaited h True) (Ready n)"
| unmined: "wallet_step (Pending n h) (ReceiptAwaited h False) Unread"

inductive_cases wallet_stepE [elim!]:
  "wallet_step s (NonceRead x) t" "wallet_step s (SendTried tx x) t"
  "wallet_step s (ReceiptAwaited h b) t"

inductive_simps wallet_step_simps [simp]:
  "wallet_step Unread (NonceRead x) t" "wallet_step (Ready n) (NonceRead x) t"
  "wallet_step (Ready n) (SendTried tx x) t" "wallet_step (Pending n h) (ReceiptAwaited k b) t"
  "wallet_step Unread (SendTried tx x) t" "wallet_step (Pending n h) (SendTried tx x) t"

inductive wallet_run :: "wallet \<Rightarrow> wallet_event list \<Rightarrow> wallet \<Rightarrow> bool" where
  empty: "wallet_run s [] s"
| step: "wallet_step s e t \<Longrightarrow> wallet_run t es u \<Longrightarrow> wallet_run s (e # es) u"

inductive_simps wallet_run_simps [simp]:
  "wallet_run s [] t" "wallet_run s (e # es) t"

lemma wallet_run_append:
  "wallet_run s es t \<Longrightarrow> wallet_run t fs u \<Longrightarrow> wallet_run s (es @ fs) u"
  by (induction rule: wallet_run.induct) auto

text \<open>The machine is deterministic, so a log has at most one end state.\<close>

lemma wallet_step_det: "wallet_step s e t \<Longrightarrow> wallet_step s e u \<Longrightarrow> t = u"
  by (induction rule: wallet_step.induct) (auto elim: wallet_step.cases)

text \<open>What the machine forbids: two transactions with the same nonce and no read between them.\<close>

fun sends :: "wallet_event list \<Rightarrow> tx_request list" where
  "sends [] = []"
| "sends (SendTried tx x # es) = tx # sends es"
| "sends (_ # es) = sends es"

lemma sends_append [simp]: "sends (es @ fs) = sends es @ sends fs"
  by (induction es rule: sends.induct) auto

section \<open>The cycle follows it\<close>

text \<open>What the cycle knows of the nonce, as a wallet state.\<close>

definition knows :: "sending option \<Rightarrow> wallet \<Rightarrow> bool" where
  "knows s st = (case s of
     Some x \<Rightarrow> st = Ready (snd_nonce x)
   | None \<Rightarrow> st = Unread \<or> (\<exists>n. st = Ready n))"

lemma knows_simps [simp]:
  "knows (Some x) st \<longleftrightarrow> st = Ready (snd_nonce x)"
  "knows None Unread" "knows None (Ready n)"
  by (simp_all add: knows_def)

text \<open>A call appends events that take the wallet on.\<close>

definition extends ::
  "wallet \<Rightarrow> wallet_event list \<Rightarrow> wallet_event list \<Rightarrow> (wallet \<Rightarrow> bool) \<Rightarrow> bool" where
  "extends st l l' Q \<longleftrightarrow> (\<exists>es st'. l' = l @ es \<and> wallet_run st es st' \<and> Q st')"

lemma extends_refl: "Q st \<Longrightarrow> extends st l l Q"
  unfolding extends_def by (intro exI [of _ "[]"] exI [of _ st]) auto

lemma extends_trans:
  assumes "extends st l l1 Q" and "\<And>st1. Q st1 \<Longrightarrow> extends st1 l1 l2 R"
  shows "extends st l l2 R"
proof -
  from assms(1) obtain es st1 where "l1 = l @ es" "wallet_run st es st1" "Q st1"
    unfolding extends_def by blast
  moreover from assms(2) [OF this(3)] obtain fs st2 where
    "l2 = l1 @ fs" "wallet_run st1 fs st2" "R st2" unfolding extends_def by blast
  ultimately show ?thesis unfolding extends_def
    by (intro exI [of _ "es @ fs"] exI [of _ st2]) (auto intro: wallet_run_append)
qed

lemma readSending_wallet:
  assumes "readSending (observe C) (w, l) = (x, (w', l'))" and "knows None st"
  shows "extends st l l' (knows (ok_of x))"
proof -
  obtain n w1 where n: "get_transaction_count C (client_address C) w = (n, w1)" by (metis surj_pair)
  have l': "l' = l @ [NonceRead (ok_of n)]"
    using assms(1) by (auto simp: readSending_def observe_def silent_def recorded_def n Let_def
        split: prod.splits)
  have x: "ok_of x = None \<or> (\<exists>s k. ok_of x = Some s \<and> n = Inr k \<and> snd_nonce s = k)"
    using assms(1) by (auto simp: readSending_def observe_def silent_def recorded_def n Let_def
        split: prod.splits sum.splits)
  define st' where "st' = (case ok_of n of None \<Rightarrow> Unread | Some k \<Rightarrow> Ready k)"
  have "wallet_step st (NonceRead (ok_of n)) st'"
    using assms(2) by (cases st; cases n) (auto simp: st'_def knows_def)
  moreover have "knows (ok_of x) st'" using x
    by (cases n) (auto simp: st'_def)
  ultimately show ?thesis unfolding extends_def l'
    by (intro exI [of _ "[NonceRead (ok_of n)]"] exI [of _ st']) auto
qed

lemma trigger_wallet:
  assumes "trigger (observe C) (trigger_args P v s) (w, l) = (x, (w', l'))"
  shows "extends (Ready (snd_nonce s)) l l'
    (\<lambda>st. case x of Inr h \<Rightarrow> st = Pending (Suc (snd_nonce s)) h | Inl _ \<Rightarrow> knows None st)"
proof (cases "estimate_trigger_gas C (cp_registry P) v w")
  case (Pair g w1)
  show ?thesis
  proof (cases g)
    case (Inl e)
    then have "x = Inl e \<and> l' = l" using assms Pair
      by (auto simp: trigger_def trigger_gas_def trigger_args_def observe_def silent_def)
    then show ?thesis by (auto intro!: extends_refl)
  next
    case (Inr estimate)
    define tx where "tx = \<lparr>tx_registry = cp_registry P, tx_volumeId = v,
      tx_gas = gas_limit (trigger_args P v s) estimate, tx_chainId = client_chainId C,
      tx_nonce = Some (snd_nonce s), tx_maxFeePerGas = Some (snd_maxFeePerGas s),
      tx_maxPriorityFeePerGas = Some (snd_maxPriorityFeePerGas s)\<rparr>"
    have "trigger_gas (observe C) (trigger_args P v s) (w, l) =
        (Inr (gas_limit (trigger_args P v s) estimate), (w1, l))"
      by (rule trigger_gas_estimated) (auto simp: trigger_args_def observe_def silent_def Pair Inr)
    then have "recorded (\<lambda>x. SendTried tx (ok_of x)) (write_contract C tx) (w1, l) = (x, (w', l'))"
      using assms by (simp add: trigger_def) (simp add: trigger_args_def tx_def observe_def)
    then have "l' = l @ [SendTried tx (ok_of x)]"
      by (auto simp: recorded_def Let_def split: prod.splits)
    then show ?thesis unfolding extends_def
      by (intro exI [of _ "[SendTried tx (ok_of x)]"]
          exI [of _ "case x of Inr h \<Rightarrow> Pending (Suc (snd_nonce s)) h | Inl _ \<Rightarrow> Unread"])
        (cases x; simp add: tx_def)
  qed
qed

lemma wait_wallet:
  assumes "wait_for_receipt (observe C) h c t (w, l) = (x, (w', l'))"
  shows "extends (Pending n h) l l' (\<lambda>st. if is_Inl x then st = Unread else st = Ready n)"
proof -
  have "l' = l @ [ReceiptAwaited h (\<not> is_Inl x)]"
    using assms by (auto simp: observe_def recorded_def Let_def split: prod.splits)
  then show ?thesis unfolding extends_def
    by (intro exI [of _ "[ReceiptAwaited h (\<not> is_Inl x)]"]
        exI [of _ "if is_Inl x then Unread else Ready n"]) auto
qed

lemma knows_None: "knows s st \<Longrightarrow> knows None st"
  by (cases s) auto

lemma ensure_wallet:
  assumes "ensure_sending (observe C) s (w, l) = (x, (w', l'))" and "knows s st"
  shows "extends st l l' (knows (ok_of x))"
proof (cases s)
  case None
  then show ?thesis using assms readSending_wallet by (simp add: ensure_sending_def)
next
  case (Some y)
  then show ?thesis using assms by (auto simp: ensure_sending_def intro: extends_refl)
qed

lemma sendOne_wallet:
  assumes "sendOne (observe C) V P v s r (w, l) = (vr, s', r', (w', l'))" and "knows s st"
  shows "extends st l l' (knows s')"
proof (cases "nullish (cp_dryRun P) False")
  case True
  then have "l' = l \<and> (s' = s \<or> s' = None)"
    using assms(1) by (auto simp: sendOne_def observe_def silent_def Let_def split: prod.splits sum.splits)
  then show ?thesis using assms(2) by (auto intro!: extends_refl dest: knows_None)
next
  case False
  obtain x w1 l1 where e: "ensure_sending (observe C) s (w, l) = (x, (w1, l1))" by (metis prod_cases3)
  note ext1 = ensure_wallet [OF e assms(2)]
  show ?thesis
  proof (cases x)
    case (Inl err)
    then show ?thesis using assms(1) False e ext1 by (auto simp: sendOne_def)
  next
    case (Inr y)
    obtain h w2 l2 where t: "trigger (observe C) (trigger_args P v y) (w1, l1) = (h, (w2, l2))"
      by (metis prod_cases3)
    have ext2: "extends st l l2 (\<lambda>st. case h of Inr h \<Rightarrow> st = Pending (Suc (snd_nonce y)) h
        | Inl _ \<Rightarrow> knows None st)"
      using ext1 trigger_wallet [OF t] Inr by (auto elim!: extends_trans)
    show ?thesis
    proof (cases h)
      case (Inl err)
      then show ?thesis using assms(1) False e Inr t ext2 by (auto simp: sendOne_def)
    next
      case (Inr hash)
      obtain rc w3 l3 where q: "wait_for_receipt (observe C) hash (nullish (cp_confirmations P) 1)
          (nullish (cp_receiptTimeout P) 60000) (w2, l2) = (rc, (w3, l3))" by (metis prod_cases3)
      have "extends st l l3 (\<lambda>st. if is_Inl rc then st = Unread else st = Ready (Suc (snd_nonce y)))"
        by (rule extends_trans [OF ext2])
          (use wait_wallet [OF q, of "Suc (snd_nonce y)"] Inr in simp)
      moreover have "l' = l3 \<and> s' = (if is_Inl rc then None
          else Some (y\<lparr>snd_nonce := snd_nonce y + 1\<rparr>))"
        using assms(1) False e \<open>x = Inr y\<close> t Inr q
        by (auto simp: sendOne_def Let_def split: sum.splits if_splits)
      ultimately show ?thesis by (auto simp: extends_def split: if_splits)
    qed
  qed
qed

lemma loop_wallet:
  assumes "cycle_loop (sendOne (observe C) V P) (date_now (observe C)) deadline i ids s r (w, l)
      = (r', (w', l'))"
    and "knows s st"
  shows "extends st l l' (\<lambda>_. True)"
  using assms
proof (induction ids arbitrary: i s r w l st)
  case Nil
  then show ?case by (auto intro: extends_refl)
next
  case (Cons v ids)
  have clock: "snd (date_now (observe C) (w, l)) = (snd (date_now C w), l)"
    by (simp add: observe_def silent_def split: prod.split)
  from Cons.prems(1) show ?case
  proof (cases rule: cycle_loop_cases)
    case late
    then show ?thesis by (auto simp: clock intro: extends_refl)
  next
    case (turn w1 vr s1 r1 w2)
    then obtain x y z where w: "w1 = (x, l)" "w2 = (y, z)"
      by (cases w2) (auto simp: clock split: if_splits)
    have "extends st l z (knows s1)" 
      by (rule sendOne_wallet [OF turn(3) [unfolded w] Cons.prems(2)])
    moreover have "extends st1 z l' (\<lambda>_. True)" if "knows s1 st1" for st1
      by (rule Cons.IH [OF turn(4) [unfolded w] that])
    ultimately show ?thesis by (rule extends_trans)
  qed
qed

section \<open>Observing changes nothing\<close>

definition same_turn :: "'w observed turn \<Rightarrow> 'w turn \<Rightarrow> bool" where
  "same_turn x y \<longleftrightarrow> (case x of (v, s, r, wl) \<Rightarrow> y = (v, s, r, fst wl))"

lemma silent_apply: "silent f (w, l) = (fst (f w), (snd (f w), l))"
  by (simp add: silent_def split: prod.split)

lemma recorded_apply: "recorded ev f (w, l) = (fst (f w), (snd (f w), l @ [ev (fst (f w))]))"
  by (simp add: recorded_def split: prod.split)

lemma observe_reads [simp]:
  "date_now (observe C) (w, l) = (fst (date_now C w), (snd (date_now C w), l))"
  "get_block_number (observe C) (w, l) = (fst (get_block_number C w), (snd (get_block_number C w), l))"
  "read_active_count (observe C) a b (w, l) =
     (fst (read_active_count C a b w), (snd (read_active_count C a b w), l))"
  "multicall_active_pages (observe C) a b c (w, l) =
     (fst (multicall_active_pages C a b c w), (snd (multicall_active_pages C a b c w), l))"
  "multicall_volumes (observe C) a b d (w, l) =
     (fst (multicall_volumes C a b d w), (snd (multicall_volumes C a b d w), l))"
  "client_address (observe C) = client_address C"
  "client_chainId (observe C) = client_chainId C"
  by (simp_all add: observe_def silent_apply)

lemma observe_calls [simp]:
  "get_block (observe C) (w, l) = (fst (get_block C w), (snd (get_block C w), l))"
  "estimate_priority_fee (observe C) (w, l) =
     (fst (estimate_priority_fee C w), (snd (estimate_priority_fee C w), l))"
  "simulate_trigger (observe C) a v (w, l) =
     (fst (simulate_trigger C a v w), (snd (simulate_trigger C a v w), l))"
  "estimate_trigger_gas (observe C) a v (w, l) =
     (fst (estimate_trigger_gas C a v w), (snd (estimate_trigger_gas C a v w), l))"
  "get_transaction_count (observe C) a (w, l) =
     (fst (get_transaction_count C a w), (snd (get_transaction_count C a w),
      l @ [NonceRead (ok_of (fst (get_transaction_count C a w)))]))"
  "write_contract (observe C) tx (w, l) =
     (fst (write_contract C tx w), (snd (write_contract C tx w),
      l @ [SendTried tx (ok_of (fst (write_contract C tx w)))]))"
  "wait_for_receipt (observe C) h c t (w, l) =
     (fst (wait_for_receipt C h c t w), (snd (wait_for_receipt C h c t w),
      l @ [ReceiptAwaited h (\<not> is_Inl (fst (wait_for_receipt C h c t w)))]))"
  by (simp_all add: observe_def silent_apply recorded_apply)

lemma collectActiveVolumes_observe:
  "collectActiveVolumes (observe C) a k b (w, l) =
     (fst (collectActiveVolumes C a k b w), (snd (collectActiveVolumes C a k b w), l))"
  by (simp add: collectActiveVolumes_def getActiveVolumeCount_def Let_def case_prod_beta
      split: sum.split)

lemma collectIds_observe:
  "collectIds (observe C) P b r (w, l) =
     (fst (collectIds C P b r w), fst (snd (collectIds C P b r w)),
      (snd (snd (collectIds C P b r w)), l))"
  by (simp add: collectIds_def collectActiveVolumes_observe Let_def case_prod_beta
      split: keeper_mode.split sum.split)

lemma ensure_observe:
  "\<exists>l'. ensure_sending (observe C) s (w, l) =
     (fst (ensure_sending C s w), (snd (ensure_sending C s w), l'))"
  by (simp add: ensure_sending_def readSending_def Let_def case_prod_beta
      split: option.split sum.split)

lemma trigger_gas_observe:
  "trigger_gas (observe C) p (w, l) = (fst (trigger_gas C p w), (snd (trigger_gas C p w), l))"
  by (simp add: trigger_gas_def case_prod_beta Let_def split: option.split sum.split)

lemma trigger_observe:
  "\<exists>l'. trigger (observe C) p (w, l) = (fst (trigger C p w), (snd (trigger C p w), l'))"
  by (simp add: trigger_def trigger_gas_observe case_prod_beta split: sum.split)

lemma sendOne_observe:
  "same_turn (sendOne (observe C) V P v s r (w, l)) (sendOne C V P v s r w)"
proof (cases "nullish (cp_dryRun P) False")
  case True
  then show ?thesis
    by (simp add: same_turn_def sendOne_def case_prod_beta split: sum.split)
next
  case False
  obtain x w1 where e: "ensure_sending C s w = (x, w1)" by (metis surj_pair)
  with ensure_observe [of C s w l] obtain l1 where
    e': "ensure_sending (observe C) s (w, l) = (x, (w1, l1))" by auto
  show ?thesis
  proof (cases x)
    case (Inl err)
    then show ?thesis using False by (simp add: sendOne_def e e' same_turn_def)
  next
    case (Inr y)
    obtain h w2 where t: "trigger C (trigger_args P v y) w1 = (h, w2)" by (metis surj_pair)
    with trigger_observe [of C "trigger_args P v y" w1 l1] obtain l2 where
      t': "trigger (observe C) (trigger_args P v y) (w1, l1) = (h, (w2, l2))" by auto
    show ?thesis using False
      by (simp add: sendOne_def e e' t t' Inr same_turn_def case_prod_beta Let_def split: sum.split)
  qed
qed

lemma loop_observe:
  "(\<lambda>(r, wl). (r, fst wl))
     (cycle_loop (sendOne (observe C) V P) (date_now (observe C)) deadline i ids s r (w, l)) =
   cycle_loop (sendOne C V P) (date_now C) deadline i ids s r w"
proof (induction ids arbitrary: i s r w l)
  case Nil
  then show ?case by simp
next
  case (Cons v ids)
  have turn: "\<exists>a b c d e. sendOne (observe C) V P v s r (x, l) = (a, b, c, (d, e)) \<and>
      sendOne C V P v s r x = (a, b, c, d)" for x
    using sendOne_observe [of C V P v s r x l]
    by (cases "sendOne (observe C) V P v s r (x, l)") (auto simp: same_turn_def)
  show ?case
    using Cons.IH turn [of w] turn [of "snd (date_now C w)"]
    by (cases "0 < i \<and> deadline < fst (date_now C w)") (auto simp: case_prod_beta)
qed

lemma attempt_all_observe:
  "(\<lambda>(r, wl). (r, fst wl)) (attempt_all (observe C) V P t b ids r (w, l)) =
   attempt_all C V P t b ids r w"
  using loop_observe [of C V P] by (simp add: attempt_all_def Let_def)

lemma run_observe:
  "(\<lambda>(r, wl). (r, fst wl)) (runKeeperCycle (observe C) V P (w, l)) = runKeeperCycle C V P w"
proof -
  have body: "(\<lambda>(e, r, wl). (e, r, fst wl)) (cycle_body (observe C) V P t r (w, l)) =
      cycle_body C V P t r w" for t r w
    using attempt_all_observe [of C V P t]
    by (simp add: cycle_body_def collectIds_observe case_prod_beta split: sum.split)
  obtain e r w1 l1 where b: "cycle_body (observe C) V P (fst (date_now C w)) (initial_result P)
      (snd (date_now C w), l) = (e, r, (w1, l1))" by (metis prod_cases4)
  with body [of "fst (date_now C w)" "initial_result P" "snd (date_now C w)"]
  have "cycle_body C V P (fst (date_now C w)) (initial_result P) (snd (date_now C w)) = (e, r, w1)"
    by simp
  then show ?thesis using b
    by (cases e) (simp_all add: runKeeperCycle_def Let_def case_prod_beta)
qed

section \<open>What is sent\<close>

definition fees_ok :: "sending option \<Rightarrow> bool" where
  "fees_ok s \<longleftrightarrow> (case s of None \<Rightarrow> True | Some x \<Rightarrow> snd_maxPriorityFeePerGas x \<le> snd_maxFeePerGas x)"

text \<open>A transaction for volume \<open>v\<close>: to the registry, with the gas floor and a fee cap above the tip.\<close>

definition tx_ok :: "cycle_params \<Rightarrow> hex \<Rightarrow> tx_request \<Rightarrow> bool" where
  "tx_ok P v tx \<longleftrightarrow>
     tx_registry tx = cp_registry P \<and> tx_volumeId tx = v \<and>
     nullish (cp_gasFloor P) 3000000 \<le> tx_gas tx \<and>
     nullish (tx_maxPriorityFeePerGas tx) 0 \<le> nullish (tx_maxFeePerGas tx) 0"

definition sends_more :: "cycle_params \<Rightarrow> hex list \<Rightarrow> wallet_event list \<Rightarrow> wallet_event list \<Rightarrow> bool" where
  "sends_more P ids l l' \<longleftrightarrow>
     (\<exists>txs. sends l' = sends l @ txs \<and> subseq (map tx_volumeId txs) ids \<and>
        (\<forall>tx \<in> set txs. tx_ok P (tx_volumeId tx) tx))"

lemma sends_more_same: "sends l' = sends l \<Longrightarrow> sends_more P ids l l'"
  by (simp add: sends_more_def)

lemma sends_more_Cons:
  assumes "sends_more P [v] l l1" "sends_more P ids l1 l2"
  shows "sends_more P (v # ids) l l2"
proof -
  from assms obtain txs txs' where
    "sends l1 = sends l @ txs" "subseq (map tx_volumeId txs) [v]" "\<forall>tx \<in> set txs. tx_ok P (tx_volumeId tx) tx"
    "sends l2 = sends l1 @ txs'" "subseq (map tx_volumeId txs') ids" "\<forall>tx \<in> set txs'. tx_ok P (tx_volumeId tx) tx"
    unfolding sends_more_def by blast
  moreover from this have "subseq (map tx_volumeId txs @ map tx_volumeId txs') ([v] @ ids)"
    by (intro list_emb_append_mono)
  ultimately show ?thesis unfolding sends_more_def
    by (intro exI [of _ "txs @ txs'"]) auto
qed

lemma ensure_sends:
  assumes "ensure_sending (observe C) s (w, l) = (x, (w', l'))" "fees_ok s"
  shows "sends l' = sends l \<and> fees_ok (ok_of x)"
  using assms
  by (auto simp: ensure_sending_def readSending_def Let_def case_prod_beta fees_ok_def
      split: option.splits sum.splits)

lemma trigger_sends:
  assumes "trigger (observe C) (trigger_args P v s) (w, l) = (x, (w', l'))" "fees_ok (Some s)"
  shows "sends_more P [v] l l'"
proof (cases "trigger_gas C (trigger_args P v s) w")
  case (Pair g w1)
  show ?thesis
  proof (cases g)
    case (Inl e)
    then have "l' = l" using assms(1) Pair by (auto simp: trigger_def trigger_gas_observe)
    then show ?thesis by (simp add: sends_more_same)
  next
    case (Inr gas)
    have "nullish (cp_gasFloor P) 3000000 \<le> gas"
      using Pair Inr
      by (auto simp: trigger_gas_def trigger_args_def Let_def split: prod.splits sum.splits if_splits)
    then show ?thesis using assms Pair Inr
      by (auto simp: trigger_def trigger_gas_observe trigger_args_def sends_more_def tx_ok_def
          fees_ok_def)
  qed
qed

lemma sendOne_sends:
  assumes "sendOne (observe C) V P v s r (w, l) = (vr, s', r', (w', l'))" "fees_ok s"
  shows "sends_more P [v] l l' \<and> fees_ok s'"
proof (cases "nullish (cp_dryRun P) False")
  case True
  then show ?thesis using assms
    by (auto simp: sendOne_def case_prod_beta sends_more_same fees_ok_def split: sum.splits)
next
  case False
  obtain x w1 l1 where e: "ensure_sending (observe C) s (w, l) = (x, (w1, l1))" by (metis prod_cases3)
  note es = ensure_sends [OF e assms(2)]
  show ?thesis
  proof (cases x)
    case (Inl err)
    then show ?thesis using assms(1) False e es
      by (auto simp: sendOne_def sends_more_same fees_ok_def)
  next
    case (Inr y)
    obtain h w2 l2 where t: "trigger (observe C) (trigger_args P v y) (w1, l1) = (h, (w2, l2))"
      by (metis prod_cases3)
    have "fees_ok (Some y)" using es Inr by simp
    note ts = trigger_sends [OF t this]
    have "sends l' = sends l2 \<and> fees_ok s'"
      using assms(1) False e Inr t \<open>fees_ok (Some y)\<close>
      by (auto simp: sendOne_def case_prod_beta Let_def fees_ok_def split: sum.splits if_splits)
    then show ?thesis using ts es by (simp add: sends_more_def)
  qed
qed

lemma loop_sends:
  assumes "cycle_loop (sendOne (observe C) V P) (date_now (observe C)) deadline i ids s r (w, l)
      = (r', (w', l'))"
    and "fees_ok s"
  shows "sends_more P ids l l'"
  using assms
proof (induction ids arbitrary: i s r w l)
  case Nil
  then show ?case by (simp add: sends_more_same)
next
  case (Cons v ids)
  from Cons.prems(1) show ?case
  proof (cases rule: cycle_loop_cases)
    case late
    then show ?thesis by (simp add: sends_more_same)
  next
    case (turn w1 vr s1 r1 w2)
    then obtain x y z where w: "w1 = (x, l)" "w2 = (y, z)"
      by (cases w2) (auto split: if_splits)
    note one = sendOne_sends [OF turn(3) [unfolded w] Cons.prems(2)]
    show ?thesis using one Cons.IH [OF turn(4) [unfolded w]] by (blast intro: sends_more_Cons)
  qed
qed

lemma dry_turn:
  assumes "sendOne (observe C) V (P\<lparr>cp_dryRun := Some True\<rparr>) v s r (w, l) = (vr, s', r', (w', l'))"
  shows "l' = l"
  using assms by (auto simp: sendOne_def case_prod_beta split: sum.splits)

lemma dry_loop:
  assumes "cycle_loop (sendOne (observe C) V (P\<lparr>cp_dryRun := Some True\<rparr>)) (date_now (observe C))
      deadline i ids s r (w, l) = (r', (w', l'))"
  shows "l' = l"
  using assms
proof (induction ids arbitrary: i s r w)
  case Nil
  then show ?case by simp
next
  case (Cons v ids)
  from Cons.prems(1) show ?case
  proof (cases rule: cycle_loop_cases)
    case late
    then show ?thesis by simp
  next
    case (turn w1 vr s1 r1 w2)
    then obtain x y z where w: "w1 = (x, l)" "w2 = (y, z)"
      by (cases w2) (auto split: if_splits)
    then have "z = l" using dry_turn [OF turn(3) [unfolded w]] by simp
    then show ?thesis using Cons.IH turn(4) w by simp
  qed
qed

text \<open>What a dry run says of a volume: simulated, or failed, with no transaction and no outcome.\<close>

definition rehearsed :: "volume_result \<Rightarrow> bool" where
  "rehearsed vr \<longleftrightarrow> (vr_status vr = StSimulated \<or> vr_status vr = StFailed) \<and> vr_hash vr = None \<and> vr_outcome vr = None"

lemma dry_results:
  assumes "cycle_loop (sendOne C V (P\<lparr>cp_dryRun := Some True\<rparr>)) clock deadline i ids s r w = (r', w')"
  shows "list_all rehearsed (cr_volumes r) \<Longrightarrow> list_all rehearsed (cr_volumes r')"
  using assms
proof (induction ids arbitrary: i s r w)
  case Nil
  then show ?case by simp
next
  case (Cons v ids)
  from Cons.prems(2) show ?case
  proof (cases rule: cycle_loop_cases)
    case late
    then show ?thesis using Cons.prems(1) by simp
  next
    case (turn w1 vr s1 r1 w2)
    have "rehearsed vr"
      using turn(3) by (auto simp: sendOne_def rehearsed_def turn_results split: prod.splits sum.splits)
    then show ?thesis using Cons.IH [OF _ turn(4)] Cons.prems(1) keeper_turn.turn_frame(2) [OF turn(3)] by simp
  qed
qed

lemma dry_run_results: "list_all rehearsed (cr_volumes (fst (runKeeperCycle C V (P\<lparr>cp_dryRun := Some True\<rparr>) w)))"
proof -
  let ?P = "P\<lparr>cp_dryRun := Some True\<rparr>"
  show ?thesis
  proof (cases "enumeration C ?P w")
    case None
    then show ?thesis using run_failed [OF None] by simp
  next
    case (Some x)
    then obtain b ids where e: "enumeration C ?P w = Some (b, ids)" by (cases x) auto
    obtain r1 w2 d where r: "fst (runKeeperCycle C V ?P w) =
        (fst (attempt_all C V ?P (fst (date_now C w)) b ids r1 w2))\<lparr>cr_durationMs := d\<rparr>" "cr_volumes r1 = []"
      by (rule run_enumerated [OF e, where V = V]) blast
    have "list_all rehearsed (cr_volumes (fst (attempt_all C V ?P (fst (date_now C w)) b ids r1 w2)))"
    proof (cases "ids = []")
      case True
      then show ?thesis using r(2) by (simp add: attempt_all_def)
    next
      case False
      then obtain r2 deadline where a: "attempt_all C V ?P (fst (date_now C w)) b ids r1 w2 =
          cycle_loop (sendOne C V ?P) (date_now C) deadline 0 (attempt_list V ?P b ids) None r2 w2" "cr_volumes r2 = []"
        by (rule attempt_all_loop [of ids C V ?P "fst (date_now C w)" b r1 w2]) (simp add: r(2))
      show ?thesis
        using dry_results [OF prod.collapse [symmetric], where r = r2] a(2) unfolding a(1) by auto
    qed
    then show ?thesis by (simp add: r(1))
  qed
qed

section \<open>Properties\<close>

text \<open>The events of a cycle that starts with an empty log, and its result.\<close>

definition cycle_events :: "'w client \<Rightarrow> viem \<Rightarrow> cycle_params \<Rightarrow> 'w \<Rightarrow> wallet_event list" where
  "cycle_events C V P w = snd (snd (runKeeperCycle (observe C) V P (w, [])))"

lemma run_log:
  "case enumeration C P w of
     None \<Rightarrow> cycle_events C V P w = []
   | Some (b, ids) \<Rightarrow> \<exists>t r w1. cycle_events C V P w =
       snd (snd (attempt_all (observe C) V P t b ids r (w1, [])))"
proof -
  obtain e r w1 l1 where b: "cycle_body (observe C) V P (fst (date_now C w)) (initial_result P)
      (snd (date_now C w), []) = (e, r, (w1, l1))" by (metis prod_cases4)
  then have ev: "cycle_events C V P w = l1"
    by (simp add: cycle_events_def runKeeperCycle_def Let_def case_prod_beta)
  show ?thesis
  proof (cases "fst (get_block_number C (snd (date_now C w)))")
    case (Inl err)
    then show ?thesis using b by (simp add: ev enumeration_def cycle_body_def case_prod_beta)
  next
    case (Inr n)
    let ?c = "collectIds C P n ((initial_result P)\<lparr>cr_blockNumber := Some n\<rparr>)
      (snd (get_block_number C (snd (date_now C w))))"
    show ?thesis
    proof (cases "fst ?c")
      case (Inl err)
      then show ?thesis using b \<open>_ = Inr n\<close>
        by (simp add: ev enumeration_def cycle_body_def collectIds_observe case_prod_beta)
    next
      case (Inr ids)
      then have "l1 = snd (snd (attempt_all (observe C) V P (fst (date_now C w)) n ids
          (fst (snd ?c)) (snd (snd ?c), [])))"
        using b \<open>_ = Inr n\<close>
        by (simp add: cycle_body_def collectIds_observe case_prod_beta)
      moreover have "enumeration C P w = Some (n, ids)"
        using Inr \<open>_ = Inr n\<close> by (simp add: enumeration_def case_prod_beta)
      ultimately show ?thesis using ev by auto
    qed
  qed
qed

text \<open>A property of the log that every loop from an empty log has, every cycle has.\<close>

lemma cycle_events_loop:
  assumes "Q []"
    and "\<And>b ids d r2 w1 r3 w3 l3. enumeration C P w = Some (b, ids) \<Longrightarrow>
      cycle_loop (sendOne (observe C) V P) (date_now (observe C)) d 0 (attempt_list V P b ids)
        None r2 (w1, []) = (r3, (w3, l3)) \<Longrightarrow> Q l3"
  shows "Q (cycle_events C V P w)"
proof (cases "enumeration C P w")
  case None
  then show ?thesis using run_log [where C = C and P = P and w = w and V = V] assms(1) by simp
next
  case (Some x)
  obtain b ids where x: "enumeration C P w = Some (b, ids)" using Some by (cases x) auto
  then obtain t r w1 where ev: "cycle_events C V P w =
      snd (snd (attempt_all (observe C) V P t b ids r (w1, [])))"
    using run_log [where C = C and P = P and w = w and V = V] by auto
  show ?thesis
  proof (cases "ids = []")
    case True
    then show ?thesis using ev assms(1) by (simp add: attempt_all_def)
  next
    case False
    then obtain r2 d where a: "attempt_all (observe C) V P t b ids r (w1, []) =
        cycle_loop (sendOne (observe C) V P) (date_now (observe C)) d 0 (attempt_list V P b ids)
          None r2 (w1, [])" by (rule attempt_all_loop) blast
    obtain r3 w3 l3 where l: "cycle_loop (sendOne (observe C) V P) (date_now (observe C)) d 0
        (attempt_list V P b ids) None r2 (w1, []) = (r3, (w3, l3))" by (metis prod_cases3)
    then show ?thesis using assms(2) [OF x l] ev a by simp
  qed
qed

text \<open>
  C4: whatever the endpoints answer, the wallet calls of a cycle are a run of the wallet's state
  machine: every transaction carries the nonce last read plus the transactions since, no second
  transaction is sent while one is unconfirmed, and after a failure the nonce is read again first.
  Observing the calls changes neither the result nor the world.
\<close>

theorem cycle_wallet_discipline:
  "case runKeeperCycle (observe C) V P (w, []) of
     (r, w', events) \<Rightarrow> runKeeperCycle C V P w = (r, w') \<and> (\<exists>st. wallet_run Unread events st)"
proof -
  obtain r w' events where run: "runKeeperCycle (observe C) V P (w, []) = (r, w', events)"
    by (metis prod_cases3)
  have "\<exists>st. wallet_run Unread (cycle_events C V P w) st"
  proof (rule cycle_events_loop)
    show "\<exists>st. wallet_run Unread [] st" by auto
    fix b ids d r2 w1 r3 w3 l3
    assume l: "cycle_loop (sendOne (observe C) V P) (date_now (observe C)) d 0
        (attempt_list V P b ids) None r2 (w1, []) = (r3, (w3, l3))"
    have "extends Unread [] l3 (\<lambda>_. True)" by (rule loop_wallet [OF l]) simp
    then show "\<exists>st. wallet_run Unread l3 st" by (auto simp: extends_def)
  qed
  then show ?thesis using run_observe [of C V P w "[]"] by (simp add: run cycle_events_def)
qed

text \<open>
  C11: the transactions of a cycle go to the configured registry, in the order of the attempted list and
  at most one for each of its entries (so a volume that \<open>VOLUME_IDS\<close> names twice may get two), each with at
  least the gas floor and a fee cap that covers its tip. A cycle whose enumeration failed sends nothing.
\<close>

theorem cycle_sends:
  "case enumeration C P w of
     None \<Rightarrow> cycle_events C V P w = []
   | Some (b, ids) \<Rightarrow>
       subseq (map tx_volumeId (sends (cycle_events C V P w))) (attempt_list V P b ids) \<and>
       list_all (\<lambda>tx. tx_ok P (tx_volumeId tx) tx) (sends (cycle_events C V P w))"
proof (cases "enumeration C P w")
  case None
  then show ?thesis using run_log [where C = C and P = P and w = w and V = V] by simp
next
  case (Some x)
  obtain b ids where x: "enumeration C P w = Some (b, ids)" using Some by (cases x) auto
  have "sends_more P (attempt_list V P b ids) [] (cycle_events C V P w)"
  proof (rule cycle_events_loop)
    show "sends_more P (attempt_list V P b ids) [] []" by (simp add: sends_more_same)
    fix b' ids' d r2 w1 r3 w3 l3
    assume e: "enumeration C P w = Some (b', ids')"
      and l: "cycle_loop (sendOne (observe C) V P) (date_now (observe C)) d 0
        (attempt_list V P b' ids') None r2 (w1, []) = (r3, (w3, l3))"
    have "sends_more P (attempt_list V P b' ids') [] l3"
      by (rule loop_sends [OF l]) (simp add: fees_ok_def)
    then show "sends_more P (attempt_list V P b ids) [] l3" using e x by simp
  qed
  then show ?thesis by (simp add: x sends_more_def list_all_iff)
qed

text \<open>
  C37: a dry run never touches the wallet: whatever the endpoints answer, no nonce is read, nothing is sent and
  no receipt is awaited. Every volume of its result is simulated or failed, with no transaction hash and no
  outcome.
\<close>

theorem dry_run_sends_nothing:
  "cycle_events C V (P\<lparr>cp_dryRun := Some True\<rparr>) w = [] \<and>
   list_all rehearsed (cr_volumes (fst (runKeeperCycle C V (P\<lparr>cp_dryRun := Some True\<rparr>) w)))"
  by (rule conjI [OF cycle_events_loop dry_run_results]) (use dry_loop in auto)

end
