(* ===== verification/CycleClock.thy ===== *)
theory CycleClock
  imports WalletProtocol
begin

text \<open>
  What a cycle makes of the clock (\<open>runKeeperCycle.ts\<close>). \<open>Date.now()\<close> is read when the cycle starts, before
  every volume but the first, and when it ends; a client is timed by recording what it read. Which volumes
  are attempted is then a property of the readings: the cycle stops at the first one behind its deadline,
  and at no other.
\<close>

section \<open>Clients beside a log\<close>

text \<open>A client whose calls leave a log beside the world alone.\<close>

definition quiet :: "'w client \<Rightarrow> ('w \<times> 'l) client" where
  "quiet C =
     \<lparr>client_address = client_address C,
      client_chainId = client_chainId C,
      date_now = silent (date_now C),
      get_block_number = silent (get_block_number C),
      read_active_count = (\<lambda>r b. silent (read_active_count C r b)),
      multicall_active_pages = (\<lambda>r b c. silent (multicall_active_pages C r b c)),
      multicall_volumes = (\<lambda>r b c. silent (multicall_volumes C r b c)),
      get_transaction_count = (\<lambda>a. silent (get_transaction_count C a)),
      get_block = silent (get_block C),
      estimate_priority_fee = silent (estimate_priority_fee C),
      simulate_trigger = (\<lambda>r v. silent (simulate_trigger C r v)),
      estimate_trigger_gas = (\<lambda>r v. silent (estimate_trigger_gas C r v)),
      write_contract = (\<lambda>tx. silent (write_contract C tx)),
      wait_for_receipt = (\<lambda>h c t. silent (wait_for_receipt C h c t)),
      get_balance = (\<lambda>a. silent (get_balance C a))\<rparr>"

lemma silent_log [simp]: "snd (snd (silent f wl)) = snd wl"
  by (cases wl) (simp add: silent_def split: prod.split)

lemma quiet_calls [simp]:
  "client_address (quiet C) = client_address C"
  "client_chainId (quiet C) = client_chainId C"
  "date_now (quiet C) = silent (date_now C)"
  "get_block_number (quiet C) = silent (get_block_number C)"
  "read_active_count (quiet C) a b = silent (read_active_count C a b)"
  "multicall_active_pages (quiet C) a b calls = silent (multicall_active_pages C a b calls)"
  "multicall_volumes (quiet C) a b ids = silent (multicall_volumes C a b ids)"
  "get_transaction_count (quiet C) a = silent (get_transaction_count C a)"
  "get_block (quiet C) = silent (get_block C)"
  "estimate_priority_fee (quiet C) = silent (estimate_priority_fee C)"
  "simulate_trigger (quiet C) a v = silent (simulate_trigger C a v)"
  "estimate_trigger_gas (quiet C) a v = silent (estimate_trigger_gas C a v)"
  "write_contract (quiet C) tx = silent (write_contract C tx)"
  "wait_for_receipt (quiet C) h n t = silent (wait_for_receipt C h n t)"
  "get_balance (quiet C) a = silent (get_balance C a)"
  by (simp_all add: quiet_def)

text \<open>A cycle beside a log is the cycle, and the log is untouched.\<close>

lemma quiet_collect:
  "collectIds (quiet C) P b r (w, l) =
     (fst (collectIds C P b r w), fst (snd (collectIds C P b r w)), (snd (snd (collectIds C P b r w)), l))"
  by (simp add: collectIds_def collectActiveVolumes_def getActiveVolumeCount_def Let_def
      case_prod_beta silent_apply split: keeper_mode.split sum.split)

lemma quiet_ensure:
  "ensure_sending (quiet C) s (w, l) = (fst (ensure_sending C s w), (snd (ensure_sending C s w), l))"
  by (simp add: ensure_sending_def readSending_def Let_def case_prod_beta silent_apply
      split: option.split sum.split)

lemma quiet_trigger:
  "trigger (quiet C) p (w, l) = (fst (trigger C p w), (snd (trigger C p w), l))"
  by (simp add: trigger_def trigger_gas_def Let_def case_prod_beta silent_apply
      split: option.split sum.split)

lemma quiet_turn:
  "sendOne (quiet C) V P v s r (w, l) =
     (case sendOne C V P v s r w of (x, s', r', w') \<Rightarrow> (x, s', r', (w', l)))"
  by (simp add: sendOne_def Let_def case_prod_beta silent_apply quiet_ensure quiet_trigger
      split: sum.split)

lemma quiet_loop:
  "cycle_loop (sendOne (quiet C) V P) (silent (date_now C)) d i ids s r (w, l) =
     (case cycle_loop (sendOne C V P) (date_now C) d i ids s r w of (r', w') \<Rightarrow> (r', (w', l)))"
proof (induction ids arbitrary: i s r w)
  case (Cons v ids)
  then show ?case
    by (cases "0 < i \<and> d < fst (date_now C w)") (auto simp: case_prod_beta quiet_turn silent_apply)
qed simp

lemma quiet_cycle:
  "runKeeperCycle (quiet C) V P (w, l) =
     (fst (runKeeperCycle C V P w), (snd (runKeeperCycle C V P w), l))"
  by (simp add: runKeeperCycle_def cycle_body_def attempt_all_def Let_def case_prod_beta
      silent_apply quiet_collect quiet_loop split: sum.split)

section \<open>Timing a client\<close>

text \<open>A call that records what it answers, and a client whose clock does.\<close>

definition noted :: "('w \<Rightarrow> 'a \<times> 'w) \<Rightarrow> 'w \<times> 'a list \<Rightarrow> 'a \<times> ('w \<times> 'a list)" where
  "noted f = (\<lambda>(w, l). let (x, w') = f w in (x, (w', l @ [x])))"

definition timed :: "'w client \<Rightarrow> ('w \<times> millis list) client" where
  "timed C = (quiet C)\<lparr>date_now := noted (date_now C)\<rparr>"

definition clock_readings :: "'w client \<Rightarrow> viem \<Rightarrow> cycle_params \<Rightarrow> 'w \<Rightarrow> millis list" where
  "clock_readings C V P w = snd (snd (runKeeperCycle (timed C) V P (w, [])))"

lemma noted_apply: "noted f (w, l) = (fst (f w), (snd (f w), l @ [fst (f w)]))"
  by (simp add: noted_def split: prod.split)

lemma timed_calls [simp]:
  "date_now (timed C) = noted (date_now C)" "get_block_number (timed C) = silent (get_block_number C)"
  by (simp_all add: timed_def)

text \<open>Nothing but the loop and the ends of a cycle reads the clock.\<close>

lemma clockless_collect: "collectIds (C\<lparr>date_now := f\<rparr>) = collectIds C"
  by (intro ext)
    (simp add: collectIds_def collectActiveVolumes_def getActiveVolumeCount_def Let_def case_prod_beta
      split: keeper_mode.split sum.split)

lemma clockless_ensure: "ensure_sending (C\<lparr>date_now := f\<rparr>) = ensure_sending C"
  by (intro ext)
    (simp add: ensure_sending_def readSending_def Let_def case_prod_beta split: option.split sum.split)

lemma clockless_trigger: "trigger (C\<lparr>date_now := f\<rparr>) = trigger C"
  by (intro ext)
    (simp add: trigger_def trigger_gas_def Let_def case_prod_beta split: option.split sum.split)

lemma clockless_turn: "sendOne (C\<lparr>date_now := f\<rparr>) = sendOne C"
  by (intro ext)
    (simp add: sendOne_def clockless_ensure clockless_trigger Let_def case_prod_beta split: sum.split)

lemma timed_collect:
  "collectIds (timed C) P b r (w, l) =
     (fst (collectIds C P b r w), fst (snd (collectIds C P b r w)), (snd (snd (collectIds C P b r w)), l))"
  by (simp add: timed_def clockless_collect quiet_collect)

lemma timed_turn:
  "sendOne (timed C) V P v s r (w, l) =
     (case sendOne C V P v s r w of (x, s', r', w') \<Rightarrow> (x, s', r', (w', l)))"
  by (simp add: timed_def clockless_turn quiet_turn)

lemma timed_loop_same:
  "(\<lambda>(r, wl). (r, fst wl)) (cycle_loop (sendOne (timed C) V P) (noted (date_now C)) d i ids s r (w, l)) =
   cycle_loop (sendOne C V P) (date_now C) d i ids s r w"
proof (induction ids arbitrary: i s r w l)
  case (Cons v ids)
  then show ?case
    by (cases "0 < i \<and> d < fst (date_now C w)") (auto simp: case_prod_beta timed_turn noted_apply)
qed simp

section \<open>The readings of the loop\<close>

text \<open>
  Before every volume but the first the clock is read; the readings before the volumes attempted are within
  the deadline, and the loop ends early with a reading behind it and its warning.
\<close>

lemma timed_loop:
  assumes "cycle_loop (sendOne (timed C) V P) (noted (date_now C)) d i ids s r (w, l) = (r', (w', l'))"
    and "0 < i"
  shows "\<exists>vs ts. l' = l @ ts \<and> cr_volumes r' = cr_volumes r @ vs \<and>
    map vr_volumeId vs = take (length vs) ids \<and> list_all (\<lambda>t. t \<le> d) (take (length vs) ts) \<and>
    (length vs = length ids \<and> length ts = length vs \<or>
     length vs < length ids \<and> length ts = Suc (length vs) \<and> d < last ts \<and>
       last (cr_warnings r') = deadline_warning (i + length vs) (length ids - length vs))"
  using assms
proof (induction ids arbitrary: i s r w l)
  case Nil
  then show ?case by simp
next
  case (Cons v ids)
  from Cons.prems(1) show ?case
  proof (cases rule: cycle_loop_cases)
    case late
    then show ?thesis
      by (intro exI [of _ "[]"] exI [of _ "[fst (date_now C w)]"]) (simp add: noted_apply)
  next
    case (turn w1 vr s1 r1 w2)
    let ?t = "fst (date_now C w)"
    have w1: "w1 = (snd (date_now C w), l @ [?t])" "?t \<le> d"
      using turn(1,2) Cons.prems(2) by (simp_all add: noted_apply)
    obtain u where w2: "w2 = (u, l @ [?t])"
      using turn(3) unfolding w1(1) timed_turn by (auto split: prod.splits)
    obtain vs ts where rest: "l' = (l @ [?t]) @ ts" "cr_volumes r' = cr_volumes (push_volume v vr r1) @ vs"
        "map vr_volumeId vs = take (length vs) ids" "list_all (\<lambda>t. t \<le> d) (take (length vs) ts)"
        "length vs = length ids \<and> length ts = length vs \<or>
         length vs < length ids \<and> length ts = Suc (length vs) \<and> d < last ts \<and>
           last (cr_warnings r') = deadline_warning (Suc i + length vs) (length ids - length vs)"
      using Cons.IH [OF turn(4) [unfolded w2]] by auto
    have "vr_volumeId vr = v" "cr_volumes (push_volume v vr r1) = cr_volumes r @ [vr]"
      using keeper_turn.send_volume [OF turn(3)] keeper_turn.turn_frame(2) [OF turn(3)] by auto
    then show ?thesis using rest w1(2)
      by (intro exI [of _ "vr # vs"] exI [of _ "?t # ts"]) auto
  qed
qed

text \<open>From the first volume on, which no reading precedes.\<close>

lemma timed_attempts:
  assumes "cycle_loop (sendOne (timed C) V P) (noted (date_now C)) d 0 ids s r (w, l) = (r', (w', l'))"
  shows "\<exists>vs ts. l' = l @ ts \<and> cr_volumes r' = cr_volumes r @ vs \<and>
    map vr_volumeId vs = take (length vs) ids \<and> list_all (\<lambda>t. t \<le> d) (take (length vs - 1) ts) \<and>
    (length vs = length ids \<and> length ts = length vs - 1 \<or>
     0 < length vs \<and> length vs < length ids \<and> length ts = length vs \<and> d < last ts \<and>
       last (cr_warnings r') = deadline_warning (length vs) (length ids - length vs))"
proof (cases ids)
  case Nil
  then show ?thesis using assms by simp
next
  case (Cons v rest)
  from assms [unfolded Cons] show ?thesis
  proof (cases rule: cycle_loop_cases)
    case late
    then show ?thesis by simp
  next
    case (turn w1 vr s1 r1 w2)
    have w1: "w1 = (w, l)" using turn(1) by simp
    obtain u where w2: "w2 = (u, l)"
      using turn(3) unfolding w1 timed_turn by (auto split: prod.splits)
    obtain vs ts where vs: "l' = l @ ts" "cr_volumes r' = cr_volumes (push_volume v vr r1) @ vs"
        "map vr_volumeId vs = take (length vs) rest" "list_all (\<lambda>t. t \<le> d) (take (length vs) ts)"
        "length vs = length rest \<and> length ts = length vs \<or>
         length vs < length rest \<and> length ts = Suc (length vs) \<and> d < last ts \<and>
           last (cr_warnings r') = deadline_warning (Suc 0 + length vs) (length rest - length vs)"
      using timed_loop [OF turn(4) [unfolded w2]] by auto
    have "vr_volumeId vr = v" "cr_volumes (push_volume v vr r1) = cr_volumes r @ [vr]"
      using keeper_turn.send_volume [OF turn(3)] keeper_turn.turn_frame(2) [OF turn(3)] by auto
    then show ?thesis using vs unfolding Cons
      by (intro exI [of _ "vr # vs"] exI [of _ ts]) auto
  qed
qed

section \<open>A timed cycle\<close>

lemma timed_attempt_all:
  "(\<lambda>(r, wl). (r, fst wl)) (attempt_all (timed C) V P t b ids r (w, l)) = attempt_all C V P t b ids r w"
  using timed_loop_same [of C V P] by (simp add: attempt_all_def Let_def)

lemma timed_body:
  "(\<lambda>(e, r, wl). (e, r, fst wl)) (cycle_body (timed C) V P t r (w, l)) = cycle_body C V P t r w"
  using timed_attempt_all [of C V P t]
  by (simp add: cycle_body_def timed_collect silent_apply case_prod_beta split: sum.split)

lemma timed_same:
  "(\<lambda>(r, wl). (r, fst wl)) (runKeeperCycle (timed C) V P (w, l)) = runKeeperCycle C V P w"
proof -
  let ?t = "fst (date_now C w)" and ?w0 = "snd (date_now C w)"
  obtain e r w1 l1 where b: "cycle_body (timed C) V P ?t (initial_result P) (?w0, l @ [?t]) = (e, r, (w1, l1))"
    by (metis prod_cases4)
  have "cycle_body C V P ?t (initial_result P) ?w0 = (e, r, w1)"
    using timed_body [of C V P ?t "initial_result P" ?w0 "l @ [?t]"] b by simp
  then show ?thesis using b
    by (simp add: runKeeperCycle_def Let_def noted_apply case_prod_beta split: option.split)
qed

text \<open>Timing changes neither the result nor the world.\<close>

lemma timed_cycle:
  "runKeeperCycle (timed C) V P (w, []) =
     (fst (runKeeperCycle C V P w), (snd (runKeeperCycle C V P w), clock_readings C V P w))"
proof -
  obtain r w1 ts where t: "runKeeperCycle (timed C) V P (w, []) = (r, (w1, ts))" by (metis prod_cases3)
  then have "runKeeperCycle C V P w = (r, w1)" using timed_same [of C V P w "[]"] by simp
  then show ?thesis using t by (simp add: clock_readings_def)
qed

lemma timed_enumerated:
  assumes "enumeration C P w = Some (b, ids)"
  obtains r1 w2 r3 w3 l3 where
    "attempt_all (timed C) V P (fst (date_now C w)) b ids r1 (w2, [fst (date_now C w)]) = (r3, (w3, l3))"
    "clock_readings C V P w = l3 @ [fst (date_now C w3)]" "cr_volumes r1 = []"
    "fst (runKeeperCycle C V P w) = r3\<lparr>cr_durationMs := fst (date_now C w3) - fst (date_now C w)\<rparr>"
proof -
  let ?t = "fst (date_now C w)" and ?w0 = "snd (date_now C w)"
  let ?r0 = "(initial_result P)\<lparr>cr_blockNumber := Some b\<rparr>"
  obtain w1 where g: "get_block_number C ?w0 = (Inr b, w1)"
    and "fst (collectIds C P b ?r0 w1) = Inr ids"
    using assms by (auto simp: enumeration_def split: prod.splits sum.splits)
  then obtain r1 w2 where c: "collectIds C P b ?r0 w1 = (Inr ids, r1, w2)" by (metis prod.collapse)
  obtain r3 w3 l3 where a: "attempt_all (timed C) V P ?t b ids r1 (w2, [?t]) = (r3, (w3, l3))"
    by (metis prod_cases3)
  have run: "runKeeperCycle (timed C) V P (w, []) =
      (r3\<lparr>cr_durationMs := fst (date_now C w3) - ?t\<rparr>, (snd (date_now C w3), l3 @ [fst (date_now C w3)]))"
    using g c a
    by (simp add: runKeeperCycle_def cycle_body_def Let_def case_prod_beta noted_apply silent_apply timed_collect)
  have "cr_volumes r1 = []" using collectIds_frame [OF c] by (simp add: initial_result_def)
  then show ?thesis using a run unfolding timed_cycle by (intro that [of r1 w2 r3 w3 l3]) simp_all
qed

section \<open>The deadline\<close>

text \<open>
  The deadline of a cycle with the readings \<open>ts\<close>, the first of which is its start; and that it cut a list of
  \<open>n\<close> volumes after \<open>k\<close>: at least one was attempted, the reading before the next one was behind the deadline,
  no other followed but the one at the end, and the last warning counts both parts.
\<close>

definition deadline_of :: "cycle_params \<Rightarrow> millis list \<Rightarrow> millis" where
  "deadline_of P ts = hd ts + int (nullish (cp_cycleTimeout P) 120000)"

definition cut_by_deadline :: "cycle_params \<Rightarrow> millis list \<Rightarrow> nat \<Rightarrow> nat \<Rightarrow> cycle_result \<Rightarrow> bool" where
  "cut_by_deadline P ts k n r \<longleftrightarrow>
     0 < k \<and> k < n \<and> length ts = k + 2 \<and> deadline_of P ts < ts ! k \<and>
     last (cr_warnings r) = deadline_warning k (n - k)"

lemma clock_decides:
  assumes "enumeration C P w = Some (b, ids)"
  shows "map vr_volumeId (cr_volumes (fst (runKeeperCycle C V P w))) =
      take (length (cr_volumes (fst (runKeeperCycle C V P w)))) (attempt_list V P b ids) \<and>
    cr_volumeCount (fst (runKeeperCycle C V P w)) = length ids \<and>
    cr_durationMs (fst (runKeeperCycle C V P w)) = last (clock_readings C V P w) - hd (clock_readings C V P w) \<and>
    list_all (\<lambda>t. t \<le> deadline_of P (clock_readings C V P w))
      (take (length (cr_volumes (fst (runKeeperCycle C V P w)))) (butlast (clock_readings C V P w))) \<and>
    (length (cr_volumes (fst (runKeeperCycle C V P w))) = length (attempt_list V P b ids) \<and>
       length (clock_readings C V P w) = max 1 (length (attempt_list V P b ids)) + 1 \<or>
     cut_by_deadline P (clock_readings C V P w) (length (cr_volumes (fst (runKeeperCycle C V P w))))
       (length (attempt_list V P b ids)) (fst (runKeeperCycle C V P w)))"
proof -
  let ?t = "fst (date_now C w)" and ?res = "fst (runKeeperCycle C V P w)"
  let ?d = "?t + int (nullish (cp_cycleTimeout P) 120000)" and ?list = "attempt_list V P b ids"
  obtain r1 w2 r3 w3 l3 where a: "attempt_all (timed C) V P ?t b ids r1 (w2, [?t]) = (r3, (w3, l3))"
    and ts: "clock_readings C V P w = l3 @ [fst (date_now C w3)]" and r1: "cr_volumes r1 = []"
    and res: "?res = r3\<lparr>cr_durationMs := fst (date_now C w3) - ?t\<rparr>"
    by (rule timed_enumerated [OF assms])
  have t0: "0 \<le> int (nullish (cp_cycleTimeout P) 120000)" by simp
  show ?thesis
  proof (cases "ids = []")
    case True
    then have "r3 = r1\<lparr>cr_volumeCount := 0, cr_skipped := Some (js ''no active volumes'')\<rparr>" "l3 = [?t]"
      using a by (simp_all add: attempt_all_def Let_def)
    then show ?thesis using True r1 res ts by (simp add: attempt_list_def rotateVolumes_def)
  next
    case False
    obtain r2 where l: "cycle_loop (sendOne (timed C) V P) (noted (date_now C)) ?d 0 ?list None r2 (w2, [?t]) =
        (r3, (w3, l3))" and r2: "cr_volumes r2 = []" "cr_volumeCount r2 = length ids"
      by (rule attempt_all_loop [OF False, of "timed C" V P ?t b r1 "(w2, [?t])"]) (use a r1 in auto)
    obtain vs us where vs: "l3 = [?t] @ us" "cr_volumes r3 = vs" "map vr_volumeId vs = take (length vs) ?list"
        "list_all (\<lambda>t. t \<le> ?d) (take (length vs - 1) us)"
        "length vs = length ?list \<and> length us = length vs - 1 \<or>
         0 < length vs \<and> length vs < length ?list \<and> length us = length vs \<and> ?d < last us \<and>
           last (cr_warnings r3) = deadline_warning (length vs) (length ?list - length vs)"
      using timed_attempts [OF l] r2(1) by auto
    have d: "deadline_of P (clock_readings C V P w) = ?d" by (simp add: deadline_of_def ts vs(1))
    have vol: "cr_volumes ?res = vs" "cr_volumeCount ?res = length ids" "cr_warnings ?res = cr_warnings r3"
      using res vs(2) keeper_turn.loop_frame [OF l] r2(2) by simp_all
    have within: "list_all (\<lambda>t. t \<le> ?d) (take (length vs) (butlast (clock_readings C V P w)))"
      using vs(4) t0 by (cases "length vs") (simp_all add: ts vs(1))
    have early: "cut_by_deadline P (clock_readings C V P w) (length vs) (length ?list) ?res"
      if "0 < length vs" "length vs < length ?list" "length us = length vs" "?d < last us"
        "last (cr_warnings r3) = deadline_warning (length vs) (length ?list - length vs)"
    proof -
      have "us \<noteq> []" using that(1,3) by auto
      then have "clock_readings C V P w ! length vs = last us"
        using that(1,3) by (simp add: ts vs(1) nth_append nth_Cons' last_conv_nth)
      then show ?thesis using that by (simp add: cut_by_deadline_def d vol(3)) (simp add: ts vs(1))
    qed
    show ?thesis unfolding vol d
      using vs(3,5) within early res by (auto simp: ts vs(1) max_def)
  qed
qed

section \<open>Properties\<close>

text \<open>
  C9: which volumes a cycle attempts is decided by the clock. It attempts a prefix of its rotated and capped
  volume list, in that order and one result per volume. Every reading before a volume that was attempted is
  within the deadline, the start plus the timeout; the prefix is the whole list, or the reading before the
  next volume is behind the deadline, and then at least one volume was attempted, the clock is read but once
  more, at the end, and the last warning counts both parts. The duration is the last reading less the first. A cycle
  whose enumeration failed attempts nothing and is not ok.
\<close>

theorem cycle_attempts:
  "case enumeration C P w of
     None \<Rightarrow> cr_volumes (fst (runKeeperCycle C V P w)) = [] \<and>
             \<not> cr_ok (fst (runKeeperCycle C V P w)) \<and>
             cr_error (fst (runKeeperCycle C V P w)) \<noteq> None
   | Some (b, ids) \<Rightarrow>
       \<exists>k ts. runKeeperCycle (timed C) V P (w, []) =
             (fst (runKeeperCycle C V P w), (snd (runKeeperCycle C V P w), ts)) \<and>
           map vr_volumeId (cr_volumes (fst (runKeeperCycle C V P w))) = take k (attempt_list V P b ids) \<and>
           cr_volumeCount (fst (runKeeperCycle C V P w)) = length ids \<and>
           cr_durationMs (fst (runKeeperCycle C V P w)) = last ts - hd ts \<and>
           list_all (\<lambda>t. t \<le> deadline_of P ts) (take k (butlast ts)) \<and>
           (k = length (attempt_list V P b ids) \<and> length ts = max 1 k + 1 \<or>
            cut_by_deadline P ts k (length (attempt_list V P b ids)) (fst (runKeeperCycle C V P w)))"
proof (cases "enumeration C P w")
  case None
  then show ?thesis using run_failed [OF None] by simp
next
  case (Some x)
  obtain b ids where x: "x = (b, ids)" by (cases x) auto
  show ?thesis using clock_decides [OF Some [unfolded x], of V] timed_cycle [of C V P w] unfolding Some x
    by (simp del: max_nat.left_neutral) metis
qed

end
