(* ===== verification/WorkerProperties.thy ===== *)
theory WorkerProperties
  imports KeeperWorker CycleClock
begin

text \<open>
  What a scheduled run does to the outside (\<open>services/keeper/src/index.ts\<close>): the lines it prints and
  the alerts it posts, observed beside the world; when it succeeds; what it keeps secret.
\<close>

section \<open>Observing a run\<close>

text \<open>A line printed, and an alert posted with the answer it got.\<close>

datatype worker_event = Printed console_line | Posted telegram_request "exn + fetch_response"

type_synonym 'w watched = "'w \<times> worker_event list"

definition watch :: "'w worker \<Rightarrow> 'w watched worker" where
  "watch W =
     \<lparr>wk_platform = wk_platform W,
      wk_viem = wk_viem W,
      wk_net = \<lparr>net_now = silent (net_now (wk_net W)),
                net_chain_id = (\<lambda>u t. silent (net_chain_id (wk_net W) u t)),
                net_block_number = (\<lambda>u t. silent (net_block_number (wk_net W) u t))\<rparr>,
      wk_now = silent (wk_now W),
      wk_account = wk_account W,
      wk_client = (\<lambda>opts. map_sum id quiet (wk_client W opts)),
      wk_fetch = (\<lambda>req (w, l). let (x, w') = wk_fetch W req w in (x, (w', l @ [Posted req x]))),
      wk_print = (\<lambda>line (w, l). (wk_print W line w, l @ [Printed line])),
      wk_noRetry = (\<lambda>(w, l). (wk_noRetry W w, l)),
      wk_not_a_function = wk_not_a_function W\<rparr>"

lemma watch_simps [simp]:
  "wk_platform (watch W) = wk_platform W" "wk_viem (watch W) = wk_viem W"
  "wk_now (watch W) = silent (wk_now W)" "wk_account (watch W) = wk_account W"
  "wk_client (watch W) opts = map_sum id quiet (wk_client W opts)"
  "wk_print (watch W) line (w, l) = (wk_print W line w, l @ [Printed line])"
  "wk_not_a_function (watch W) = wk_not_a_function W"
  by (simp_all add: watch_def)

lemma watch_print_log: "snd (wk_print (watch W) line wl) = snd wl @ [Printed line]"
  by (cases wl) simp

text \<open>Up to the delivery of the report a run prints and posts nothing, and watching changes nothing.\<close>

lemma watch_probe:
  "probeEndpoints (wk_net (watch W)) L us ch t (w, l) =
     (case probeEndpoints (wk_net W) L us ch t w of (es, w') \<Rightarrow> (es, (w', l)))"
  by (induction us arbitrary: w)
    (simp_all add: probe_endpoint_def probe_requests_def watch_def Let_def case_prod_beta silent_apply
      split: sum.split)

lemma watch_runCycle:
  "runCycle (watch W) c run (w, l) = (case runCycle W c run w of (x, w') \<Rightarrow> (x, (w', l)))"
proof -
  obtain es w1 where p: "probeEndpoints (wk_net W) (wk_platform W) (cfg_endpoints c)
      (cfg_chain c) PROBE_TIMEOUT_MS w = (es, w1)" by (metis surj_pair)
  then show ?thesis
    by (cases "wk_client W (buildClient (cfg_chain c) (cfg_privateKey c) (usable_endpoints es))")
      (simp_all add: runCycle_def watch_probe p Let_def case_prod_beta quiet_cycle silent_apply)
qed

lemma watch_attempt:
  "attempt_run (watch W) env run (w, l) =
     (case attempt_run W env run w of (nw, k, w') \<Rightarrow> (nw, k, (w', l)))"
  by (simp add: attempt_run_def Let_def case_prod_beta watch_runCycle silent_apply split: sum.split)

text \<open>Why an alert did not get through, from the answer to its request.\<close>

definition refusal :: "exn + fetch_response \<Rightarrow> jstring option" where
  "refusal answer =
     (case answer of
        Inl e \<Rightarrow> Some (exn_message e)
      | Inr r \<Rightarrow>
          if resp_ok r then None
          else Some (js ''telegram returned '' @ dec (resp_status r) @ js '': '' @
            take 200 (case resp_text r of Inl _ \<Rightarrow> [] | Inr t \<Rightarrow> t)))"

text \<open>What a run leaves behind, given its report and the answer to its alert.\<close>

definition run_trace ::
  "'w worker \<Rightarrow> env \<Rightarrow> (jstring \<Rightarrow> jstring) \<Rightarrow> bool \<Rightarrow> keeper_report \<Rightarrow> exn + fetch_response \<Rightarrow>
     worker_event list" where
  "run_trace W env scrub notifyWarnings report answer =
     Printed (ReportLine
       (if k_status report = js ''failure'' then LogError
        else if k_status report = js ''warning'' then LogWarn else LogInfo) report) #
     (case readTelegramConfig env of
        None \<Rightarrow> []
      | Some telegram \<Rightarrow>
          if k_status report = js ''failure'' \<or> k_status report = js ''warning'' \<and> notifyWarnings then
            Posted (telegram_request telegram (formatTelegramMessage (wk_platform W) report) 10000) answer #
            (case refusal answer of
               None \<Rightarrow> []
             | Some reason \<Rightarrow>
                 [Printed (NotifyFailedLine (k_deployment report) (k_status report) (scrub reason))])
          else [])"

lemma watch_fetch:
  "wk_fetch (watch W) req (w, l) =
     (fst (wk_fetch W req w), (snd (wk_fetch W req w), l @ [Posted req (fst (wk_fetch W req w))]))"
  by (simp add: watch_def case_prod_beta)

lemma watch_send_result:
  "sendTelegram (wk_fetch (watch W)) c body t (w, l) =
     (fst (sendTelegram (wk_fetch W) c body t w),
      (snd (sendTelegram (wk_fetch W) c body t w),
       l @ [Posted (telegram_request c body t) (fst (wk_fetch W (telegram_request c body t) w))]))"
  by (simp add: sendTelegram_def case_prod_beta watch_fetch split: sum.split)

lemma send_refusal:
  "fst (sendTelegram f c body t w) =
     (case refusal (fst (f (telegram_request c body t) w)) of
        None \<Rightarrow> \<lparr>sr_sent = True, sr_reason = None\<rparr>
      | Some reason \<Rightarrow> \<lparr>sr_sent = False, sr_reason = Some reason\<rparr>)"
  by (auto simp: sendTelegram_def refusal_def case_prod_beta Let_def split: sum.split)

lemma watch_deliver:
  "\<exists>answer. snd (deliver (watch W) env scrub nw report wl) = snd wl @ run_trace W env scrub nw report answer"
proof (cases "readTelegramConfig env")
  case None
  then show ?thesis
    by (simp add: deliver_def run_trace_def logReport_def watch_print_log)
next
  case (Some c)
  obtain w l where wl: "wl = (w, l)" by (cases wl)
  let ?req = "telegram_request c (formatTelegramMessage (wk_platform W) report) 10000"
  let ?w1 = "wk_print W (ReportLine (fst (logReport report)) report) w"
  show ?thesis
    by (intro exI [of _ "fst (wk_fetch W ?req ?w1)"])
      (simp add: deliver_def run_trace_def Some Let_def case_prod_beta wl logReport_def watch_send_result
        send_refusal shouldNotify_def split: option.split)
qed

text \<open>The scrubber a run is armed with, and whether it alerts on warnings.\<close>

definition armed_scrubber :: "'w worker \<Rightarrow> env \<Rightarrow> jstring \<Rightarrow> jstring" where
  "armed_scrubber W env =
     (case raw_rpc_urls W env of Inl _ \<Rightarrow> (\<lambda>s. s) | Inr urls \<Rightarrow> run_scrubber W env urls)"

definition alerts_warnings :: "'w worker \<Rightarrow> env \<Rightarrow> bool" where
  "alerts_warnings W env =
     (case readConfig (wk_platform W) env of Inl _ \<Rightarrow> False | Inr c \<Rightarrow> cfg_notifyWarnings c)"

lemma attempt_notify: "fst (attempt_run W env run w) = alerts_warnings W env"
  by (simp add: attempt_run_def alerts_warnings_def Let_def case_prod_beta split: sum.split)

lemma watch_scrubber [simp]:
  "raw_rpc_urls (watch W) env = raw_rpc_urls W env"
  "run_scrubber (watch W) env urls = run_scrubber W env urls"
  "alerts_warnings (watch W) env = alerts_warnings W env"
  by (simp_all add: raw_rpc_urls_def run_scrubber_def alerts_warnings_def
      split: option.split env_value.split)

text \<open>The chain id of every report of a run is that of its bindings.\<close>

lemma runCycle_chainId:
  "case fst (runCycle W c run w) of Inl _ \<Rightarrow> True
   | Inr report \<Rightarrow> k_chainId report = di_chainId (ri_identity run)"
  by (simp add: runCycle_def Let_def case_prod_beta abortedReport_def cycleReport_def cycle_input_def
      split: sum.split)

lemma attempt_chainId:
  "k_chainId (fst (snd (attempt_run W env run w))) = di_chainId (ri_identity run)"
proof (cases "readConfig (wk_platform W) env")
  case (Inr c)
  then show ?thesis using runCycle_chainId [where W = W and c = c and run = run and w = w]
    by (simp add: attempt_run_def Let_def case_prod_beta abortedReport_def split: sum.splits)
qed (simp add: attempt_run_def abortedReport_def Let_def case_prod_beta)

lemma scheduled_log:
  "case runScheduled (watch W) env cron t (w, []) of
     (Inl e, wl) \<Rightarrow> raw_rpc_urls W env = Inl e \<and> snd wl = []
   | (Inr report, wl) \<Rightarrow> \<exists>answer raw. report = scrubReport raw (armed_scrubber W env) \<and>
       k_chainId raw = di_chainId (readIdentity (wk_platform W) env) \<and>
       snd wl = run_trace W env (armed_scrubber W env) (alerts_warnings W env) report answer"
proof (cases "raw_rpc_urls W env")
  case (Inl e)
  then show ?thesis by (simp add: runScheduled_def Let_def case_prod_beta)
next
  case (Inr urls)
  let ?run = "\<lparr>ri_identity = readIdentity (wk_platform W) env, ri_cron = cron,
    ri_scheduledTime = t, ri_startedAt = fst (wk_now W w)\<rparr>"
  let ?a = "attempt_run (watch W) env ?run (snd (wk_now W w), [])"
  obtain answer where "snd (deliver (watch W) env (armed_scrubber W env) (fst ?a)
      (scrubReport (fst (snd ?a)) (armed_scrubber W env)) (snd (snd ?a))) =
    snd (snd (snd ?a)) @ run_trace W env (armed_scrubber W env) (fst ?a)
      (scrubReport (fst (snd ?a)) (armed_scrubber W env)) answer"
    using watch_deliver [of W] by blast
  moreover have "snd (snd (snd ?a)) = []" by (simp add: watch_attempt case_prod_beta)
  moreover have "armed_scrubber W env = run_scrubber W env urls" by (simp add: armed_scrubber_def Inr)
  moreover have "k_chainId (fst (snd ?a)) = di_chainId (readIdentity (wk_platform W) env)"
    by (simp add: attempt_chainId)
  ultimately show ?thesis using attempt_notify [of "watch W"]
    by (auto simp: runScheduled_def Let_def case_prod_beta Inr silent_apply)
qed

section \<open>What is said and what is kept\<close>

fun line_texts :: "console_line \<Rightarrow> jstring list" where
  "line_texts (ReportLine level report) = report_texts report"
| "line_texts (NotifyFailedLine deployment status reason) = [deployment, status, reason]"

text \<open>The texts of an event; the address an alert is posted to holds the bot token by design.\<close>

fun event_texts :: "worker_event \<Rightarrow> jstring list" where
  "event_texts (Printed line) = line_texts line"
| "event_texts (Posted req answer) = [treq_text req]"

lemma trace_texts:
  assumes "report = scrubReport raw (armed_scrubber W env)"
    and "\<And>t. \<not> tells key (armed_scrubber W env t)"
    and "\<not> tells key (formatTelegramMessage (wk_platform W) report)"
  shows "list_all (\<lambda>e. list_all (\<lambda>t. \<not> js_includes key t) (event_texts e))
    (run_trace W env (armed_scrubber W env) nw report answer)"
proof -
  have "list_all (\<lambda>t. \<not> tells key t) (report_texts report)"
    using assms(1,2) by (simp add: scrubbed_texts list_all_iff)
  moreover from this have "\<not> tells key (k_deployment report)" "\<not> tells key (k_status report)"
    by (auto simp: report_texts_def)
  ultimately show ?thesis using assms(2,3)
    by (auto simp: run_trace_def telegram_request_def tells_def js_includes_sublist list_all_iff
        split: option.split)
qed

lemma raw_rpc_urls_throws: "(\<exists>e. raw_rpc_urls W env = Inl e) = (env RPC_URL = Some EnvOther)"
  by (simp add: raw_rpc_urls_def split: option.split env_value.split)

lemma raw_urls_returned:
  assumes "runScheduled W env cron t w = (Inr report, w')"
  shows "env RPC_URL \<noteq> Some EnvOther"
  using assms raw_rpc_urls_throws [of W env]
  by (auto simp: runScheduled_def Let_def case_prod_beta split: sum.splits)

text \<open>Watching changes neither the report nor the world.\<close>

lemma watch_deliver_world: "fst (deliver (watch W) env scrub nw report (w, l)) = deliver W env scrub nw report w"
proof (cases "readTelegramConfig env")
  case None
  then show ?thesis by (simp add: deliver_def logReport_def)
next
  case (Some c)
  show ?thesis
    by (simp add: deliver_def Some Let_def case_prod_beta logReport_def watch_send_result watch_simps)
qed

lemma watch_run:
  "(case runScheduled (watch W) env cron t (w, l) of (x, wl) \<Rightarrow> (x, fst wl)) = runScheduled W env cron t w"
  by (simp add: runScheduled_def Let_def case_prod_beta silent_apply watch_attempt watch_deliver_world
      split: sum.split)

text \<open>The bindings of a key are trimmed; a key has no white units at its ends.\<close>

lemma trim_padded_key: "is_hex32 key \<Longrightarrow> js_trim (key @ [newline]) = key"
proof -
  assume key: "is_hex32 key"
  have white: "\<not> is_white c" if "c \<in> set key" for c
  proof -
    have "is_hex_digit c \<or> c = 0x78" using key_units [OF key that] .
    then show ?thesis by (auto simp: is_white_def white_units_def is_hex_digit_def is_digit_def)
  qed
  have ne: "key \<noteq> []" using key_facts(1) [OF key] by auto
  have "dropWhile is_white (key @ [newline]) = key @ [newline]"
    using white [of "hd key"] ne by (cases key) auto
  moreover have "dropWhile is_white (rev key) = rev key"
    using white [of "last key"] ne by (cases key rule: rev_cases) auto
  ultimately show ?thesis by (simp add: js_trim_def newline_white)
qed

section \<open>Properties\<close>

text \<open>
  C32: a scheduled run logs exactly one report, the one it returns, at the level of its status, and posts at
  most one alert: the alert is posted exactly when a usable channel is configured and the report is a
  failure, or a warning where the configuration alerts on warnings. The post is recorded with its answer;
  exactly when this is an error or no success, a second line is logged, with the reason in it scrubbed. The
  only run that logs nothing, and the only one that throws, is the one whose \<open>RPC_URL\<close> binding is not a
  text. Observing the run changes neither its report nor the world.
\<close>

theorem run_logs_once_and_alerts:
  "case runScheduled (watch W) env cron t (w, []) of
     (x, w', events) \<Rightarrow>
       runScheduled W env cron t w = (x, w') \<and> is_Inl x = (env RPC_URL = Some EnvOther) \<and>
       (case x of
          Inl _ \<Rightarrow> events = []
        | Inr report \<Rightarrow>
            \<exists>answer. events = run_trace W env (armed_scrubber W env) (alerts_warnings W env) report answer)"
proof -
  obtain x w' events where run: "runScheduled (watch W) env cron t (w, []) = (x, w', events)"
    by (metis prod_cases3)
  then have plain: "runScheduled W env cron t w = (x, w')"
    using watch_run [of W env cron t w "[]"] by simp
  note log = scheduled_log [of W env cron t w, unfolded run]
  show ?thesis
  proof (cases x)
    case (Inl e)
    then show ?thesis using run plain log raw_rpc_urls_throws [of W env] by simp
  next
    case (Inr report)
    then show ?thesis using run plain log raw_urls_returned [OF plain [unfolded Inr]] by auto
  qed
qed

text \<open>
  C33: a scheduled invocation that succeeds did its work: the bindings were a valid configuration, at
  least one endpoint answered for the right chain, the client was made of exactly the endpoints that
  did, and the cycle it ran has no failed volume and no error to tell.
\<close>

theorem scheduled_success_means_cycle_ran:
  "case fst (scheduled W env cron t w) of
     Inl _ \<Rightarrow> True
   | Inr _ \<Rightarrow>
       (case readConfig (wk_platform W) env of
          Inl _ \<Rightarrow> False
        | Inr c \<Rightarrow>
            let (endpoints, w1) = probeEndpoints (wk_net W) (wk_platform W) (cfg_endpoints c)
                  (cfg_chain c) PROBE_TIMEOUT_MS (snd (wk_now W (wk_noRetry W w)))
            in list_all (sound_health (cfg_chain c)) endpoints \<and> list_ex eh_ok endpoints \<and>
               (case wk_client W (buildClient (cfg_chain c) (cfg_privateKey c) (map eh_url (filter eh_ok endpoints))) of
                  Inl _ \<Rightarrow> False
                | Inr client \<Rightarrow>
                    let r = fst (runKeeperCycle client (wk_viem W) (cycle_params_of c) w1)
                    in cr_failed r = [] \<and> truthy (cr_error r) = None))"
proof (cases "fst (scheduled W env cron t w)")
  case (Inr u)
  let ?w0 = "snd (wk_now W (wk_noRetry W w))"
  let ?run = "\<lparr>ri_identity = readIdentity (wk_platform W) env, ri_cron = Some cron,
    ri_scheduledTime = Some t, ri_startedAt = fst (wk_now W (wk_noRetry W w))\<rparr>"
  obtain urls where urls: "raw_rpc_urls W env = Inr urls"
    and ok: "k_status (scrubReport (fst (snd (attempt_run W env ?run ?w0))) (run_scrubber W env urls))
      \<noteq> js ''failure''"
    using Inr by (auto simp: scheduled_def runScheduled_def Let_def case_prod_beta
        split: sum.splits if_splits)
  note kept = made.aborted_status_kept made.cycle_status_kept
  from ok obtain c where c: "readConfig (wk_platform W) env = Inr c"
    by (cases "readConfig (wk_platform W) env")
      (auto simp: attempt_run_def Let_def case_prod_beta run_scrubber_def kept)
  from ok c obtain report w2 where rc: "runCycle W c ?run ?w0 = (Inr report, w2)"
    and st: "k_status (scrubReport report (run_scrubber W env urls)) \<noteq> js ''failure''"
    by (cases "runCycle W c ?run ?w0"; cases "fst (runCycle W c ?run ?w0)")
      (auto simp: attempt_run_def Let_def case_prod_beta run_scrubber_def kept)
  obtain es w1 where p: "probeEndpoints (wk_net W) (wk_platform W) (cfg_endpoints c) (cfg_chain c)
      PROBE_TIMEOUT_MS ?w0 = (es, w1)" by (metis surj_pair)
  have sound: "list_all (sound_health (cfg_chain c)) es"
    using probe_sound [of "wk_net W" "wk_platform W" "cfg_endpoints c" "cfg_chain c" PROBE_TIMEOUT_MS ?w0] p
    by simp
  have usable: "usable_endpoints es \<noteq> []"
    using rc st p by (auto simp: runCycle_def Let_def case_prod_beta run_scrubber_def kept)
  then obtain client where cl: "wk_client W (buildClient (cfg_chain c) (cfg_privateKey c)
      (usable_endpoints es)) = Inr client"
    using rc p by (auto simp: runCycle_def Let_def case_prod_beta split: sum.splits)
  let ?r = "fst (runKeeperCycle client (wk_viem W) (cycle_params_of c) w1)"
  obtain b t' where "report = cycleReport (wk_platform W) t'
      (cycle_input ?run c (client_address client) es ?r b)"
    using rc p cl usable by (auto simp: runCycle_def Let_def case_prod_beta)
  then have "k_status (cycleReport (wk_platform W) t' (cycle_input ?run c (client_address client) es ?r b))
      \<noteq> js ''failure''"
    using st by (simp add: run_scrubber_def kept)
  moreover have acc: "accounting (ci_result (cycle_input ?run c (client_address client) es ?r b))"
    by (simp add: cycle_input_def run_accounting)
  ultimately have "cr_failed ?r = [] \<and> truthy (cr_error ?r) = None"
    using not_failure_iff [OF acc, of "wk_platform W" t'] by (simp add: cycle_input_def)
  moreover have "list_ex eh_ok es" using usable by (auto simp: usable_endpoints_def list_ex_iff filter_empty_conv)
  ultimately show ?thesis using Inr c p sound cl [unfolded usable_endpoints_def] by (simp add: Let_def)
qed simp

text \<open>
  C40: \<open>GET /health\<close>, and no other path, answers from the bindings alone: configured exactly when every
  setting is right and viem accepts the key, with the deployment's name, chain, registry, wallet and mode of
  the bindings; misconfigured, with at least one problem, exactly when some setting is wrong; a key of the
  right shape that viem refuses makes the handler throw.
\<close>

theorem health_tells_configuration:
  "case handle_fetch W env path of
     Inr (Configured deployment chainId chainName registry keeper dryRun) \<Rightarrow>
       path = js ''/health'' \<and> settings_ok (wk_platform W) env \<and>
       wk_account W (env_text env PRIVATE_KEY) = Inr keeper \<and>
       deployment = env_text env DEPLOYMENT_NAME \<and> registry = env_text env REGISTRY_ADDRESS \<and>
       (\<exists>ch. chain_at (wk_platform W)
          (string_to_number (number_rest (wk_platform W)) (env_text env CHAIN_ID)) = Some ch \<and>
          chainId = chain_id ch \<and> chainName = chain_name ch) \<and>
       dryRun = (js_lower (env_text env DRY_RUN) = js ''true'')
   | Inr (Misconfigured identity problems) \<Rightarrow>
       path = js ''/health'' \<and> \<not> settings_ok (wk_platform W) env \<and> problems \<noteq> []
   | Inr NotFound \<Rightarrow> path \<noteq> js ''/health''
   | Inl e \<Rightarrow> path = js ''/health'' \<and> settings_ok (wk_platform W) env \<and>
       wk_account W (env_text env PRIVATE_KEY) = Inl e"
proof (cases "path = js ''/health''")
  case True
  have flag: "fst (config_flag env DRY_RUN) = (js_lower (env_text env DRY_RUN) = js ''true'')"
    by (simp add: config_flag_def Let_def js_def)
  show ?thesis
  proof (cases "settings_ok (wk_platform W) env")
    case ok: True
    then obtain ch where "readConfig (wk_platform W) env = Inr (build_config (wk_platform W) env ch)"
      "chain_at (wk_platform W) (string_to_number (number_rest (wk_platform W)) (env_text env CHAIN_ID)) = Some ch"
      using readConfig_cases [of "wk_platform W" env] by blast
    then show ?thesis using True ok
      by (cases "wk_account W (env_text env PRIVATE_KEY)")
        (simp_all add: handle_fetch_def build_config_def Let_def flag)
  next
    case bad: False
    then have "readConfig (wk_platform W) env =
        Inl (statement_problems (wk_platform W) env @ field_problems (wk_platform W) env)"
      "statement_problems (wk_platform W) env @ field_problems (wk_platform W) env \<noteq> []"
      using readConfig_cases [of "wk_platform W" env] problems_Nil [of "wk_platform W" env] by blast+
    then show ?thesis using True bad by (simp add: handle_fetch_def)
  qed
qed (simp add: handle_fetch_def)

text \<open>
  C34: a run never tells the private key. Nothing it prints and no alert it posts holds the key, be the
  configuration valid or not and whatever errors the endpoints, viem or Telegram answer with, when
  the binding is the bare key and the redacted URLs keep it out at their ends. (A chain id in the binding is
  below 10^21, where JavaScript writes numbers as digits.)
\<close>

theorem run_hides_private_key:
  assumes "env PRIVATE_KEY = Some (EnvText key)" and "is_hex32 key"
    and "case raw_rpc_urls W env of Inl _ \<Rightarrow> True
         | Inr urls \<Rightarrow> list_all (\<lambda>url. guards (redact (parse_url (wk_platform W)) url) key) urls"
    and "case di_chainId (readIdentity (wk_platform W) env) of None \<Rightarrow> True | Some n \<Rightarrow> n < 10 ^ 21"
  shows "list_all (\<lambda>e. list_all (\<lambda>t. \<not> js_includes key t) (event_texts e))
    (snd (snd (runScheduled (watch W) env cron t (w, []))))"
proof (cases "raw_rpc_urls W env")
  case (Inl e)
  then show ?thesis by (simp add: runScheduled_def Let_def case_prod_beta silent_apply)
next
  case (Inr urls)
  have secret: "key \<in> set [raw_secret env TELEGRAM_BOT_TOKEN, raw_secret env PRIVATE_KEY]"
    using assms(1) by (simp add: raw_secret_def)
  have guard: "list_all (\<lambda>url. guards (redact (parse_url (wk_platform W)) url) key) urls"
    using assms(3) Inr by simp
  note armed = armed_scrubber_def [of W env, unfolded Inr, simplified, unfolded run_scrubber_def]
  have hides: "\<not> tells key (armed_scrubber W env u)" for u
    unfolding armed by (rule scrubber_hides_key [OF assms(2) secret guard])
  obtain report wl where run: "runScheduled (watch W) env cron t (w, []) = (Inr report, wl)"
    using scheduled_log [of W env cron t w] Inr
    by (cases "runScheduled (watch W) env cron t (w, [])") (auto split: sum.splits)
  with scheduled_log [of W env cron t w] obtain answer raw where
    raw: "report = scrubReport raw (armed_scrubber W env)"
      "k_chainId raw = di_chainId (readIdentity (wk_platform W) env)" and
    trace: "snd wl = run_trace W env (armed_scrubber W env) (alerts_warnings W env) report answer"
    by auto
  have chain: "k_chainId report = di_chainId (readIdentity (wk_platform W) env)"
    using raw by (simp add: scrubReport_def)
  have texts: "list_all (\<lambda>t. \<not> tells key t) (report_texts report)"
    unfolding raw(1) scrubbed_texts by (simp add: list_all_iff hides)
  have "\<not> tells key (formatTelegramMessage (wk_platform W) report)"
    by (rule alert_hides [OF assms(2) texts]) (simp add: chain assms(4))
  from trace_texts [OF raw(1) hides this] show ?thesis by (simp add: run trace)
qed

text \<open>A Worker whose network, account and console do nothing.\<close>

definition sample_worker :: "unit worker" where
  "sample_worker =
     \<lparr>wk_platform = sample_platform, wk_viem = sample_viem,
      wk_net = \<lparr>net_now = (\<lambda>w. (0, w)), net_chain_id = (\<lambda>_ _ w. (Inr 100, w)),
                net_block_number = (\<lambda>_ _ w. (Inr 1, w))\<rparr>,
      wk_now = (\<lambda>w. (0, w)), wk_account = (\<lambda>k. Inr k),
      wk_client = (\<lambda>_. Inl (ErrorObject (js ''invalid private key''))),
      wk_fetch = (\<lambda>_ w. (Inl (ErrorObject (js ''offline'')), w)),
      wk_print = (\<lambda>_ w. w), wk_noRetry = (\<lambda>w. w),
      wk_not_a_function = js ''split is not a function''\<rparr>"

theorem run_hides_private_key_witness:
  "list_all (\<lambda>e. list_all (\<lambda>t. \<not> js_includes sample_key t) (event_texts e))
     (snd (snd (runScheduled (watch sample_worker)
        [PRIVATE_KEY \<mapsto> EnvText sample_key, RPC_URL \<mapsto> EnvText sample_url] None None ((), []))))"
proof (rule run_hides_private_key)
  let ?env = "[PRIVATE_KEY \<mapsto> EnvText sample_key, RPC_URL \<mapsto> EnvText sample_url]"
  show "is_hex32 sample_key"
    by (simp add: is_hex32_def sample_key_def js_starts_with_def is_hex_digit_def list_all_iff)
  have "env_list sample_url = [sample_url]" by code_simp
  then have "raw_rpc_urls sample_worker ?env = Inr [sample_url]" by (simp add: raw_rpc_urls_def)
  moreover have "guards (redact (parse_url (wk_platform sample_worker)) sample_url) sample_key"
    by (simp add: sample_worker_def sample_platform_def guards_def redact_def sample_parse_url_def sample_key_def
        ellipsis_def js_def js_starts_with_def)
  ultimately show "case raw_rpc_urls sample_worker ?env of Inl _ \<Rightarrow> True
    | Inr urls \<Rightarrow> list_all (\<lambda>url. guards (redact (parse_url (wk_platform sample_worker)) url) sample_key) urls"
    by simp
qed (simp_all add: readIdentity_def env_text_def string_to_number_def js_trim_def Let_def)

section \<open>Where the code falls short\<close>

text \<open>
  The scrubber is armed with the raw bindings and the configuration uses the trimmed ones: a
  private key with a line break behind it is accepted as the key, and the key itself then passes
  the run's scrubber unchanged.
\<close>

lemma padded_key_is_not_masked:
  assumes "is_hex32 key"
  shows "env_text [PRIVATE_KEY \<mapsto> EnvText (key @ [newline])] PRIVATE_KEY = key \<and>
    armed_scrubber W [PRIVATE_KEY \<mapsto> EnvText (key @ [newline])] (js ''bad key '' @ key) = js ''bad key '' @ key"
proof -
  let ?env = "[PRIVATE_KEY \<mapsto> EnvText (key @ [newline])]"
  have "\<not> js_includes (key @ [newline]) (js ''bad key '' @ key)"
  proof
    assume "js_includes (key @ [newline]) (js ''bad key '' @ key)"
    then have "newline \<in> set (js ''bad key '' @ key)"
      using set_mono_sublist [of "key @ [newline]" "js ''bad key '' @ key"]
      by (auto simp: js_includes_sublist)
    then show False using key_facts(2) [OF assms] by (auto simp: js_def newline_def)
  qed
  then have "makeScrubber (parse_url (wk_platform W)) [] [[], key @ [newline]] (js ''bad key '' @ key) =
      js ''bad key '' @ key"
    using key_facts(1) [OF assms]
    by (simp add: makeScrubber_def usable_pairs_def scrub_pairs_def replace_all_absent)
  moreover have "raw_rpc_urls W ?env = Inr []"
    by (simp add: raw_rpc_urls_def env_list_def js_split_def)
  ultimately have "armed_scrubber W ?env (js ''bad key '' @ key) = js ''bad key '' @ key"
    by (simp add: armed_scrubber_def run_scrubber_def raw_secret_def)
  moreover have "env_text ?env PRIVATE_KEY = key"
    using trim_padded_key [OF assms] by (simp add: env_text_def)
  ultimately show ?thesis by simp
qed

lemma padded_key_is_not_masked_witness:
  "env_text [PRIVATE_KEY \<mapsto> EnvText (sample_key @ [newline])] PRIVATE_KEY = sample_key \<and>
   armed_scrubber sample_worker [PRIVATE_KEY \<mapsto> EnvText (sample_key @ [newline])]
     (js ''bad key '' @ sample_key) = js ''bad key '' @ sample_key"
  by (rule padded_key_is_not_masked)
    (simp add: is_hex32_def sample_key_def js_starts_with_def is_hex_digit_def list_all_iff)

text \<open>
  A cycle that threw an error with an empty message is not ok, and its report is not a failure:
  the invocation succeeds although the cycle enumerated nothing.
\<close>

lemma empty_error_is_not_a_failure:
  assumes "fst (get_block_number C (snd (date_now C w))) = Inl (ErrorObject [])"
  shows "\<not> cr_ok (fst (runKeeperCycle C V P w)) \<and>
    k_status (cycleReport L t (i\<lparr>ci_result := fst (runKeeperCycle C V P w)\<rparr>)) \<noteq> js ''failure''"
proof -
  let ?r = "fst (runKeeperCycle C V P w)"
  have r: "\<not> cr_ok ?r \<and> cr_error ?r = Some [] \<and> cr_failed ?r = []"
    using assms
    by (simp add: runKeeperCycle_def cycle_body_def Let_def case_prod_beta initial_result_def)
  have acc: "accounting (ci_result (i\<lparr>ci_result := ?r\<rparr>))" by (simp add: run_accounting)
  show ?thesis using r not_failure_iff [OF acc, of L t] by simp
qed

text \<open>A client that answers nothing.\<close>

definition silent_client :: "unit client" where
  "silent_client =
     \<lparr>client_address = js ''0xk'', client_chainId = Some 100, date_now = (\<lambda>w. (0, w)),
      get_block_number = (\<lambda>w. (Inl (ErrorObject []), w)),
      read_active_count = (\<lambda>_ _ w. (Inl (ErrorObject []), w)),
      multicall_active_pages = (\<lambda>_ _ _ w. (Inl (ErrorObject []), w)),
      multicall_volumes = (\<lambda>_ _ _ w. (Inl (ErrorObject []), w)),
      get_transaction_count = (\<lambda>_ w. (Inl (ErrorObject []), w)),
      get_block = (\<lambda>w. (Inl (ErrorObject []), w)),
      estimate_priority_fee = (\<lambda>w. (Inl (ErrorObject []), w)),
      simulate_trigger = (\<lambda>_ _ w. (Inl (ErrorObject []), w)),
      estimate_trigger_gas = (\<lambda>_ _ w. (Inl (ErrorObject []), w)),
      write_contract = (\<lambda>_ w. (Inl (ErrorObject []), w)),
      wait_for_receipt = (\<lambda>_ _ _ w. (Inl (ErrorObject []), w)),
      get_balance = (\<lambda>_ w. (Inl (ErrorObject []), w))\<rparr>"

definition sample_input :: cycle_report_input where
  "sample_input =
     \<lparr>ri_identity = ri_identity sample_run, ri_cron = None, ri_scheduledTime = None, ri_startedAt = 0,
      ci_chain = viem_gnosis sample_platform, ci_keeper = js ''0xk'', ci_dryRun = False,
      ci_endpoints = [], ci_result = initial_result sample_params, ci_balanceWei = None,
      ci_minBalanceWei = 0\<rparr>"

lemma empty_error_is_not_a_failure_witness:
  "\<not> cr_ok (fst (runKeeperCycle silent_client sample_viem sample_params ())) \<and>
   k_status (cycleReport sample_platform 0 (sample_input\<lparr>ci_result :=
     fst (runKeeperCycle silent_client sample_viem sample_params ())\<rparr>)) \<noteq> js ''failure''"
  by (rule empty_error_is_not_a_failure) (simp add: silent_client_def)

end
