(* ===== verification/VolumeRegistry.thy ===== *)
theory VolumeRegistry
  imports KeeperPrelude
begin

unbundle bit_operations_syntax

text \<open>
  \<open>contracts/src/VolumeRegistry.sol\<close> and the types of
  \<open>contracts/src/interfaces/IVolumeRegistryViews.sol\<close>: the contract's storage and every operation on
  it, at the widths of the contract.

  A call is a function of the caller's context and the chain's state that reverts with an error or
  returns with the new state; a revert leaves the state of the caller of the function, as it has no
  state of its own. The two contracts the registry calls, PostageStamp and the BZZ token, are the
  fields of \<open>externals\<close>: reads of their state, and calls that change it or revert. They do not call
  the registry back. \<open>keccak256(abi.encode(...))\<close> is a field too.
\<close>

section \<open>Types\<close>

type_synonym bytes32 = "256 word"
type_synonym uint256 = "256 word"
type_synonym uint64 = "64 word"
type_synonym uint32 = "32 word"
type_synonym uint8 = "8 word"
type_synonym sol_address = "160 word"

datatype volume_status = StatusNone | StatusActive | StatusRetired

datatype retire_reason =
    RetireNone | OwnerDeleted | VolumeExpired | BatchDied | DepthChanged | BatchOwnerMismatch

datatype skip_reason = SkipNone | NoAuth | PaymentFailed | SkipNotFound | SkipNotActive

text \<open>The codes the enums are encoded with in events and views.\<close>

fun status_code :: "volume_status \<Rightarrow> nat" where
  "status_code StatusNone = 0"
| "status_code StatusActive = 1"
| "status_code StatusRetired = 2"

fun retire_code :: "retire_reason \<Rightarrow> nat" where
  "retire_code RetireNone = 0"
| "retire_code OwnerDeleted = 1"
| "retire_code VolumeExpired = 2"
| "retire_code BatchDied = 3"
| "retire_code DepthChanged = 4"
| "retire_code BatchOwnerMismatch = 5"

fun skip_code :: "skip_reason \<Rightarrow> nat" where
  "skip_code SkipNone = 0"
| "skip_code NoAuth = 1"
| "skip_code PaymentFailed = 2"
| "skip_code SkipNotFound = 3"
| "skip_code SkipNotActive = 4"

datatype trigger_outcome = OutcomeRetired | OutcomeSkipped | OutcomeNoDeficit | OutcomeToppedUp

record volume =
  v_owner :: sol_address
  v_chunkSigner :: sol_address
  v_batchId :: bytes32
  v_createdAt :: uint64
  v_ttlExpiry :: uint64
  v_depth :: uint8
  v_status :: volume_status
  v_activeIndex :: uint32

record account =
  a_payer :: sol_address
  a_active :: bool
  a_nonce :: uint64

record sol_volume_view =
  sv_volumeId :: bytes32
  sv_batchId :: bytes32
  sv_owner :: sol_address
  sv_payer :: sol_address
  sv_chunkSigner :: sol_address
  sv_createdAt :: uint64
  sv_ttlExpiry :: uint64
  sv_depth :: uint8
  sv_status :: volume_status
  sv_accountActive :: bool

datatype sol_event =
    LogVolumeCreated bytes32 sol_address bytes32 sol_address uint8 uint64
  | LogVolumeImported bytes32 sol_address bytes32 sol_address uint8 uint64 uint256
  | LogVolumeRetired bytes32 retire_reason
  | LogPayerDesignated sol_address sol_address
  | LogAccountActivated sol_address sol_address
  | LogAccountRevoked sol_address sol_address sol_address
  | LogToppedup bytes32 uint256 uint256
  | LogTopupSkipped bytes32 skip_reason

datatype sol_error =
    ZeroAddress
  | GraceBlocksBelowFloor uint64 uint64
  | AccountNotActive
  | NotVolumeOwner
  | VolumeNotActive
  | NotDesignated
  | NotAuthorizedToRevoke
  | DesignationClearedOnActivate
  | BatchNotLive
  | BatchDepthTooSmall
  | ImportTopupFailed
  | RequireFailed string
  | Panic
  | ExternalRevert

section \<open>Storage, wiring and the outside\<close>

record registry =
  volumes :: "bytes32 \<Rightarrow> volume"
  designated :: "sol_address \<Rightarrow> sol_address"
  accounts :: "sol_address \<Rightarrow> account"
  activeVolumeIds :: "bytes32 list"
  nextNonce :: uint256

record wiring =
  w_self :: sol_address
  w_postage :: sol_address
  w_graceBlocks :: uint64
  w_bzzPermitExpiry :: bool

record batch =
  b_owner :: sol_address
  b_depth :: uint8
  b_normalisedBalance :: uint256

record 'x externals =
  x_batches :: "bytes32 \<Rightarrow> 'x \<Rightarrow> batch"
  x_currentTotalOutPayment :: "'x \<Rightarrow> uint256"
  x_lastPrice :: "'x \<Rightarrow> uint64"
  x_minimumValidityBlocks :: "'x \<Rightarrow> uint64"
  x_minimumBucketDepth :: "'x \<Rightarrow> uint8"
  x_createBatch ::
    "sol_address \<Rightarrow> uint256 \<Rightarrow> uint8 \<Rightarrow> uint8 \<Rightarrow> bytes32 \<Rightarrow> bool \<Rightarrow> 'x \<Rightarrow> (bytes32 \<times> 'x) option"
  x_topUp :: "bytes32 \<Rightarrow> uint256 \<Rightarrow> 'x \<Rightarrow> 'x option"
  x_balanceOf :: "sol_address \<Rightarrow> 'x \<Rightarrow> uint256"
  x_allowance :: "sol_address \<Rightarrow> sol_address \<Rightarrow> 'x \<Rightarrow> uint256"
  x_expirations :: "sol_address \<Rightarrow> sol_address \<Rightarrow> 'x \<Rightarrow> uint256"
  x_has_expirations :: "'x \<Rightarrow> bool"
  x_transferFrom :: "sol_address \<Rightarrow> sol_address \<Rightarrow> uint256 \<Rightarrow> 'x \<Rightarrow> (bool \<times> 'x) option"
  x_approve :: "sol_address \<Rightarrow> uint256 \<Rightarrow> 'x \<Rightarrow> (bool \<times> 'x) option"
  x_hash_volume :: "sol_address \<Rightarrow> uint64 \<Rightarrow> bytes32"
  x_hash_batch :: "sol_address \<Rightarrow> bytes32 \<Rightarrow> bytes32"

text \<open>The caller and the time of a call, and the state a transaction works on.\<close>

record call_context =
  msg_sender :: sol_address
  block_timestamp :: uint256

record 'x chain_state =
  st_registry :: registry
  st_ext :: 'x
  st_events :: "sol_event list"

type_synonym ('x, 'a) sol = "'x chain_state \<Rightarrow> sol_error + ('a \<times> 'x chain_state)"

definition emit :: "sol_event \<Rightarrow> 'x chain_state \<Rightarrow> 'x chain_state" where
  "emit e s = s\<lparr>st_events := st_events s @ [e]\<rparr>"

definition set_registry :: "registry \<Rightarrow> 'x chain_state \<Rightarrow> 'x chain_state" where
  "set_registry r s = s\<lparr>st_registry := r\<rparr>"

text \<open>Checked addition of Solidity 0.8: \<open>None\<close> is the panic.\<close>

definition checked_add :: "uint256 \<Rightarrow> uint256 \<Rightarrow> uint256 option" where
  "checked_add a b = (if a + b < a then None else Some (a + b))"

text \<open>The constructor: what has to hold of the wiring, and the empty storage.\<close>

definition zero_volume :: volume where
  "zero_volume =
     \<lparr>v_owner = 0, v_chunkSigner = 0, v_batchId = 0, v_createdAt = 0, v_ttlExpiry = 0, v_depth = 0,
      v_status = StatusNone, v_activeIndex = 0\<rparr>"

definition empty_registry :: registry where
  "empty_registry =
     \<lparr>volumes = (\<lambda>_. zero_volume), designated = (\<lambda>_. 0),
      accounts = (\<lambda>_. \<lparr>a_payer = 0, a_active = False, a_nonce = 0\<rparr>), activeVolumeIds = [],
      nextNonce = 0\<rparr>"

definition deploy ::
  "'x externals \<Rightarrow> sol_address \<Rightarrow> sol_address \<Rightarrow> sol_address \<Rightarrow> uint64 \<Rightarrow> bool \<Rightarrow> 'x \<Rightarrow>
     sol_error + (wiring \<times> 'x chain_state)" where
  "deploy X self postage bzz graceBlocks bzzPermitExpiry x =
     (if postage = 0 \<or> bzz = 0 then Inl ZeroAddress
      else
        (let minimum = x_minimumValidityBlocks X x in
         if graceBlocks < minimum then Inl (GraceBlocksBelowFloor graceBlocks minimum)
         else if bzzPermitExpiry \<and> \<not> x_has_expirations X x then Inl ExternalRevert
         else Inr (\<lparr>w_self = self, w_postage = postage, w_graceBlocks = graceBlocks,
                    w_bzzPermitExpiry = bzzPermitExpiry\<rparr>,
                   \<lparr>st_registry = empty_registry, st_ext = x, st_events = []\<rparr>)))"

section \<open>Accounts\<close>

definition designateFundingWallet :: "call_context \<Rightarrow> sol_address \<Rightarrow> ('x, unit) sol" where
  "designateFundingWallet c payer s =
     (let r = st_registry s in
      Inr ((), emit (LogPayerDesignated (msg_sender c) payer)
        (set_registry (r\<lparr>designated := (designated r)(msg_sender c := payer)\<rparr>) s)))"

definition confirmAuth :: "call_context \<Rightarrow> sol_address \<Rightarrow> ('x, unit) sol" where
  "confirmAuth c owner s =
     (let r = st_registry s in
      if designated r owner \<noteq> msg_sender c then Inl NotDesignated
      else
        (let acct = (accounts r owner)\<lparr>a_payer := msg_sender c, a_active := True\<rparr> in
         Inr ((), emit (LogAccountActivated owner (msg_sender c))
           (set_registry (r\<lparr>accounts := (accounts r)(owner := acct)\<rparr>) s))))"

definition revoke :: "call_context \<Rightarrow> sol_address \<Rightarrow> ('x, unit) sol" where
  "revoke c owner s =
     (let r = st_registry s; acct = accounts r owner in
      if msg_sender c \<noteq> owner \<and> msg_sender c \<noteq> a_payer acct then Inl NotAuthorizedToRevoke
      else
        Inr ((), emit (LogAccountRevoked owner (a_payer acct) (msg_sender c))
          (set_registry (r\<lparr>accounts := (accounts r)(owner := acct\<lparr>a_active := False\<rparr>)\<rparr>) s)))"

section \<open>Internals\<close>

definition recordVolume ::
  "'x externals \<Rightarrow> call_context \<Rightarrow> bytes32 \<Rightarrow> sol_address \<Rightarrow> uint8 \<Rightarrow> uint64 \<Rightarrow> ('x, bytes32) sol" where
  "recordVolume X c batchId chunkSigner depth ttlExpiry s =
     (let r = st_registry s; acct = accounts r (msg_sender c); n = a_nonce acct;
          volumeId = x_hash_volume X (msg_sender c) n;
          acct' = acct\<lparr>a_nonce := n + 1\<rparr>
      in if v_status (volumes r volumeId) \<noteq> StatusNone then Inl (RequireFailed ''VOLUMEID_COLLISION'')
         else
           (let idx = of_nat (length (activeVolumeIds r));
                v = \<lparr>v_owner = msg_sender c, v_chunkSigner = chunkSigner, v_batchId = batchId,
                     v_createdAt = ucast (block_timestamp c), v_ttlExpiry = ttlExpiry,
                     v_depth = depth, v_status = StatusActive, v_activeIndex = idx\<rparr>
            in Inr (volumeId,
                 set_registry
                   (r\<lparr>volumes := (volumes r)(volumeId := v),
                      accounts := (accounts r)(msg_sender c := acct'),
                      activeVolumeIds := activeVolumeIds r @ [volumeId]\<rparr>) s)))"

text \<open>
  \<open>_retire\<close>: swap-and-pop. The panics are an empty array and an index behind its end; the invariant
  of the active set rules both out.
\<close>

definition retire :: "bytes32 \<Rightarrow> retire_reason \<Rightarrow> ('x, unit) sol" where
  "retire volumeId reason s =
     (let r = st_registry s;
          vols = (volumes r)(volumeId := (volumes r volumeId)\<lparr>v_status := StatusRetired\<rparr>);
          ids = activeVolumeIds r;
          idx = unat (v_activeIndex (volumes r volumeId));
          last = length ids - 1
      in if ids = [] then Inl Panic
         else if idx \<noteq> last \<and> length ids \<le> idx then Inl Panic
         else
           (let (ids', vols') =
                  (if idx \<noteq> last then
                     (let lastId = ids ! last in
                      (ids[idx := lastId],
                       vols(lastId := (vols lastId)\<lparr>v_activeIndex := of_nat idx\<rparr>)))
                   else (ids, vols));
                vols'' = vols'(volumeId := (vols' volumeId)\<lparr>v_activeIndex := 0\<rparr>)
            in Inr ((), emit (LogVolumeRetired volumeId reason)
                 (set_registry (r\<lparr>volumes := vols'', activeVolumeIds := butlast ids'\<rparr>) s))))"

text \<open>The two \<open>require\<close>d calls on the token, and the call on Postage.\<close>

definition require_call :: "('x \<Rightarrow> (bool \<times> 'x) option) \<Rightarrow> string \<Rightarrow> ('x, unit) sol" where
  "require_call f message s =
     (case f (st_ext s) of
        None \<Rightarrow> Inl ExternalRevert
      | Some (ok, x) \<Rightarrow> if ok then Inr ((), s\<lparr>st_ext := x\<rparr>) else Inl (RequireFailed message))"

definition canPull :: "'x externals \<Rightarrow> wiring \<Rightarrow> call_context \<Rightarrow> sol_address \<Rightarrow> uint256 \<Rightarrow> 'x \<Rightarrow> bool" where
  "canPull X w c payer amount x =
     (if x_balanceOf X payer x < amount then False
      else
        (let allowed = x_allowance X payer (w_self w) x in
         if allowed < amount then False
         else if w_bzzPermitExpiry w \<and> allowed = - 1 then
           (let expiry = x_expirations X payer (w_self w) x in
            \<not> (expiry \<noteq> 0 \<and> expiry < block_timestamp c))
         else True))"

section \<open>The trigger steps\<close>

definition expired :: "call_context \<Rightarrow> volume \<Rightarrow> bool" where
  "expired c v \<longleftrightarrow> v_ttlExpiry v \<noteq> 0 \<and> ucast (v_ttlExpiry v) \<le> block_timestamp c"

definition retired_with :: "bytes32 \<Rightarrow> retire_reason \<Rightarrow> ('x, trigger_outcome) sol" where
  "retired_with volumeId reason s =
     (case retire volumeId reason s of Inl e \<Rightarrow> Inl e | Inr (_, s') \<Rightarrow> Inr (OutcomeRetired, s'))"

text \<open>Steps 8 and 9: pull, approve, top up.\<close>

definition pay_topup ::
  "'x externals \<Rightarrow> wiring \<Rightarrow> bytes32 \<Rightarrow> bytes32 \<Rightarrow> sol_address \<Rightarrow> uint256 \<Rightarrow> uint256 \<Rightarrow> uint256 \<Rightarrow>
     ('x, trigger_outcome) sol" where
  "pay_topup X w volumeId batchId payer amount deficit balance s =
     (case require_call (x_transferFrom X payer (w_self w) amount) ''BZZ_TRANSFER_FAIL'' s of
        Inl e \<Rightarrow> Inl e
      | Inr (_, s1) \<Rightarrow>
     (case require_call (x_approve X (w_postage w) amount) ''BZZ_APPROVE_FAIL'' s1 of
        Inl e \<Rightarrow> Inl e
      | Inr (_, s2) \<Rightarrow>
     (case x_topUp X batchId deficit (st_ext s2) of
        None \<Rightarrow> Inl ExternalRevert
      | Some x \<Rightarrow>
     (case checked_add balance deficit of
        None \<Rightarrow> Inl Panic
      | Some newBalance \<Rightarrow>
          Inr (OutcomeToppedUp, emit (LogToppedup volumeId amount newBalance) (s2\<lparr>st_ext := x\<rparr>))))))"

definition triggerOne ::
  "'x externals \<Rightarrow> wiring \<Rightarrow> call_context \<Rightarrow> bytes32 \<Rightarrow> ('x, trigger_outcome) sol" where
  "triggerOne X w c volumeId s =
     (let v = volumes (st_registry s) volumeId; x = st_ext s in
      if v_status v \<noteq> StatusActive then
        Inr (OutcomeSkipped,
          emit (LogTopupSkipped volumeId
            (if v_status v = StatusNone then SkipNotFound else SkipNotActive)) s)
      else
        (let b = x_batches X (v_batchId v) x;
             outpayment = x_currentTotalOutPayment X x
         in if b_owner b = 0 \<or> b_normalisedBalance b \<le> outpayment then retired_with volumeId BatchDied s
            else if b_owner b \<noteq> v_chunkSigner v then retired_with volumeId BatchOwnerMismatch s
            else if b_depth b \<noteq> v_depth v then retired_with volumeId DepthChanged s
            else if expired c v then retired_with volumeId VolumeExpired s
            else
              (let acct = accounts (st_registry s) (v_owner v) in
               if \<not> a_active acct then
                 Inr (OutcomeSkipped, emit (LogTopupSkipped volumeId NoAuth) s)
               else
                 (let remaining = b_normalisedBalance b - outpayment;
                      target = ucast (x_lastPrice X x) * ucast (w_graceBlocks w)
                  in if target \<le> remaining then Inr (OutcomeNoDeficit, s)
                     else
                       (let deficit = target - remaining;
                            amount = push_bit (unat (v_depth v)) deficit
                        in if \<not> canPull X w c (a_payer acct) amount x then
                             Inr (OutcomeSkipped, emit (LogTopupSkipped volumeId PaymentFailed) s)
                           else pay_topup X w volumeId (v_batchId v) (a_payer acct) amount deficit
                                  (b_normalisedBalance b) s)))))"

section \<open>The external operations on volumes\<close>

definition createVolume ::
  "'x externals \<Rightarrow> wiring \<Rightarrow> call_context \<Rightarrow> sol_address \<Rightarrow> uint8 \<Rightarrow> uint8 \<Rightarrow> uint64 \<Rightarrow> bool \<Rightarrow>
     ('x, bytes32) sol" where
  "createVolume X w c chunkSigner depth bucketDepth ttlExpiry immutableBatch s =
     (let r = st_registry s; acct = accounts r (msg_sender c) in
      if \<not> a_active acct then Inl AccountNotActive
      else if chunkSigner = 0 then Inl ZeroAddress
      else
        (let perChunk = ucast (x_lastPrice X (st_ext s)) * ucast (w_graceBlocks w);
             totalCharge = push_bit (unat depth) perChunk
         in case require_call (x_transferFrom X (a_payer acct) (w_self w) totalCharge)
                   ''BZZ_TRANSFER_FAIL'' s of
              Inl e \<Rightarrow> Inl e
            | Inr (_, s1) \<Rightarrow>
           (case require_call (x_approve X (w_postage w) totalCharge) ''BZZ_APPROVE_FAIL'' s1 of
              Inl e \<Rightarrow> Inl e
            | Inr (_, s2) \<Rightarrow>
                (let nonce = nextNonce r;
                     s3 = set_registry (r\<lparr>nextNonce := nonce + 1\<rparr>) s2
                 in case x_createBatch X chunkSigner perChunk depth bucketDepth nonce immutableBatch
                           (st_ext s3) of
                      None \<Rightarrow> Inl ExternalRevert
                    | Some (batchId, x) \<Rightarrow>
                        if batchId \<noteq> x_hash_batch X (w_self w) nonce
                        then Inl (RequireFailed ''BATCHID_MISMATCH'')
                        else
                          (case recordVolume X c batchId chunkSigner depth ttlExpiry
                                  (s3\<lparr>st_ext := x\<rparr>) of
                             Inl e \<Rightarrow> Inl e
                           | Inr (volumeId, s4) \<Rightarrow>
                               Inr (volumeId, emit (LogVolumeCreated volumeId (msg_sender c) batchId
                                 chunkSigner depth ttlExpiry) s4))))))"

text \<open>The shared body of \<open>registerVolume\<close> and \<open>importVolume\<close>.\<close>

definition registerVolume ::
  "'x externals \<Rightarrow> call_context \<Rightarrow> bytes32 \<Rightarrow> uint64 \<Rightarrow> ('x, bytes32) sol" where
  "registerVolume X c batchId ttlExpiry s =
     (let acct = accounts (st_registry s) (msg_sender c);
          b = x_batches X batchId (st_ext s)
      in if \<not> a_active acct then Inl AccountNotActive
         else if b_owner b = 0 \<or> b_normalisedBalance b \<le> x_currentTotalOutPayment X (st_ext s)
         then Inl BatchNotLive
         else if b_depth b \<le> x_minimumBucketDepth X (st_ext s) then Inl BatchDepthTooSmall
         else
           (case recordVolume X c batchId (b_owner b) (b_depth b) ttlExpiry s of
              Inl e \<Rightarrow> Inl e
            | Inr (volumeId, s1) \<Rightarrow>
                Inr (volumeId, emit (LogVolumeImported volumeId (msg_sender c) batchId (b_owner b)
                  (b_depth b) ttlExpiry (b_normalisedBalance b)) s1)))"

definition importVolume ::
  "'x externals \<Rightarrow> wiring \<Rightarrow> call_context \<Rightarrow> bytes32 \<Rightarrow> uint64 \<Rightarrow> ('x, bytes32) sol" where
  "importVolume X w c batchId ttlExpiry s =
     (case registerVolume X c batchId ttlExpiry s of
        Inl e \<Rightarrow> Inl e
      | Inr (volumeId, s1) \<Rightarrow>
          (case triggerOne X w c volumeId s1 of
             Inl e \<Rightarrow> Inl e
           | Inr (outcome, s2) \<Rightarrow>
               if outcome \<noteq> OutcomeToppedUp \<and> outcome \<noteq> OutcomeNoDeficit then Inl ImportTopupFailed
               else Inr (volumeId, s2)))"

definition deleteVolume :: "call_context \<Rightarrow> bytes32 \<Rightarrow> ('x, unit) sol" where
  "deleteVolume c volumeId s =
     (let v = volumes (st_registry s) volumeId in
      if v_owner v \<noteq> msg_sender c then Inl NotVolumeOwner
      else if v_status v \<noteq> StatusActive then Inl VolumeNotActive
      else retire volumeId OwnerDeleted s)"

definition triggerVolume :: "'x externals \<Rightarrow> wiring \<Rightarrow> call_context \<Rightarrow> bytes32 \<Rightarrow> ('x, unit) sol" where
  "triggerVolume X w c volumeId s =
     (case triggerOne X w c volumeId s of Inl e \<Rightarrow> Inl e | Inr (_, s') \<Rightarrow> Inr ((), s'))"

fun triggerVolumes ::
  "'x externals \<Rightarrow> wiring \<Rightarrow> call_context \<Rightarrow> bytes32 list \<Rightarrow> ('x, unit) sol" where
  "triggerVolumes X w c [] s = Inr ((), s)"
| "triggerVolumes X w c (volumeId # rest) s =
     (case triggerOne X w c volumeId s of
        Inl e \<Rightarrow> Inl e
      | Inr (_, s') \<Rightarrow> triggerVolumes X w c rest s')"

definition reap :: "call_context \<Rightarrow> bytes32 \<Rightarrow> ('x, unit) sol" where
  "reap c volumeId s =
     (let v = volumes (st_registry s) volumeId in
      if v_status v \<noteq> StatusActive then Inr ((), s)
      else if expired c v then retire volumeId VolumeExpired s
      else Inr ((), s))"

section \<open>Views\<close>

definition getVolume :: "registry \<Rightarrow> bytes32 \<Rightarrow> sol_volume_view" where
  "getVolume r volumeId =
     (let v = volumes r volumeId; acct = accounts r (v_owner v) in
      \<lparr>sv_volumeId = volumeId, sv_batchId = v_batchId v, sv_owner = v_owner v,
       sv_payer = a_payer acct, sv_chunkSigner = v_chunkSigner v, sv_createdAt = v_createdAt v,
       sv_ttlExpiry = v_ttlExpiry v, sv_depth = v_depth v, sv_status = v_status v,
       sv_accountActive = a_active acct\<rparr>)"

definition getAccount :: "registry \<Rightarrow> sol_address \<Rightarrow> account" where
  "getAccount r owner = accounts r owner"

definition activeVolumeCount :: "registry \<Rightarrow> uint256" where
  "activeVolumeCount r = of_nat (length (activeVolumeIds r))"

text \<open>\<open>offset + limit\<close> is checked; behind the end of the array the page is empty before the sum is made.\<close>

definition getActiveVolumes :: "registry \<Rightarrow> uint256 \<Rightarrow> uint256 \<Rightarrow> sol_error + sol_volume_view list" where
  "getActiveVolumes r offset limit =
     (let n = of_nat (length (activeVolumeIds r)) in
      if n \<le> offset then Inr []
      else
        case checked_add offset limit of
          None \<Rightarrow> Inl Panic
        | Some end0 \<Rightarrow>
            (let end1 = (if n < end0 then n else end0);
                 len = unat (end1 - offset)
             in Inr (map (\<lambda>i. getVolume r (activeVolumeIds r ! (unat offset + i))) [0..<len])))"

end
