(* ===== verification/RegistryInvariants.thy ===== *)
theory RegistryInvariants
  imports VolumeRegistry ActiveVolumes "HOL-Library.Multiset"
begin

text \<open>
  The registry's storage over its whole life (\<open>contracts/src/VolumeRegistry.sol\<close>): the active array is
  exactly the Active volumes, each at its own index; what a volume was created with never changes
  and Retired is final. The invariants hold in every state the operations reach. The paged view is
  shown to be the interface \<open>paged_index\<close> that the keeper's enumeration rests on.
\<close>

section \<open>The active set\<close>

definition active_set :: "registry \<Rightarrow> bool" where
  "active_set r \<longleftrightarrow>
     distinct (activeVolumeIds r) \<and>
     length (activeVolumeIds r) \<le> 2 ^ 32 \<and>
     (\<forall>v. v_status (volumes r v) = StatusActive \<longleftrightarrow> v \<in> set (activeVolumeIds r)) \<and>
     (\<forall>i < length (activeVolumeIds r). unat (v_activeIndex (volumes r (activeVolumeIds r ! i))) = i)"

text \<open>What a volume is created with.\<close>

definition terms_of :: "volume \<Rightarrow> sol_address \<times> sol_address \<times> bytes32 \<times> uint64 \<times> uint64 \<times> uint8" where
  "terms_of v = (v_owner v, v_chunkSigner v, v_batchId v, v_createdAt v, v_ttlExpiry v, v_depth v)"

definition evolves :: "registry \<Rightarrow> registry \<Rightarrow> bool" where
  "evolves r r' \<longleftrightarrow>
     (\<forall>v. v_status (volumes r v) \<noteq> StatusNone \<longrightarrow>
        terms_of (volumes r' v) = terms_of (volumes r v) \<and>
        (v_status (volumes r' v) = v_status (volumes r v) \<or> v_status (volumes r' v) = StatusRetired))"

lemma evolves_refl [intro, simp]: "evolves r r"
  by (simp add: evolves_def)

lemma evolves_trans: "evolves r r1 \<Longrightarrow> evolves r1 r2 \<Longrightarrow> evolves r r2"
  unfolding evolves_def by (metis volume_status.distinct(3) volume_status.distinct(5))

text \<open>An operation keeps both.\<close>

definition keeps :: "registry \<Rightarrow> registry \<Rightarrow> bool" where
  "keeps r r' \<longleftrightarrow> active_set r' \<and> evolves r r'"

lemma keeps_refl: "active_set r \<Longrightarrow> keeps r r"
  by (simp add: keeps_def)

lemma keeps_trans: "keeps r r1 \<Longrightarrow> keeps r1 r2 \<Longrightarrow> keeps r r2"
  using evolves_trans by (auto simp: keeps_def)

lemma keeps_same_volumes:
  "active_set r \<Longrightarrow> volumes r' = volumes r \<Longrightarrow> activeVolumeIds r' = activeVolumeIds r \<Longrightarrow> keeps r r'"
  by (simp add: keeps_def active_set_def evolves_def)

lemma state_simps [simp]:
  "st_registry (emit e s) = st_registry s" "st_ext (emit e s) = st_ext s"
  "st_events (emit e s) = st_events s @ [e]" "st_registry (set_registry r s) = r"
  "st_ext (set_registry r s) = st_ext s" "st_events (set_registry r s) = st_events s"
  by (simp_all add: emit_def set_registry_def)

section \<open>The contract of an operation\<close>

text \<open>
  What the life of the registry relies on in each of its external operations. A creating one needs
  room in the \<open>uint32\<close> slots; one that creates nothing does not, and so has the weaker contract too.
\<close>

locale registry_operation =
  fixes op :: "'x chain_state \<Rightarrow> sol_error + ('a \<times> 'x chain_state)"
  assumes op_keeps: "active_set (st_registry s) \<Longrightarrow> length (activeVolumeIds (st_registry s)) < 2 ^ 32 \<Longrightarrow>
    op s = Inr (a, s') \<Longrightarrow> keeps (st_registry s) (st_registry s')"
begin

lemma call_keeps:
  "active_set (st_registry s) \<Longrightarrow> length (activeVolumeIds (st_registry s)) < 2 ^ 32 \<Longrightarrow>
   map_sum id snd (op s) = Inr s' \<Longrightarrow> keeps (st_registry s) (st_registry s')"
  by (cases "op s") (auto intro: op_keeps)

end

locale plain_operation =
  fixes op :: "'x chain_state \<Rightarrow> sol_error + ('a \<times> 'x chain_state)"
  assumes plain_keeps: "active_set (st_registry s) \<Longrightarrow> op s = Inr (a, s') \<Longrightarrow>
    keeps (st_registry s) (st_registry s')"
begin

text \<open>Any number of them in a row, as the batched \<open>trigger\<close> makes them.\<close>

lemma again:
  "active_set (st_registry s) \<Longrightarrow> op s = Inr (a, s1) \<Longrightarrow>
   (active_set (st_registry s1) \<Longrightarrow> keeps (st_registry s1) (st_registry s')) \<Longrightarrow>
   keeps (st_registry s) (st_registry s')"
  using plain_keeps keeps_trans unfolding keeps_def by blast

end

sublocale plain_operation \<subseteq> registry_operation
  by unfold_locales (rule plain_keeps)

section \<open>Retiring\<close>

text \<open>Swap-and-pop on a list of distinct entries.\<close>

definition swap_pop :: "'a list \<Rightarrow> nat \<Rightarrow> 'a list" where
  "swap_pop xs i = butlast (xs[i := last xs])"

lemma length_swap_pop [simp]: "length (swap_pop xs i) = length xs - 1"
  by (simp add: swap_pop_def)

lemma swap_pop_nth:
  "j < length xs - 1 \<Longrightarrow> swap_pop xs i ! j = (if j = i then last xs else xs ! j)"
  by (auto simp: swap_pop_def nth_butlast nth_list_update)

lemma swap_pop_last: "xs \<noteq> [] \<Longrightarrow> swap_pop xs (length xs - 1) = butlast xs"
  by (simp add: swap_pop_def last_conv_nth)

lemma swap_pop_mset:
  assumes "i < length xs"
  shows "mset (swap_pop xs i) = mset xs - {#xs ! i#}"
proof -
  have ne: "xs \<noteq> []" using assms by auto
  have "mset (xs[i := last xs]) = add_mset (last xs) (mset xs - {#xs ! i#})"
    using assms by (simp add: mset_update)
  moreover have "mset ys = add_mset (last ys) (mset (butlast ys))" if "ys \<noteq> []" for ys :: "'a list"
    using that by (metis append_butlast_last_id mset.simps add_mset_add_single mset_append)
  moreover have "last (xs[i := last xs]) = last xs"
    using ne assms by (simp add: last_list_update)
  ultimately show ?thesis using ne unfolding swap_pop_def
    by (metis add_mset_remove_trivial list_update_nonempty)
qed

text \<open>Retiring an Active volume takes it, and nothing else, out of the active set.\<close>

lemma retire_active:
  assumes inv: "active_set (st_registry s)"
    and act: "v_status (volumes (st_registry s) volumeId) = StatusActive"
  obtains s' where "retire volumeId reason s = Inr ((), s')"
    "keeps (st_registry s) (st_registry s')"
    "v_status (volumes (st_registry s') volumeId) = StatusRetired"
    "mset (activeVolumeIds (st_registry s')) = mset (activeVolumeIds (st_registry s)) - {#volumeId#}"
    "accounts (st_registry s') = accounts (st_registry s)" "st_ext s' = st_ext s"
    "st_events s' = st_events s @ [LogVolumeRetired volumeId reason]"
proof -
  let ?r = "st_registry s"
  let ?ids = "activeVolumeIds ?r"
  let ?i = "unat (v_activeIndex (volumes ?r volumeId))"
  let ?last = "length ?ids - 1"
  have "volumeId \<in> set ?ids" using inv act by (simp add: active_set_def)
  then obtain k where k: "k < length ?ids" "?ids ! k = volumeId" by (auto simp: in_set_conv_nth)
  then have i: "?i < length ?ids" "?ids ! ?i = volumeId" using inv by (auto simp: active_set_def)
  have ne: "?ids \<noteq> []" using i by auto
  have dist: "distinct ?ids" using inv by (simp add: active_set_def)
  have lastid: "?ids ! ?last = last ?ids" using ne by (simp add: last_conv_nth)
  let ?vols = "\<lambda>u. if u = volumeId
      then (volumes ?r u)\<lparr>v_status := StatusRetired, v_activeIndex := 0\<rparr>
      else if u = last ?ids then (volumes ?r u)\<lparr>v_activeIndex := of_nat ?i\<rparr> else volumes ?r u"
  define s' where "s' = emit (LogVolumeRetired volumeId reason)
    (set_registry (?r\<lparr>volumes := ?vols, activeVolumeIds := swap_pop ?ids ?i\<rparr>) s)"
  have executed: "retire volumeId reason s = Inr ((), s')"
  proof (cases "?i = ?last")
    case True
    then have last: "last ?ids = volumeId" using i(2) lastid by simp
    have "(volumes ?r)(volumeId := (volumes ?r volumeId)\<lparr>v_status := StatusRetired, v_activeIndex := 0\<rparr>) = ?vols"
      unfolding last by (rule ext) simp
    then show ?thesis using True ne swap_pop_last [OF ne]
      by (simp add: retire_def Let_def s'_def)
  next
    case False
    have last: "last ?ids \<noteq> volumeId"
    proof
      assume "last ?ids = volumeId"
      then have "?ids ! ?i = ?ids ! ?last" using i(2) lastid by simp
      then show False using False nth_eq_iff_index_eq [OF dist i(1), of ?last] ne by simp
    qed
    let ?upd = "(volumes ?r)(volumeId := (volumes ?r volumeId)\<lparr>v_status := StatusRetired\<rparr>,
      last ?ids := (volumes ?r (last ?ids))\<lparr>v_activeIndex := of_nat ?i\<rparr>)"
    have "?upd(volumeId := (?upd volumeId)\<lparr>v_activeIndex := 0\<rparr>) = ?vols"
      using last by (intro ext) simp
    then show ?thesis using False i(1) ne lastid last
      by (simp add: retire_def Let_def s'_def swap_pop_def)
  qed
  have s': "activeVolumeIds (st_registry s') = swap_pop ?ids ?i"
    "accounts (st_registry s') = accounts ?r" "st_ext s' = st_ext s"
    "st_events s' = st_events s @ [LogVolumeRetired volumeId reason]"
    and vols: "volumes (st_registry s') = ?vols"
    by (simp_all add: s'_def)
  have other: "volumes (st_registry s') u =
      (if u = last ?ids then (volumes ?r u)\<lparr>v_activeIndex := of_nat ?i\<rparr> else volumes ?r u)"
    if "u \<noteq> volumeId" for u using that by (simp add: vols)
  have mine: "terms_of (volumes (st_registry s') volumeId) = terms_of (volumes ?r volumeId)"
      "v_status (volumes (st_registry s') volumeId) = StatusRetired"
    by (simp_all add: vols terms_of_def)
  let ?r' = "st_registry s'"
  have mset: "mset (activeVolumeIds ?r') = mset ?ids - {#volumeId#}"
    using swap_pop_mset [OF i(1)] s'(1) i(2) by simp
  then have rem: "mset (activeVolumeIds ?r') = mset (remove1 volumeId ?ids)" by simp
  have dist': "distinct (activeVolumeIds ?r')"
    using mset_eq_imp_distinct_iff [OF rem] distinct_remove1 [OF dist] by simp
  have set: "set (activeVolumeIds ?r') = set ?ids - {volumeId}"
    using mset_eq_setD [OF rem] set_remove1_eq [OF dist] by simp
  have status: "v_status (volumes ?r' u) = (if u = volumeId then StatusRetired else v_status (volumes ?r u))" for u
    using other [of u] mine(2) by simp
  have index: "unat (v_activeIndex (volumes ?r' (activeVolumeIds ?r' ! j))) = j"
    if j: "j < length (activeVolumeIds ?r')" for j
  proof -
    have j': "j < length ?ids - 1" using j s'(1) by simp
    let ?u = "activeVolumeIds ?r' ! j"
    have u: "?u = (if j = ?i then last ?ids else ?ids ! j)" using swap_pop_nth [OF j'] s'(1) by simp
    have "?u \<in> set (activeVolumeIds ?r')" using j by simp
    then have uv: "?u \<noteq> volumeId" using set by auto
    show ?thesis
    proof (cases "j = ?i")
      case True
      then have "volumes ?r' ?u = (volumes ?r ?u)\<lparr>v_activeIndex := of_nat ?i\<rparr>"
        using other [OF uv] u by simp
      moreover have "unat (of_nat ?i :: uint32) = ?i" by simp
      ultimately show ?thesis using True by simp
    next
      case False
      have "?ids ! j \<noteq> last ?ids"
        using j' dist lastid nth_eq_iff_index_eq [OF dist, of j ?last] by auto
      then have "volumes ?r' ?u = volumes ?r (?ids ! j)" using other [OF uv] u False by simp
      then show ?thesis using inv j' by (simp add: active_set_def)
    qed
  qed
  have "active_set ?r'" unfolding active_set_def
    using inv dist' set status index s'(1) by (auto simp: active_set_def)
  moreover have "evolves ?r ?r'" unfolding evolves_def
    using other mine status by (auto simp: terms_of_def)
  ultimately show ?thesis using that executed s' mine(2) mset by (simp add: keeps_def)
qed

section \<open>Recording\<close>

lemma record_keeps:
  assumes inv: "active_set (st_registry s)" "length (activeVolumeIds (st_registry s)) < 2 ^ 32"
    and rec: "recordVolume X c batchId signer depth ttl s = Inr (volumeId, s')"
  shows "keeps (st_registry s) (st_registry s')"
    and "v_status (volumes (st_registry s) volumeId) = StatusNone"
    and "activeVolumeIds (st_registry s') = activeVolumeIds (st_registry s) @ [volumeId]"
    and "st_events s' = st_events s" "st_ext s' = st_ext s"
proof -
  let ?r = "st_registry s" and ?r' = "st_registry s'"
  let ?ids = "activeVolumeIds ?r"
  have none: "v_status (volumes ?r volumeId) = StatusNone"
    and ids: "activeVolumeIds ?r' = ?ids @ [volumeId]"
    and other: "\<And>u. u \<noteq> volumeId \<Longrightarrow> volumes ?r' u = volumes ?r u"
    and mine: "v_status (volumes ?r' volumeId) = StatusActive"
      "v_activeIndex (volumes ?r' volumeId) = of_nat (length ?ids)"
    and rest: "st_events s' = st_events s" "st_ext s' = st_ext s"
    using rec by (auto simp: recordVolume_def Let_def split: if_splits)
  have new: "volumeId \<notin> set ?ids" using inv(1) none by (metis active_set_def volume_status.distinct(1))
  have "active_set ?r'" unfolding active_set_def ids
  proof (intro conjI allI impI)
    show "distinct (?ids @ [volumeId])" using inv(1) new by (simp add: active_set_def)
    show "length (?ids @ [volumeId]) \<le> 2 ^ 32" using inv(2) by simp
    show "(v_status (volumes ?r' v) = StatusActive) = (v \<in> set (?ids @ [volumeId]))" for v
      using inv(1) other [of v] mine(1) by (cases "v = volumeId") (auto simp: active_set_def)
    show "unat (v_activeIndex (volumes ?r' ((?ids @ [volumeId]) ! i))) = i"
      if i: "i < length (?ids @ [volumeId])" for i
    proof (cases "i < length ?ids")
      case True
      then have "?ids ! i \<noteq> volumeId" using new by (metis nth_mem)
      then show ?thesis using True other inv(1) by (simp add: nth_append active_set_def)
    next
      case False
      then have "i = length ?ids" using i by simp
      moreover have "unat (of_nat (length ?ids) :: uint32) = length ?ids"
        using inv(2) by (simp add: unsigned_of_nat take_bit_nat_eq_self)
      ultimately show ?thesis using mine(2) by simp
    qed
  qed
  moreover have "evolves ?r ?r'" unfolding evolves_def
  proof (intro allI impI)
    fix v assume "v_status (volumes ?r v) \<noteq> StatusNone"
    then have "v \<noteq> volumeId" using none by auto
    then show "terms_of (volumes ?r' v) = terms_of (volumes ?r v) \<and>
        (v_status (volumes ?r' v) = v_status (volumes ?r v) \<or> v_status (volumes ?r' v) = StatusRetired)"
      using other by simp
  qed
  ultimately show "keeps ?r ?r'" by (simp add: keeps_def)
  show "v_status (volumes ?r volumeId) = StatusNone" "activeVolumeIds ?r' = ?ids @ [volumeId]"
    "st_events s' = st_events s" "st_ext s' = st_ext s" by (fact none ids rest)+
qed

section \<open>The operations\<close>

lemma require_call_frame:
  "require_call f m s = Inr (u, s') \<Longrightarrow> st_registry s' = st_registry s \<and> st_events s' = st_events s"
  by (auto simp: require_call_def split: option.splits prod.splits if_splits)

lemma pay_topup_frame:
  assumes "pay_topup X w v b payer amount deficit bal s = Inr (oc, s')"
  shows "st_registry s' = st_registry s \<and> oc = OutcomeToppedUp \<and>
    st_events s' = st_events s @ [LogToppedup v amount (bal + deficit)]"
  using assms
  by (auto simp: pay_topup_def checked_add_def split: sum.splits prod.splits option.splits if_splits
      dest!: require_call_frame)

text \<open>
  What a trigger decides, as a table over the volume, its batch, its owner's account and the payer:
  the first row that applies.
\<close>

datatype verdict = Skip skip_reason | Retire retire_reason | Nothing | Pay uint256

definition deficit_of :: "'x externals \<Rightarrow> wiring \<Rightarrow> volume \<Rightarrow> 'x \<Rightarrow> uint256" where
  "deficit_of X w v x =
     (let remaining = b_normalisedBalance (x_batches X (v_batchId v) x) - x_currentTotalOutPayment X x;
          target = ucast (x_lastPrice X x) * ucast (w_graceBlocks w)
      in if target \<le> remaining then 0 else target - remaining)"

definition decision_table ::
  "'x externals \<Rightarrow> wiring \<Rightarrow> call_context \<Rightarrow> volume \<Rightarrow> account \<Rightarrow> 'x \<Rightarrow> (bool \<times> verdict) list" where
  "decision_table X w c v acct x =
     (let b = x_batches X (v_batchId v) x; deficit = deficit_of X w v x in
      [(v_status v = StatusNone, Skip SkipNotFound),
       (v_status v = StatusRetired, Skip SkipNotActive),
       (b_owner b = 0, Retire BatchDied),
       (b_normalisedBalance b \<le> x_currentTotalOutPayment X x, Retire BatchDied),
       (b_owner b \<noteq> v_chunkSigner v, Retire BatchOwnerMismatch),
       (b_depth b \<noteq> v_depth v, Retire DepthChanged),
       (expired c v, Retire VolumeExpired),
       (\<not> a_active acct, Skip NoAuth),
       (deficit = 0, Nothing),
       (\<not> canPull X w c (a_payer acct) (push_bit (unat (v_depth v)) deficit) x, Skip PaymentFailed),
       (True, Pay deficit)])"

fun first_row :: "(bool \<times> 'a) list \<Rightarrow> 'a option" where
  "first_row [] = None"
| "first_row ((applies, x) # rows) = (if applies then Some x else first_row rows)"

definition decide :: "'x externals \<Rightarrow> wiring \<Rightarrow> call_context \<Rightarrow> bytes32 \<Rightarrow> 'x chain_state \<Rightarrow> verdict" where
  "decide X w c volumeId s =
     (let v = volumes (st_registry s) volumeId in
      nullish (first_row (decision_table X w c v (accounts (st_registry s) (v_owner v)) (st_ext s))) Nothing)"

text \<open>Carrying a verdict out.\<close>

fun carry_out ::
  "'x externals \<Rightarrow> wiring \<Rightarrow> bytes32 \<Rightarrow> verdict \<Rightarrow> ('x, trigger_outcome) sol" where
  "carry_out X w volumeId (Skip x) s = Inr (OutcomeSkipped, emit (LogTopupSkipped volumeId x) s)"
| "carry_out X w volumeId (Retire x) s = retired_with volumeId x s"
| "carry_out X w volumeId Nothing s = Inr (OutcomeNoDeficit, s)"
| "carry_out X w volumeId (Pay deficit) s =
     (let v = volumes (st_registry s) volumeId in
      pay_topup X w volumeId (v_batchId v) (a_payer (accounts (st_registry s) (v_owner v)))
        (push_bit (unat (v_depth v)) deficit) deficit
        (b_normalisedBalance (x_batches X (v_batchId v) (st_ext s))) s)"

lemma deficit_of_zero:
  "deficit_of X w v x = 0 \<longleftrightarrow>
   ucast (x_lastPrice X x) * ucast (w_graceBlocks w) \<le>
     b_normalisedBalance (x_batches X (v_batchId v) x) - x_currentTotalOutPayment X x"
  by (auto simp: deficit_of_def Let_def)

lemma triggerOne_decides: "triggerOne X w c v s = carry_out X w v (decide X w c v s) s"
proof (cases "v_status (volumes (st_registry s) v)")
  case StatusActive
  let ?v = "volumes (st_registry s) v"
  show ?thesis
  proof (cases "deficit_of X w ?v (st_ext s) = 0")
    case True
    then show ?thesis using StatusActive
      by (simp add: triggerOne_def decide_def decision_table_def Let_def deficit_of_zero)
  next
    case False
    then have "deficit_of X w ?v (st_ext s) =
        ucast (x_lastPrice X (st_ext s)) * ucast (w_graceBlocks w) -
        (b_normalisedBalance (x_batches X (v_batchId ?v) (st_ext s)) - x_currentTotalOutPayment X (st_ext s))"
      by (simp add: deficit_of_def Let_def split: if_splits)
    then show ?thesis using StatusActive False
      by (simp add: triggerOne_def decide_def decision_table_def Let_def deficit_of_zero)
  qed
qed (simp_all add: triggerOne_def decide_def decision_table_def Let_def)

text \<open>
  A trigger leaves the storage alone, or it retires the volume, which was Active; it logs at most
  one event, and what it logs is told by its outcome.
\<close>

fun outcome_logged :: "bytes32 \<Rightarrow> trigger_outcome \<Rightarrow> sol_event list \<Rightarrow> bool" where
  "outcome_logged v OutcomeRetired es \<longleftrightarrow> (\<exists>x. es = [LogVolumeRetired v x])"
| "outcome_logged v OutcomeSkipped es \<longleftrightarrow> (\<exists>x. es = [LogTopupSkipped v x])"
| "outcome_logged v OutcomeNoDeficit es \<longleftrightarrow> es = []"
| "outcome_logged v OutcomeToppedUp es \<longleftrightarrow> (\<exists>a n. es = [LogToppedup v a n])"

lemma retired_with_active:
  assumes "active_set (st_registry s)" "v_status (volumes (st_registry s) v) = StatusActive"
  obtains s' where "retired_with v x s = Inr (OutcomeRetired, s')"
    "keeps (st_registry s) (st_registry s')" "v_status (volumes (st_registry s') v) = StatusRetired"
    "mset (activeVolumeIds (st_registry s')) = mset (activeVolumeIds (st_registry s)) - {#v#}"
    "st_ext s' = st_ext s" "st_events s' = st_events s @ [LogVolumeRetired v x]"
proof (rule retire_active [OF assms, of x])
  fix s'
  assume r: "retire v x s = Inr ((), s')" "keeps (st_registry s) (st_registry s')"
    "v_status (volumes (st_registry s') v) = StatusRetired"
    "mset (activeVolumeIds (st_registry s')) = mset (activeVolumeIds (st_registry s)) - {#v#}"
    "st_ext s' = st_ext s" "st_events s' = st_events s @ [LogVolumeRetired v x]"
  show thesis by (rule that [of s']) (simp_all only: r retired_with_def sum.case prod.case)
qed

lemma triggerOne_effect:
  assumes inv: "active_set (st_registry s)" and run: "triggerOne X w c v s = Inr (oc, s')"
  shows "keeps (st_registry s) (st_registry s') \<and>
    (\<exists>es. st_events s' = st_events s @ es \<and> outcome_logged v oc es) \<and>
    (if oc = OutcomeRetired then v_status (volumes (st_registry s') v) = StatusRetired \<and>
       mset (activeVolumeIds (st_registry s')) = mset (activeVolumeIds (st_registry s)) - {#v#}
     else st_registry s' = st_registry s)"
proof (cases "v_status (volumes (st_registry s) v) = StatusActive")
  case False
  then show ?thesis using run inv by (auto simp: triggerOne_def keeps_refl)
next
  case True
  show ?thesis
  proof (cases "decide X w c v s")
    case (Skip x)
    then show ?thesis using run inv by (auto simp: triggerOne_decides keeps_refl)
  next
    case (Retire x)
    then have "retired_with v x s = Inr (oc, s')" using run by (simp add: triggerOne_decides)
    moreover obtain s1 where r: "retired_with v x s = Inr (OutcomeRetired, s1)"
      "keeps (st_registry s) (st_registry s1)" "v_status (volumes (st_registry s1) v) = StatusRetired"
      "mset (activeVolumeIds (st_registry s1)) = mset (activeVolumeIds (st_registry s)) - {#v#}"
      "st_events s1 = st_events s @ [LogVolumeRetired v x]"
      by (rule retired_with_active [OF inv True, of x])
    ultimately have "oc = OutcomeRetired" "s' = s1" by simp_all
    then show ?thesis using r by simp
  next
    case Nothing
    then show ?thesis using run inv by (auto simp: triggerOne_decides keeps_refl)
  next
    case (Pay d)
    then show ?thesis using run inv
      by (auto simp: triggerOne_decides Let_def keeps_refl dest!: pay_topup_frame)
  qed
qed

interpretation single: plain_operation "triggerOne X w c v"
  by unfold_locales (simp add: triggerOne_effect)

lemma triggerVolumes_keeps:
  "active_set (st_registry s) \<Longrightarrow> triggerVolumes X w c vs s = Inr (u, s') \<Longrightarrow>
   keeps (st_registry s) (st_registry s')"
proof (induction vs arbitrary: s)
  case Nil
  then show ?case by (simp add: keeps_refl)
next
  case (Cons v vs)
  then obtain oc s1 where "triggerOne X w c v s = Inr (oc, s1)"
    and "triggerVolumes X w c vs s1 = Inr (u, s')" by (auto split: sum.splits)
  then show ?case by (intro single.again [OF Cons.prems(1)] Cons.IH)
qed

lemma createVolume_keeps:
  assumes inv: "active_set (st_registry s)" "length (activeVolumeIds (st_registry s)) < 2 ^ 32"
    and run: "createVolume X w c signer depth bucket ttl imm s = Inr (v, s')"
  shows "keeps (st_registry s) (st_registry s')"
proof -
  let ?r = "st_registry s" and ?r1 = "(st_registry s)\<lparr>nextNonce := nextNonce (st_registry s) + 1\<rparr>"
  obtain b x s2 s4 where rec: "recordVolume X c b signer depth ttl
      ((set_registry ?r1 s2)\<lparr>st_ext := x\<rparr>) = Inr (v, s4)" and s': "st_registry s' = st_registry s4"
    using run by (auto simp: createVolume_def Let_def split: if_splits sum.splits option.splits)
  have "keeps ?r1 (st_registry s4)"
    using record_keeps(1) [OF _ _ rec] inv by (simp add: active_set_def)
  moreover have "keeps ?r ?r1" by (rule keeps_same_volumes [OF inv(1)]) simp_all
  ultimately show ?thesis using keeps_trans s' by metis
qed

lemma registerVolume_keeps:
  assumes inv: "active_set (st_registry s)" "length (activeVolumeIds (st_registry s)) < 2 ^ 32"
    and run: "registerVolume X c b ttl s = Inr (v, s')"
  shows "keeps (st_registry s) (st_registry s')"
proof -
  obtain signer depth s1 where "recordVolume X c b signer depth ttl s = Inr (v, s1)"
    "st_registry s' = st_registry s1"
    using run by (auto simp: registerVolume_def Let_def split: if_splits sum.splits)
  then show ?thesis using record_keeps(1) [OF inv] by metis
qed

lemma importVolume_keeps:
  assumes inv: "active_set (st_registry s)" "length (activeVolumeIds (st_registry s)) < 2 ^ 32"
    and run: "importVolume X w c b ttl s = Inr (v, s')"
  shows "keeps (st_registry s) (st_registry s')"
proof -
  obtain s1 oc where reg: "registerVolume X c b ttl s = Inr (v, s1)"
    and tr: "triggerOne X w c v s1 = Inr (oc, s')"
    using run by (auto simp: importVolume_def split: sum.splits if_splits)
  have k: "keeps (st_registry s) (st_registry s1)" by (rule registerVolume_keeps [OF inv reg])
  then have "active_set (st_registry s1)" by (simp add: keeps_def)
  then have "keeps (st_registry s1) (st_registry s')" using triggerOne_effect [OF _ tr] by simp
  then show ?thesis using k keeps_trans by blast
qed

section \<open>Every reachable state\<close>

datatype registry_call =
    Designate sol_address
  | Confirm sol_address
  | Revoke sol_address
  | CallCreate sol_address uint8 uint8 uint64 bool
  | CallRegister bytes32 uint64
  | CallImport bytes32 uint64
  | CallDelete bytes32
  | CallTrigger bytes32
  | CallTriggerMany "bytes32 list"
  | CallReap bytes32

fun run_call ::
  "'x externals \<Rightarrow> wiring \<Rightarrow> call_context \<Rightarrow> registry_call \<Rightarrow> 'x chain_state \<Rightarrow>
     sol_error + 'x chain_state" where
  "run_call X w c (Designate p) s = map_sum id snd (designateFundingWallet c p s)"
| "run_call X w c (Confirm a) s = map_sum id snd (confirmAuth c a s)"
| "run_call X w c (Revoke a) s = map_sum id snd (revoke c a s)"
| "run_call X w c (CallCreate signer d bd ttl imm) s =
     map_sum id snd (createVolume X w c signer d bd ttl imm s)"
| "run_call X w c (CallRegister b ttl) s = map_sum id snd (registerVolume X c b ttl s)"
| "run_call X w c (CallImport b ttl) s = map_sum id snd (importVolume X w c b ttl s)"
| "run_call X w c (CallDelete v) s = map_sum id snd (deleteVolume c v s)"
| "run_call X w c (CallTrigger v) s = map_sum id snd (triggerVolume X w c v s)"
| "run_call X w c (CallTriggerMany vs) s = map_sum id snd (triggerVolumes X w c vs s)"
| "run_call X w c (CallReap v) s = map_sum id snd (reap c v s)"

text \<open>
  A step of the chain: a transaction of the registry that does not revert, with room for one more
  entry in the \<open>uint32\<close> slots of the active array, or anything that happens outside the registry.
\<close>

inductive registry_step :: "'x externals \<Rightarrow> wiring \<Rightarrow> 'x chain_state \<Rightarrow> 'x chain_state \<Rightarrow> bool"
  for X w where
  call: "length (activeVolumeIds (st_registry s)) < 2 ^ 32 \<Longrightarrow> run_call X w c op s = Inr s' \<Longrightarrow>
    registry_step X w s s'"
| outside: "registry_step X w s (s\<lparr>st_ext := x\<rparr>)"

inductive reachable :: "'x externals \<Rightarrow> wiring \<Rightarrow> 'x chain_state \<Rightarrow> bool" for X w where
  deployed: "deploy X self postage bzz grace permit x = Inr (w, s) \<Longrightarrow> reachable X w s"
| stepped: "reachable X w s \<Longrightarrow> registry_step X w s s' \<Longrightarrow> reachable X w s'"

inductive_cases registry_stepE: "registry_step X w s s'"

lemma map_sum_Inr: "map_sum id snd y = Inr s' \<longleftrightarrow> (\<exists>a. y = Inr (a, s'))"
  by (cases y) auto

lemma retire_keeps:
  assumes "active_set (st_registry s)" "v_status (volumes (st_registry s) v) = StatusActive"
    "retire v x s = Inr (u, s')"
  shows "keeps (st_registry s) (st_registry s')"
  by (rule retire_active [OF assms(1,2), of x]) (use assms(3) in simp)

lemma account_calls_keep:
  "active_set (st_registry s) \<Longrightarrow> designateFundingWallet c p s = Inr (u, s') \<Longrightarrow> keeps (st_registry s) (st_registry s')"
  "active_set (st_registry s) \<Longrightarrow> confirmAuth c a s = Inr (u, s') \<Longrightarrow> keeps (st_registry s) (st_registry s')"
  "active_set (st_registry s) \<Longrightarrow> revoke c a s = Inr (u, s') \<Longrightarrow> keeps (st_registry s) (st_registry s')"
  by (auto simp: designateFundingWallet_def confirmAuth_def revoke_def Let_def keeps_same_volumes
      split: if_splits)

lemma delete_reap_keep:
  "active_set (st_registry s) \<Longrightarrow> deleteVolume c v s = Inr (u, s') \<Longrightarrow> keeps (st_registry s) (st_registry s')"
  "active_set (st_registry s) \<Longrightarrow> reap c v s = Inr (u, s') \<Longrightarrow> keeps (st_registry s) (st_registry s')"
  by (auto simp: deleteVolume_def reap_def Let_def keeps_refl retire_keeps split: if_splits)

lemma triggerVolume_keeps:
  "active_set (st_registry s) \<Longrightarrow> triggerVolume X w c v s = Inr (u, s') \<Longrightarrow> keeps (st_registry s) (st_registry s')"
  by (auto simp: triggerVolume_def triggerOne_effect split: sum.splits)

text \<open>Every operation of the contract provides its contract.\<close>

interpretation designate: plain_operation "designateFundingWallet c p"
  by unfold_locales (rule account_calls_keep)

interpretation confirm: plain_operation "confirmAuth c a"
  by unfold_locales (rule account_calls_keep)

interpretation revoking: plain_operation "revoke c a"
  by unfold_locales (rule account_calls_keep)

interpretation delete: plain_operation "deleteVolume c v"
  by unfold_locales (rule delete_reap_keep)

interpretation reaping: plain_operation "reap c v"
  by unfold_locales (rule delete_reap_keep)

interpretation triggering: plain_operation "triggerVolume X w c v"
  by unfold_locales (rule triggerVolume_keeps)

interpretation batch: plain_operation "triggerVolumes X w c vs"
  by unfold_locales (rule triggerVolumes_keeps)

interpretation create: registry_operation "createVolume X w c signer depth bucket ttl imm"
  by unfold_locales (rule createVolume_keeps)

interpretation register: registry_operation "registerVolume X c b ttl"
  by unfold_locales (rule registerVolume_keeps)

interpretation import: registry_operation "importVolume X w c b ttl"
  by unfold_locales (rule importVolume_keeps)

lemmas calls_keep = designate.call_keeps confirm.call_keeps revoking.call_keeps delete.call_keeps
  reaping.call_keeps triggering.call_keeps batch.call_keeps create.call_keeps register.call_keeps
  import.call_keeps

lemma run_call_keeps:
  assumes "active_set (st_registry s)" "length (activeVolumeIds (st_registry s)) < 2 ^ 32"
    "run_call X w c op s = Inr s'"
  shows "keeps (st_registry s) (st_registry s')"
  using assms(3) by (cases op) (simp_all add: calls_keep [OF assms(1,2)])

lemma step_keeps:
  "registry_step X w s s' \<Longrightarrow> active_set (st_registry s) \<Longrightarrow> keeps (st_registry s) (st_registry s')"
  by (erule registry_stepE) (auto simp: keeps_refl run_call_keeps)

lemma active_set_empty: "active_set empty_registry"
  by (simp add: active_set_def empty_registry_def zero_volume_def)

lemma reachable_active_set: "reachable X w s \<Longrightarrow> active_set (st_registry s)"
proof (induction rule: reachable.induct)
  case (deployed self postage bzz grace permit x s)
  then show ?case using active_set_empty by (auto simp: deploy_def Let_def split: if_splits)
next
  case (stepped s s')
  then show ?case using step_keeps [of X w s s'] by (simp add: keeps_def)
qed

lemma steps_evolve:
  assumes "(registry_step X w)\<^sup>*\<^sup>* s s'" "active_set (st_registry s)"
  shows "keeps (st_registry s) (st_registry s')"
  using assms
proof (induction rule: rtranclp_induct)
  case base
  then show ?case by (simp add: keeps_refl)
next
  case (step s1 s2)
  then have k: "keeps (st_registry s) (st_registry s1)" by simp
  then have "keeps (st_registry s1) (st_registry s2)" using step_keeps step by (auto simp: keeps_def)
  then show ?case using k keeps_trans by blast
qed

end
