(* ===== verification/KeeperAbi.thy ===== *)
theory KeeperAbi
  imports VolumeRegistry
begin

text \<open>
  ABI items, and the ABI the keeper calls the registry through: \<open>registryAbi\<close> of
  \<open>services/keeper/src/keeper/abi.ts\<close>. viem encodes calls and decodes rows, events and errors by this
  copy alone: an event of the contract that it does not list does not reach the keeper.
\<close>

section \<open>ABI items\<close>

text \<open>A value type is its name; \<open>tuple\<close> and \<open>tuple[]\<close> carry their components.\<close>

datatype abi_type = ValueType string | TupleType "(string \<times> abi_type) list" | ArrayType abi_type

record abi_param =
  ap_name :: string
  ap_type :: abi_type
  ap_indexed :: bool

datatype mutability = AbiView | AbiNonpayable

datatype abi_item =
    AbiFunction string mutability "abi_param list" "abi_param list"
  | AbiEvent string "abi_param list"
  | AbiError string "abi_param list"

definition param :: "string \<Rightarrow> abi_type \<Rightarrow> abi_param" where
  "param name ty = \<lparr>ap_name = name, ap_type = ty, ap_indexed = False\<rparr>"

definition indexed_param :: "string \<Rightarrow> abi_type \<Rightarrow> abi_param" where
  "indexed_param name ty = \<lparr>ap_name = name, ap_type = ty, ap_indexed = True\<rparr>"

lemmas param_defs = param_def indexed_param_def

fun item_name :: "abi_item \<Rightarrow> string" where
  "item_name (AbiFunction name _ _ _) = name"
| "item_name (AbiEvent name _) = name"
| "item_name (AbiError name _) = name"

fun item_inputs :: "abi_item \<Rightarrow> abi_param list" where
  "item_inputs (AbiFunction _ _ inputs _) = inputs"
| "item_inputs (AbiEvent _ inputs) = inputs"
| "item_inputs (AbiError _ inputs) = inputs"

definition function_named :: "string \<Rightarrow> abi_item \<Rightarrow> bool" where
  "function_named name i \<longleftrightarrow> (case i of AbiFunction n _ _ _ \<Rightarrow> n = name | _ \<Rightarrow> False)"

definition is_error :: "abi_item \<Rightarrow> bool" where
  "is_error i \<longleftrightarrow> (case i of AbiError _ _ \<Rightarrow> True | _ \<Rightarrow> False)"

definition is_event :: "abi_item \<Rightarrow> bool" where
  "is_event i \<longleftrightarrow> (case i of AbiEvent _ _ \<Rightarrow> True | _ \<Rightarrow> False)"

text \<open>The canonical form of a type, and of a function, event or error.\<close>

fun commas :: "string list \<Rightarrow> string" where
  "commas [] = []"
| "commas [x] = x"
| "commas (x # xs) = x @ '','' @ commas xs"

fun canonical :: "abi_type \<Rightarrow> string" where
  "canonical (ValueType name) = name"
| "canonical (TupleType cs) = ''('' @ commas (map (\<lambda>(_, t). canonical t) cs) @ '')''"
| "canonical (ArrayType t) = canonical t @ ''[]''"

definition signature :: "abi_item \<Rightarrow> string" where
  "signature i = item_name i @ ''('' @ commas (map (\<lambda>p. canonical (ap_type p)) (item_inputs i)) @ '')''"

section \<open>The keeper's copy\<close>

definition view_components :: "(string \<times> abi_type) list" where
  "view_components =
     [(''volumeId'', ValueType ''bytes32''), (''batchId'', ValueType ''bytes32''),
      (''owner'', ValueType ''address''), (''payer'', ValueType ''address''),
      (''chunkSigner'', ValueType ''address''), (''createdAt'', ValueType ''uint64''),
      (''ttlExpiry'', ValueType ''uint64''), (''depth'', ValueType ''uint8''),
      (''status'', ValueType ''uint8''), (''accountActive'', ValueType ''bool'')]"

definition registryAbi :: "abi_item list" where
  "registryAbi =
     [AbiFunction ''getActiveVolumeCount'' AbiView [] [param '''' (ValueType ''uint256'')],
      AbiFunction ''getActiveVolumes'' AbiView
        [param ''offset'' (ValueType ''uint256''), param ''limit'' (ValueType ''uint256'')]
        [param '''' (ArrayType (TupleType view_components))],
      AbiFunction ''getVolume'' AbiView
        [param ''volumeId'' (ValueType ''bytes32'')] [param '''' (TupleType view_components)],
      AbiFunction ''trigger'' AbiNonpayable [param ''volumeId'' (ValueType ''bytes32'')] [],
      AbiEvent ''Toppedup''
        [indexed_param ''volumeId'' (ValueType ''bytes32''), param ''amount'' (ValueType ''uint256''),
         param ''newNormalisedBalance'' (ValueType ''uint256'')],
      AbiEvent ''TopupSkipped''
        [indexed_param ''volumeId'' (ValueType ''bytes32''), param ''reason'' (ValueType ''uint8'')],
      AbiEvent ''VolumeRetired''
        [indexed_param ''volumeId'' (ValueType ''bytes32''), param ''reason'' (ValueType ''uint8'')],
      AbiError ''AccountNotActive'' [],
      AbiError ''BatchNotLive'' [],
      AbiError ''DesignationClearedOnActivate'' [],
      AbiError ''GraceBlocksBelowFloor''
        [param ''grace'' (ValueType ''uint64''), param ''floor_'' (ValueType ''uint64'')],
      AbiError ''ImportTopupFailed'' [],
      AbiError ''NotAuthorizedToRevoke'' [],
      AbiError ''NotDesignated'' [],
      AbiError ''NotVolumeOwner'' [],
      AbiError ''VolumeNotActive'' [],
      AbiError ''ZeroAddress'' []]"

section \<open>The events it lists\<close>

text \<open>The name an event of the contract is declared with.\<close>

fun event_name :: "sol_event \<Rightarrow> string" where
  "event_name (LogVolumeCreated _ _ _ _ _ _) = ''VolumeCreated''"
| "event_name (LogVolumeImported _ _ _ _ _ _ _) = ''VolumeImported''"
| "event_name (LogVolumeRetired _ _) = ''VolumeRetired''"
| "event_name (LogPayerDesignated _ _) = ''PayerDesignated''"
| "event_name (LogAccountActivated _ _) = ''AccountActivated''"
| "event_name (LogAccountRevoked _ _ _) = ''AccountRevoked''"
| "event_name (LogToppedup _ _ _) = ''Toppedup''"
| "event_name (LogTopupSkipped _ _) = ''TopupSkipped''"

definition listed_event :: "sol_event \<Rightarrow> bool" where
  "listed_event e \<longleftrightarrow> event_name e \<in> set (map item_name (filter is_event registryAbi))"

lemma keeper_events:
  "map item_name (filter is_event registryAbi) = [''Toppedup'', ''TopupSkipped'', ''VolumeRetired'']"
  by (simp add: registryAbi_def is_event_def)

lemma listed_events [simp]:
  "listed_event (LogToppedup v a n)" "listed_event (LogVolumeRetired v x)" "listed_event (LogTopupSkipped v y)"
  "\<not> listed_event (LogVolumeCreated v ow b cs d t)" "\<not> listed_event (LogVolumeImported v ow b cs d t n)"
  "\<not> listed_event (LogPayerDesignated ow p)" "\<not> listed_event (LogAccountActivated ow p)"
  "\<not> listed_event (LogAccountRevoked ow p z)"
  by (simp_all add: listed_event_def keeper_events del: set_map)

end
