(* ===== verification/RegistryProperties.thy ===== *)
theory RegistryProperties
  imports RegistryInvariants KeeperAbi
begin

text \<open>
  What the registry promises its callers (\<open>contracts/src/VolumeRegistry.sol\<close>) and what the keeper
  makes of it: that its terms are final, the decision of a trigger, when it
  reverts, what a topup pays; and across the two programs, that the keeper's enumeration finds
  exactly the Active volumes and that its reading of a receipt is the registry's decision.
\<close>

section \<open>The registry as a paged index\<close>

text \<open>
  How viem writes the contract's words as texts, and a row of the contract's view as the keeper
  reads it.
\<close>

record abi_text =
  text32 :: "bytes32 \<Rightarrow> hex"
  text20 :: "sol_address \<Rightarrow> address"

definition view_row :: "abi_text \<Rightarrow> sol_volume_view \<Rightarrow> volume_view" where
  "view_row T v =
     \<lparr>view_volumeId = text32 T (sv_volumeId v), view_batchId = text32 T (sv_batchId v),
      view_owner = text20 T (sv_owner v), view_payer = text20 T (sv_payer v),
      view_chunkSigner = text20 T (sv_chunkSigner v), view_createdAt = unat (sv_createdAt v),
      view_ttlExpiry = unat (sv_ttlExpiry v), view_depth = unat (sv_depth v),
      view_status = status_code (sv_status v), view_accountActive = sv_accountActive v\<rparr>"

text \<open>A page as \<open>getActiveVolumes\<close> answers it; a call that reverts has no rows.\<close>

definition registry_page :: "abi_text \<Rightarrow> registry \<Rightarrow> nat \<Rightarrow> nat \<Rightarrow> volume_view list" where
  "registry_page T r off len =
     (case getActiveVolumes r (of_nat off) (of_nat len) of
        Inl _ \<Rightarrow> []
      | Inr rows \<Rightarrow> map (view_row T) rows)"

lemma unat_uint256: "n < 2 ^ 256 \<Longrightarrow> unat (of_nat n :: uint256) = n"
  by (simp add: unsigned_of_nat take_bit_nat_eq_self)

lemma map_nth_drop: "map (\<lambda>i. xs ! (off + i)) [0..<min len (length xs - off)] = take len (drop off xs)"
  by (rule nth_equalityI) auto

lemma page_slice:
  assumes "length (activeVolumeIds r) < 2 ^ 256" "off + len < 2 ^ 256"
  shows "getActiveVolumes r (of_nat off) (of_nat len) =
    Inr (map (getVolume r) (take len (drop off (activeVolumeIds r))))"
proof -
  let ?ids = "activeVolumeIds r"
  let ?n = "of_nat (length ?ids) :: uint256" and ?o = "of_nat off :: uint256" and ?l = "of_nat len :: uint256"
  have n: "unat ?n = length ?ids" and o: "unat ?o = off" and l: "unat ?l = len"
    using assms by (simp_all add: unat_uint256)
  show ?thesis
  proof (cases "length ?ids \<le> off")
    case True
    then have "?n \<le> ?o" by (simp add: word_le_nat_alt n o)
    then show ?thesis using True by (simp add: getActiveVolumes_def Let_def)
  next
    case False
    then have "\<not> ?n \<le> ?o" by (simp add: word_le_nat_alt n o)
    moreover have sum: "unat (?o + ?l) = off + len"
      using assms(2) unat_uint256 [of "off + len"] by simp
    then have "checked_add ?o ?l = Some (?o + ?l)"
      by (simp add: checked_add_def word_less_nat_alt o)
    moreover have "unat ((if ?n < ?o + ?l then ?n else ?o + ?l) - ?o) = min len (length ?ids - off)"
    proof (cases "?n < ?o + ?l")
      case True
      then have "length ?ids < off + len" by (simp add: word_less_nat_alt n sum)
      moreover have "unat (?n - ?o) = length ?ids - off"
        using False by (simp add: unat_sub_if' n o)
      ultimately show ?thesis using True by simp
    next
      case below: False
      then have "off + len \<le> length ?ids" by (simp add: word_less_nat_alt n sum)
      then show ?thesis using below l by simp
    qed
    ultimately show ?thesis using map_nth_drop [of ?ids off len]
      by (simp add: getActiveVolumes_def Let_def o flip: map_nth_drop)
  qed
qed

text \<open>The contract's view keeps the promises of the interface, below the width of its arithmetic.\<close>

interpretation registry_view: paged_index "activeVolumeIds r" "\<lambda>v. view_row T (getVolume r v)"
  "unat (activeVolumeCount r)" "registry_page T r" "2 ^ 256"
proof unfold_locales
  show "unat (activeVolumeCount r) = length (activeVolumeIds r)"
    if "length (activeVolumeIds r) < 2 ^ 256"
    using that by (simp add: activeVolumeCount_def unat_uint256)
  show "registry_page T r off len = map (\<lambda>v. view_row T (getVolume r v)) (take len (drop off (activeVolumeIds r)))"
    if "length (activeVolumeIds r) < 2 ^ 256" "off + len < 2 ^ 256" for off len
    using page_slice [OF that] by (simp add: registry_page_def)
qed

section \<open>What a payment is made of\<close>

text \<open>The runway a trigger restores; a product of two 64-bit words fits 256 bits exactly.\<close>

definition runway :: "'x externals \<Rightarrow> wiring \<Rightarrow> 'x \<Rightarrow> uint256" where
  "runway X w x = ucast (x_lastPrice X x) * ucast (w_graceBlocks w)"

lemma uint64_range: "unat (p :: uint64) < 2 ^ 64"
  by (rule order_less_le_trans [OF unsigned_less]) simp

lemma unat_uint64: "unat (ucast (p :: uint64) :: uint256) = unat p"
proof -
  have "unat p < 2 ^ 64" by (rule uint64_range)
  then have "unat p < 2 ^ 256" by (rule less_trans) simp
  then show ?thesis by (simp add: unsigned_ucast_eq take_bit_nat_eq_self)
qed

lemma runway_exact: "unat (runway X w x) = unat (x_lastPrice X x) * unat (w_graceBlocks w)"
proof -
  have "unat (x_lastPrice X x) * unat (w_graceBlocks w) < 2 ^ 64 * 2 ^ 64"
    by (intro mult_strict_mono uint64_range) simp_all
  also have "(2 :: nat) ^ 64 * 2 ^ 64 < 2 ^ 256" by simp
  finally show ?thesis by (simp add: runway_def unat_word_ariths(2) unat_uint64)
qed

definition batch_of :: "'x externals \<Rightarrow> bytes32 \<Rightarrow> 'x chain_state \<Rightarrow> batch" where
  "batch_of X v s = x_batches X (v_batchId (volumes (st_registry s) v)) (st_ext s)"

text \<open>The balance the trigger aims at, above what Postage has already paid out, is in range.\<close>

definition target_fits :: "'x externals \<Rightarrow> wiring \<Rightarrow> 'x \<Rightarrow> bool" where
  "target_fits X w x \<longleftrightarrow> unat (x_currentTotalOutPayment X x) + unat (runway X w x) < 2 ^ 256"

lemma decide_PayD:
  assumes "decide X w c v s = Pay d"
  shows "v_status (volumes (st_registry s) v) = StatusActive"
    and "x_currentTotalOutPayment X (st_ext s) < b_normalisedBalance (batch_of X v s)"
    and "d = deficit_of X w (volumes (st_registry s) v) (st_ext s)" "d \<noteq> 0"
    and "canPull X w c (a_payer (accounts (st_registry s) (v_owner (volumes (st_registry s) v))))
      (push_bit (unat (v_depth (volumes (st_registry s) v))) d) (st_ext s)"
  using assms
  by (cases "v_status (volumes (st_registry s) v)";
      auto simp: decide_def decision_table_def Let_def batch_of_def split: if_splits)+

lemma deficit_exact:
  assumes "decide X w c v s = Pay d"
  shows "unat d = unat (runway X w (st_ext s)) -
      (unat (b_normalisedBalance (batch_of X v s)) - unat (x_currentTotalOutPayment X (st_ext s)))"
    and "b_normalisedBalance (batch_of X v s) + d = x_currentTotalOutPayment X (st_ext s) + runway X w (st_ext s)"
proof -
  let ?b = "b_normalisedBalance (batch_of X v s)" and ?o = "x_currentTotalOutPayment X (st_ext s)"
  let ?t = "runway X w (st_ext s)"
  have ob: "?o < ?b" by (rule decide_PayD(2) [OF assms])
  have d: "d = ?t - (?b - ?o)" and lt: "?b - ?o < ?t"
    using decide_PayD(3,4) [OF assms]
    by (auto simp: deficit_of_def Let_def runway_def batch_of_def split: if_splits)
  have "unat (?b - ?o) = unat ?b - unat ?o" using ob by (simp add: unat_sub_if' word_less_nat_alt)
  then show "unat d = unat ?t - (unat ?b - unat ?o)"
    using lt unfolding d by (simp add: unat_sub_if' word_less_nat_alt)
  show "?b + d = ?o + ?t" by (simp add: d)
qed

lemma target_sum:
  assumes "target_fits X w (st_ext s)" "decide X w c v s = Pay d"
  shows "checked_add (b_normalisedBalance (batch_of X v s)) d =
      Some (x_currentTotalOutPayment X (st_ext s) + runway X w (st_ext s))"
    and "unat (x_currentTotalOutPayment X (st_ext s) + runway X w (st_ext s)) =
      unat (x_currentTotalOutPayment X (st_ext s)) + unat (runway X w (st_ext s))"
proof -
  let ?b = "b_normalisedBalance (batch_of X v s)" and ?o = "x_currentTotalOutPayment X (st_ext s)"
  let ?t = "runway X w (st_ext s)"
  show sum: "unat (?o + ?t) = unat ?o + unat ?t"
    using assms(1) by (simp add: target_fits_def unat_word_ariths(1))
  have "unat ?b \<le> unat ?o + unat ?t"
    using deficit_exact(1) [OF assms(2)] decide_PayD(4) [OF assms(2)]
    by (metis diff_is_0_eq le_diff_conv nat_le_linear unat_eq_zero add.commute)
  then have "\<not> ?b + d < ?b"
    by (simp add: deficit_exact(2) [OF assms(2)] word_less_nat_alt sum)
  then show "checked_add ?b d = Some (?o + ?t)"
    by (simp add: checked_add_def deficit_exact(2) [OF assms(2)])
qed

lemma decide_rows:
  assumes "decide X w c v s = Pay d"
  shows "b_owner (x_batches X (v_batchId (volumes (st_registry s) v)) (st_ext s)) \<noteq> 0"
    and "b_depth (x_batches X (v_batchId (volumes (st_registry s) v)) (st_ext s)) = v_depth (volumes (st_registry s) v)"
  using assms
  by (cases "v_status (volumes (st_registry s) v)";
      auto simp: decide_def decision_table_def Let_def split: if_splits)+

text \<open>A payment in numbers: it lifts what is left of the batch to the runway, in range.\<close>

lemma exact_payment:
  assumes "target_fits X w (st_ext s)" "decide X w c v s = Pay d"
  shows "unat (b_normalisedBalance (batch_of X v s)) - unat (x_currentTotalOutPayment X (st_ext s)) + unat d =
      unat (x_lastPrice X (st_ext s)) * unat (w_graceBlocks w)"
    and "unat (b_normalisedBalance (batch_of X v s)) + unat d =
      unat (x_currentTotalOutPayment X (st_ext s)) + unat (x_lastPrice X (st_ext s)) * unat (w_graceBlocks w)"
    and "unat (b_normalisedBalance (batch_of X v s)) + unat d < 2 ^ 256" and "unat d < 2 ^ 128"
proof -
  let ?b = "unat (b_normalisedBalance (batch_of X v s))" and ?o = "unat (x_currentTotalOutPayment X (st_ext s))"
  let ?t = "unat (x_lastPrice X (st_ext s)) * unat (w_graceBlocks w)"
  have lt: "?o < ?b" using decide_PayD(2) [OF assms(2)] by (simp add: word_less_nat_alt)
  have d: "unat d = ?t - (?b - ?o)" "0 < unat d"
    by (rule deficit_exact(1) [OF assms(2), unfolded runway_exact])
      (use decide_PayD(4) [OF assms(2)] in \<open>simp add: word_neq_0_conv word_less_nat_alt\<close>)
  show 1: "?b - ?o + unat d = ?t" using d by linarith
  then show 2: "?b + unat d = ?o + ?t" using lt by linarith
  show "?b + unat d < 2 ^ 256" using assms(1) unfolding 2 by (simp add: target_fits_def runway_exact)
  have "?t < 2 ^ 64 * 2 ^ 64" by (intro mult_strict_mono uint64_range) simp_all
  then show "unat d < 2 ^ 128" using 1 by simp
qed

lemma charge_exact:
  assumes "unat (d :: uint256) * 2 ^ n < 2 ^ 256"
  shows "unat (push_bit n d) = unat d * 2 ^ n"
  by (subst unsigned_push_bit_eq) (use assms in \<open>simp add: push_bit_eq_mult take_bit_nat_eq_self\<close>)

lemma less_mult_pow:
  assumes "(m :: nat) < 2 ^ 128" "n \<le> 128"
  shows "m * 2 ^ n < 2 ^ 256"
proof -
  have "m * 2 ^ n \<le> m * 2 ^ 128" by (intro mult_le_mono2 power_increasing assms(2)) simp
  also have "\<dots> < 2 ^ 128 * 2 ^ 128" using assms(1) by simp
  finally show ?thesis by simp
qed

text \<open>The three calls that a payment makes.\<close>

lemma pay_topup_calls:
  assumes "pay_topup X w v b payer amount d bal s = Inr (oc, s')"
  shows "\<exists>x1 x2. x_transferFrom X payer (w_self w) amount (st_ext s) = Some (True, x1) \<and>
    x_approve X (w_postage w) amount x1 = Some (True, x2) \<and> x_topUp X b d x2 = Some (st_ext s')"
  using assms
  by (auto simp: pay_topup_def require_call_def split: sum.splits prod.splits option.splits if_splits)

section \<open>When a trigger reverts\<close>

text \<open>
  What is documented of the two contracts a payment calls (DESIGN section 14, ADR-0007), with \<open>halted\<close> for a
  pause of Postage or of the token. Without one, a pull that the registry's precheck allows and an approval
  go through, and neither touches Postage; Postage refuses a topup only for the reasons of \<open>topUp\<close>: a pause,
  an unknown or expired batch, a depth no more than its minimum, a balance that after the topup is less than
  its minimum validity, a sum out of range, or that the registry does not hold or has not approved the amount.
\<close>

definition same_postage :: "'x externals \<Rightarrow> ('x \<Rightarrow> bool) \<Rightarrow> 'x \<Rightarrow> 'x \<Rightarrow> bool" where
  "same_postage X halted x x' \<longleftrightarrow>
     (\<forall>b. x_batches X b x' = x_batches X b x) \<and>
     x_currentTotalOutPayment X x' = x_currentTotalOutPayment X x \<and> x_lastPrice X x' = x_lastPrice X x \<and>
     x_minimumValidityBlocks X x' = x_minimumValidityBlocks X x \<and>
     x_minimumBucketDepth X x' = x_minimumBucketDepth X x \<and> halted x' = halted x"

definition token_documented ::
  "'x externals \<Rightarrow> wiring \<Rightarrow> call_context \<Rightarrow> ('x \<Rightarrow> bool) \<Rightarrow> bool" where
  "token_documented X w c halted \<longleftrightarrow>
     (\<forall>payer amount x. \<not> halted x \<longrightarrow> canPull X w c payer amount x \<longrightarrow>
        (\<exists>x'. x_transferFrom X payer (w_self w) amount x = Some (True, x') \<and> same_postage X halted x x' \<and>
           amount \<le> x_balanceOf X (w_self w) x')) \<and>
     (\<forall>amount x. \<not> halted x \<longrightarrow>
        (\<exists>x'. x_approve X (w_postage w) amount x = Some (True, x') \<and> same_postage X halted x x' \<and>
           x_balanceOf X (w_self w) x' = x_balanceOf X (w_self w) x \<and>
           x_allowance X (w_self w) (w_postage w) x' = amount))"

definition topup_refused :: "'x externals \<Rightarrow> wiring \<Rightarrow> ('x \<Rightarrow> bool) \<Rightarrow> bytes32 \<Rightarrow> uint256 \<Rightarrow> 'x \<Rightarrow> bool" where
  "topup_refused X w halted b d x \<longleftrightarrow>
     (let batch = x_batches X b x; balance = unat (b_normalisedBalance batch);
          paid_out = unat (x_currentTotalOutPayment X x); charge = unat d * 2 ^ unat (b_depth batch)
      in halted x \<or> b_owner batch = 0 \<or> balance \<le> paid_out \<or> b_depth batch \<le> x_minimumBucketDepth X x \<or>
         balance - paid_out + unat d < unat (x_lastPrice X x) * unat (x_minimumValidityBlocks X x) \<or>
         2 ^ 256 \<le> balance + unat d \<or> unat (x_balanceOf X (w_self w) x) < charge \<or>
         unat (x_allowance X (w_self w) (w_postage w) x) < charge)"

definition postage_documented :: "'x externals \<Rightarrow> wiring \<Rightarrow> ('x \<Rightarrow> bool) \<Rightarrow> bool" where
  "postage_documented X w halted \<longleftrightarrow> (\<forall>b d x. x_topUp X b d x = None \<longrightarrow> topup_refused X w halted b d x)"

section \<open>What the keeper reads\<close>

text \<open>
  An event of the registry as viem decodes it for the keeper: by the keeper's ABI, so that an event this
  does not list is dropped.
\<close>

fun decoded_event :: "abi_text \<Rightarrow> sol_event \<Rightarrow> registry_event option" where
  "decoded_event T (LogToppedup v amount balance) = Some (Toppedup (text32 T v) (unat amount) (unat balance))"
| "decoded_event T (LogVolumeRetired v x) = Some (VolumeRetired (text32 T v) (retire_code x))"
| "decoded_event T (LogTopupSkipped v x) = Some (TopupSkipped (text32 T v) (skip_code x))"
| "decoded_event T _ = None"

definition event_of :: "abi_text \<Rightarrow> sol_event \<Rightarrow> registry_event option" where
  "event_of T e = (if listed_event e then decoded_event T e else None)"

lemma event_of_simps [simp]:
  "event_of T (LogToppedup v amount balance) = Some (Toppedup (text32 T v) (unat amount) (unat balance))"
  "event_of T (LogVolumeRetired v x) = Some (VolumeRetired (text32 T v) (retire_code x))"
  "event_of T (LogTopupSkipped v y) = Some (TopupSkipped (text32 T v) (skip_code y))"
  "event_of T (LogVolumeCreated v ow b cs d t) = None"
  "event_of T (LogVolumeImported v ow b cs d t n) = None"
  "event_of T (LogPayerDesignated ow p) = None"
  "event_of T (LogAccountActivated ow p) = None"
  "event_of T (LogAccountRevoked ow p z) = None"
  by (simp_all add: event_of_def)

text \<open>No event that the ABI lists is lost in its decoding.\<close>

lemma event_of_listed: "(event_of T e \<noteq> None) = listed_event e"
  by (cases e) simp_all

text \<open>
  What the keeper should say of a verdict on a volume: the name of the contract's own reason, which is the
  name of the enum's member in \<open>IVolumeRegistryViews.sol\<close>; for the two reasons that a trigger of a volume
  which is not Active gives, and for the unused zeros of the enums, the keeper names the code.
\<close>

fun skip_text :: "skip_reason \<Rightarrow> jstring" where
  "skip_text SkipNone = js ''Unknown(0)''"
| "skip_text NoAuth = js ''NoAuth''"
| "skip_text PaymentFailed = js ''PaymentFailed''"
| "skip_text SkipNotFound = js ''Unknown(3)''"
| "skip_text SkipNotActive = js ''Unknown(4)''"

fun retire_text :: "retire_reason \<Rightarrow> jstring" where
  "retire_text RetireNone = js ''Unknown(0)''"
| "retire_text OwnerDeleted = js ''OwnerDeleted''"
| "retire_text VolumeExpired = js ''VolumeExpired''"
| "retire_text BatchDied = js ''BatchDied''"
| "retire_text DepthChanged = js ''DepthChanged''"
| "retire_text BatchOwnerMismatch = js ''BatchOwnerMismatch''"

fun verdict_summary :: "volume \<Rightarrow> verdict \<Rightarrow> volume_summary" where
  "verdict_summary v (Skip x) = SummaryTopupSkipped (skip_text x)"
| "verdict_summary v (Retire x) = SummaryRetired (retire_text x)"
| "verdict_summary v Nothing = SummaryNoop"
| "verdict_summary v (Pay deficit) = SummaryToppedUp (unat (push_bit (unat (v_depth v)) deficit))"

text \<open>The keeper's tables give those names to the codes of the contract.\<close>

lemma skip_table: "reason_name SKIP_REASONS (skip_code x) = skip_text x"
  by (cases x) (simp_all add: reason_name_def SKIP_REASONS_def dec.simps js_def)

lemma retire_table: "reason_name RETIRE_REASONS (retire_code x) = retire_text x"
  by (cases x) (simp_all add: reason_name_def RETIRE_REASONS_def dec.simps js_def)

lemma verdict_events:
  assumes "active_set (st_registry s)" "triggerOne X w c v s = Inr (oc, s')"
    "st_events s' = st_events s @ es"
  shows "(case List.map_filter (event_of T) es of
      [] \<Rightarrow> decide X w c v s = Nothing
    | [e] \<Rightarrow> event_volumeId e = text32 T v \<and>
        event_summary e = verdict_summary (volumes (st_registry s) v) (decide X w c v s)
    | _ \<Rightarrow> False)"
proof (cases "decide X w c v s")
  case (Skip x)
  then have "es = [LogTopupSkipped v x]" using assms(2,3) by (auto simp: triggerOne_decides)
  then show ?thesis by (simp add: Skip map_filter_simps skip_table)
next
  case (Retire x)
  then have r: "retired_with v x s = Inr (oc, s')" using assms(2) by (simp add: triggerOne_decides)
  have act: "v_status (volumes (st_registry s) v) = StatusActive"
    using Retire by (cases "v_status (volumes (st_registry s) v)")
      (simp_all add: decide_def decision_table_def Let_def)
  obtain s1 where "retired_with v x s = Inr (OutcomeRetired, s1)"
    "st_events s1 = st_events s @ [LogVolumeRetired v x]"
    by (rule retired_with_active [OF assms(1) act, of x])
  then have "es = [LogVolumeRetired v x]" using r assms(3) by simp
  then show ?thesis by (simp add: Retire map_filter_simps retire_table)
next
  case Nothing
  then have "es = []" using assms(2,3) by (auto simp: triggerOne_decides)
  then show ?thesis by (simp add: Nothing)
next
  case (Pay d)
  let ?v = "volumes (st_registry s) v"
  have "\<exists>n. es = [LogToppedup v (push_bit (unat (v_depth ?v)) d) n]"
    using assms(2,3) Pay by (auto simp: triggerOne_decides Let_def dest!: pay_topup_frame)
  then show ?thesis by (auto simp: Pay map_filter_simps)
qed

lemma summarize_single:
  assumes "parseLogs (from_registry reg logs) = [e]" "event_volumeId e = v"
  shows "summarizeVolume (decodeCycleEvents parseLogs logs reg) v = event_summary e"
  using assms by (cases e) (simp_all add: summarizeVolume_def decodeCycleEvents_eq Let_def map_filter_simps)

lemma receipt_tells_verdict:
  assumes "active_set (st_registry s)" "triggerOne X w c v s = Inr (oc, s')"
    "st_events s' = st_events s @ es"
    "parseLogs (from_registry reg logs) = List.map_filter (event_of T) es"
  shows "summarizeVolume (decodeCycleEvents parseLogs logs reg) (text32 T v) =
    verdict_summary (volumes (st_registry s) v) (decide X w c v s)"
proof -
  note ev = verdict_events [OF assms(1-3), of T]
  show ?thesis
  proof (cases "List.map_filter (event_of T) es")
    case Nil
    then show ?thesis using ev assms(4)
      by (simp add: summarizeVolume_def decodeCycleEvents_eq)
  next
    case (Cons e rest)
    then have "rest = []" using ev by (cases rest) simp_all
    then show ?thesis using ev Cons assms(4) summarize_single [of parseLogs reg logs e "text32 T v"] by simp
  qed
qed

lemma collect_active:
  assumes "length (activeVolumeIds r) \<le> 2 ^ 32"
    and "reads_index C reg b (unat (activeVolumeCount r)) (registry_page T r)"
    and "1 \<le> nullish k 100" "nullish k 100 \<le> 2 ^ 53"
  shows "fst (collectActiveVolumes C reg k b w) =
    Inr (map (\<lambda>v. view_row T (getVolume r v)) (activeVolumeIds r))"
proof -
  have k: "0 < nat (nullish k 100)" "nat (nullish k 100) \<le> 2 ^ 53" using assms(3,4) by auto
  have "length (activeVolumeIds r) + 2 * nat (nullish k 100) \<le> 2 ^ 32 + 2 * 2 ^ 53"
    using assms(1) k(2) by (intro add_mono mult_le_mono2)
  also have "\<dots> < (2 :: nat) ^ 256" by simp
  finally have fits: "length (activeVolumeIds r) + 2 * nat (nullish k 100) < 2 ^ 256" .
  have short: "length (activeVolumeIds r) < 2 ^ 256" using fits by linarith
  show ?thesis
    using collect_pages [OF assms(2,3), of w] registry_view.pages_cover [OF k(1) fits, where T = T]
      registry_view.pages_empty [OF short, where T = T]
    by (simp split: if_splits)
qed

section \<open>What a trigger leaves\<close>

text \<open>What is written of a volume for good, and its status; and a registry in which one volume retired.\<close>

definition book_of :: "registry \<Rightarrow> bytes32 \<Rightarrow>
    (sol_address \<times> sol_address \<times> bytes32 \<times> uint64 \<times> uint64 \<times> uint8) \<times> volume_status" where
  "book_of r = (\<lambda>u. (terms_of (volumes r u), v_status (volumes r u)))"

definition only_retires :: "bytes32 \<Rightarrow> registry \<Rightarrow> registry \<Rightarrow> bool" where
  "only_retires v r r' \<longleftrightarrow>
     book_of r' = (book_of r)(v := (terms_of (volumes r v), StatusRetired)) \<and>
     mset (activeVolumeIds r') = mset (activeVolumeIds r) - {#v#} \<and> active_set r' \<and>
     accounts r' = accounts r \<and> designated r' = designated r \<and> nextNonce r' = nextNonce r"

lemma retire_book:
  assumes "retire v x s = Inr (u, s')"
  shows "book_of (st_registry s') = (book_of (st_registry s))(v := (terms_of (volumes (st_registry s) v), StatusRetired))"
    and "designated (st_registry s') = designated (st_registry s)"
    and "nextNonce (st_registry s') = nextNonce (st_registry s)"
    and "accounts (st_registry s') = accounts (st_registry s)"
  using assms by (auto simp: retire_def Let_def book_of_def terms_of_def fun_eq_iff split: if_splits)

lemma trigger_retires_only:
  assumes "active_set (st_registry s)" "v_status (volumes (st_registry s) v) = StatusActive"
  obtains s' where "retired_with v x s = Inr (OutcomeRetired, s')" "st_ext s' = st_ext s"
    "only_retires v (st_registry s) (st_registry s')"
proof -
  obtain s' where r: "retired_with v x s = Inr (OutcomeRetired, s')" "keeps (st_registry s) (st_registry s')"
    "mset (activeVolumeIds (st_registry s')) = mset (activeVolumeIds (st_registry s)) - {#v#}"
    "st_ext s' = st_ext s"
    by (rule retired_with_active [OF assms, of x])
  then obtain u where "retire v x s = Inr (u, s')" by (auto simp: retired_with_def split: sum.splits)
  then show thesis using r that [of s'] by (simp add: only_retires_def retire_book keeps_def)
qed

text \<open>A payment that fails, fails for a reason of the two contracts.\<close>

lemma payment_refused:
  assumes "token_documented X w c halted" "postage_documented X w halted"
    and fits: "target_fits X w (st_ext s)" and small: "unat (v_depth (volumes (st_registry s) v)) \<le> 128"
    and pay: "decide X w c v s = Pay d" and fail: "triggerOne X w c v s = Inl e"
  shows "halted (st_ext s) \<or> v_depth (volumes (st_registry s) v) \<le> x_minimumBucketDepth X (st_ext s) \<or>
    w_graceBlocks w < x_minimumValidityBlocks X (st_ext s)"
proof (rule ccontr)
  assume fine: "\<not> ?thesis"
  let ?v = "volumes (st_registry s) v" and ?x = "st_ext s"
  let ?payer = "a_payer (accounts (st_registry s) (v_owner ?v))"
  let ?b = "x_batches X (v_batchId ?v) ?x" and ?amount = "push_bit (unat (v_depth ?v)) d"
  obtain x1 where 1: "x_transferFrom X ?payer (w_self w) ?amount ?x = Some (True, x1)"
      "same_postage X halted ?x x1" "?amount \<le> x_balanceOf X (w_self w) x1"
    using assms(1) decide_PayD(5) [OF pay] fine unfolding token_documented_def by blast
  then have "\<not> halted x1" using fine by (simp add: same_postage_def)
  then obtain x2 where 2: "x_approve X (w_postage w) ?amount x1 = Some (True, x2)"
      "same_postage X halted x1 x2" "x_balanceOf X (w_self w) x2 = x_balanceOf X (w_self w) x1"
      "x_allowance X (w_self w) (w_postage w) x2 = ?amount"
    using assms(1) unfolding token_documented_def by blast
  have sum: "checked_add (b_normalisedBalance ?b) d = Some (x_currentTotalOutPayment X ?x + runway X w ?x)"
    using target_sum(1) [OF fits pay] by (simp add: batch_of_def)
  have "x_topUp X (v_batchId ?v) d x2 = None"
    using fail 1(1) 2(1) sum
    by (auto simp: triggerOne_decides pay pay_topup_def require_call_def Let_def split: option.splits)
  then have refused: "topup_refused X w halted (v_batchId ?v) d x2"
    using assms(2) by (simp add: postage_documented_def)
  have owner: "b_owner ?b \<noteq> 0" and depth: "b_depth ?b = v_depth ?v"
    using decide_rows [OF pay] by simp_all
  have bal: "unat (x_currentTotalOutPayment X ?x) < unat (b_normalisedBalance ?b)"
    using decide_PayD(2) [OF pay] by (simp add: batch_of_def word_less_nat_alt)
  have run: "unat (b_normalisedBalance ?b) - unat (x_currentTotalOutPayment X ?x) + unat d =
      unat (x_lastPrice X ?x) * unat (w_graceBlocks w)"
    and room: "unat (b_normalisedBalance ?b) + unat d < 2 ^ 256" and d: "unat d < 2 ^ 128"
    using exact_payment [OF fits pay] by (simp_all add: batch_of_def)
  have charge: "unat ?amount = unat d * 2 ^ unat (v_depth ?v)"
    by (rule charge_exact [OF less_mult_pow [OF d small]])
  have "unat (x_minimumValidityBlocks X ?x) \<le> unat (w_graceBlocks w)"
    using fine by (simp add: word_le_nat_alt not_less)
  then have "unat (x_lastPrice X ?x) * unat (x_minimumValidityBlocks X ?x) \<le>
      unat (x_lastPrice X ?x) * unat (w_graceBlocks w)" by simp
  then show False
    using refused fine owner depth bal run room charge 1(2,3) 2(2-4)
    by (auto simp: topup_refused_def Let_def same_postage_def word_le_nat_alt)
qed

section \<open>A small chain\<close>

text \<open>One Active volume, half a runway short, over a batch of depth 20; its payer can pay.\<close>

definition sample_externals :: "unit externals" where
  "sample_externals =
     \<lparr>x_batches = (\<lambda>_ _. \<lparr>b_owner = 7, b_depth = 20, b_normalisedBalance = 150\<rparr>),
      x_currentTotalOutPayment = (\<lambda>_. 50), x_lastPrice = (\<lambda>_. 10),
      x_minimumValidityBlocks = (\<lambda>_. 5), x_minimumBucketDepth = (\<lambda>_. 16),
      x_createBatch = (\<lambda>_ _ _ _ n _ x. Some (n, x)), x_topUp = (\<lambda>_ _ x. Some x),
      x_balanceOf = (\<lambda>_ _. 2 ^ 80), x_allowance = (\<lambda>_ _ _. 2 ^ 80),
      x_expirations = (\<lambda>_ _ _. 0), x_has_expirations = (\<lambda>_. False),
      x_transferFrom = (\<lambda>_ _ _ x. Some (True, x)), x_approve = (\<lambda>_ _ x. Some (True, x)),
      x_hash_volume = (\<lambda>a n. ucast a * 2 ^ 64 + ucast n), x_hash_batch = (\<lambda>_ n. n)\<rparr>"

definition sample_wiring :: wiring where
  "sample_wiring =
     \<lparr>w_self = 1, w_postage = 2, w_graceBlocks = 20, w_bzzPermitExpiry = False\<rparr>"

definition sample_call :: call_context where
  "sample_call = \<lparr>msg_sender = 5, block_timestamp = 1000\<rparr>"

definition sample_registry :: registry where
  "sample_registry = empty_registry
     \<lparr>volumes := (\<lambda>_. zero_volume)(11 :=
        \<lparr>v_owner = 5, v_chunkSigner = 7, v_batchId = 9, v_createdAt = 0, v_ttlExpiry = 0, v_depth = 20,
         v_status = StatusActive, v_activeIndex = 0\<rparr>),
      accounts := (\<lambda>_. \<lparr>a_payer = 0, a_active = False, a_nonce = 0\<rparr>)(5 :=
        \<lparr>a_payer = 6, a_active = True, a_nonce = 1\<rparr>),
      activeVolumeIds := [11]\<rparr>"

definition sample_chain :: "unit chain_state" where
  "sample_chain = \<lparr>st_registry = sample_registry, st_ext = (), st_events = []\<rparr>"

lemma sample_active_set: "active_set (st_registry sample_chain)"
  by (simp add: active_set_def sample_chain_def sample_registry_def empty_registry_def zero_volume_def)

lemma sample_decision: "decide sample_externals sample_wiring sample_call 11 sample_chain = Pay 100"
  by (simp add: decide_def decision_table_def deficit_of_def sample_externals_def sample_wiring_def
      sample_call_def sample_chain_def sample_registry_def canPull_def expired_def Let_def)

text \<open>
  A chain that keeps the registry's allowance to Postage, beside a pause: Postage takes what it was allowed
  and no more.
\<close>

definition purse_topup :: "uint256 \<Rightarrow> bool \<times> uint256 \<Rightarrow> (bool \<times> uint256) option" where
  "purse_topup d = (\<lambda>(paused, allowed).
     if paused \<or> unat allowed < unat d * 2 ^ 20 \<or> 2 ^ 80 < unat d * 2 ^ 20 then None
     else Some (paused, allowed - push_bit 20 d))"

definition purse_externals :: "(bool \<times> uint256) externals" where
  "purse_externals =
     \<lparr>x_batches = (\<lambda>_ _. \<lparr>b_owner = 7, b_depth = 20, b_normalisedBalance = 150\<rparr>),
      x_currentTotalOutPayment = (\<lambda>_. 50), x_lastPrice = (\<lambda>_. 10),
      x_minimumValidityBlocks = (\<lambda>_. 5), x_minimumBucketDepth = (\<lambda>_. 16),
      x_createBatch = (\<lambda>_ _ _ _ n _ x. Some (n, x)), x_topUp = (\<lambda>_. purse_topup),
      x_balanceOf = (\<lambda>_ _. 2 ^ 80),
      x_allowance = (\<lambda>owner spender x. if owner = 1 \<and> spender = 2 then snd x else 2 ^ 80),
      x_expirations = (\<lambda>_ _ _. 0), x_has_expirations = (\<lambda>_. False),
      x_transferFrom = (\<lambda>_ _ _ x. Some (True, x)), x_approve = (\<lambda>_ amount x. Some (True, (fst x, amount))),
      x_hash_volume = (\<lambda>a n. ucast a * 2 ^ 64 + ucast n), x_hash_batch = (\<lambda>_ n. n)\<rparr>"

definition purse_chain :: "bool \<Rightarrow> (bool \<times> uint256) chain_state" where
  "purse_chain paused = \<lparr>st_registry = sample_registry, st_ext = (paused, 0), st_events = []\<rparr>"

lemma purse_token: "token_documented purse_externals sample_wiring sample_call fst"
  by (auto simp: token_documented_def same_postage_def purse_externals_def sample_wiring_def canPull_def
      split: if_splits)

lemma purse_postage: "postage_documented purse_externals sample_wiring fst"
proof -
  have "unat (2 ^ 80 :: uint256) = 2 ^ 80" by simp
  then show ?thesis
    by (auto simp: postage_documented_def topup_refused_def purse_externals_def purse_topup_def
        sample_wiring_def Let_def split: if_splits)
qed

section \<open>Properties\<close>

text \<open>
  C36: a volume's record is final but for its status, and Retired is terminal: over any further life of
  the registry its owner, signer, batch, creation time, expiry and depth stay, and its status either
  stays or becomes Retired.
\<close>

theorem volume_terms_final:
  assumes "active_set (st_registry s)" "(registry_step X w)\<^sup>*\<^sup>* s s'"
    and "v_status (volumes (st_registry s) v) \<noteq> StatusNone"
  shows "terms_of (volumes (st_registry s') v) = terms_of (volumes (st_registry s) v) \<and>
    v_status (volumes (st_registry s') v) \<in> {v_status (volumes (st_registry s) v), StatusRetired}"
  using steps_evolve [OF assms(2,1)] assms(3) by (simp add: keeps_def evolves_def)

theorem volume_terms_final_witness:
  "\<exists>s'. run_call sample_externals sample_wiring sample_call (CallDelete 11) sample_chain = Inr s' \<and>
     terms_of (volumes (st_registry s') 11) = (5, 7, 9, 0, 0, 20) \<and>
     v_status (volumes (st_registry sample_chain) 11) = StatusActive \<and>
     v_status (volumes (st_registry s') 11) = StatusRetired"
proof -
  let ?s' = "emit (LogVolumeRetired 11 OwnerDeleted) (set_registry (sample_registry\<lparr>volumes :=
      (volumes sample_registry)(11 := (volumes sample_registry 11)\<lparr>v_status := StatusRetired, v_activeIndex := 0\<rparr>),
      activeVolumeIds := []\<rparr>) sample_chain)"
  have call: "run_call sample_externals sample_wiring sample_call (CallDelete 11) sample_chain = Inr ?s'"
    by (simp add: deleteVolume_def retire_def Let_def sample_call_def sample_chain_def sample_registry_def)
  have "registry_step sample_externals sample_wiring sample_chain ?s'"
    by (rule registry_step.call [OF _ call]) (simp add: sample_chain_def sample_registry_def)
  from volume_terms_final [OF sample_active_set r_into_rtranclp [of "registry_step _ _", OF this], of 11]
  have "terms_of (volumes (st_registry ?s') 11) = terms_of (volumes (st_registry sample_chain) 11)"
    "v_status (volumes (st_registry ?s') 11) \<in> {v_status (volumes (st_registry sample_chain) 11), StatusRetired}"
    by (simp_all add: sample_chain_def sample_registry_def)
  moreover have "v_status (volumes (st_registry ?s') 11) = StatusRetired" by simp
  ultimately show ?thesis using call
    by (intro exI [of _ ?s']) (simp add: sample_chain_def sample_registry_def terms_of_def)
qed

text \<open>
  C13: a trigger is the decision table: the first row that applies, in the order unknown, retired, dead
  batch, other owner, other depth, expired, no authorisation, no deficit, payer unable, pay. So every
  retirement comes before every skip for payment, and a payer who cannot pay never retires a volume.
\<close>

theorem trigger_follows_table: "triggerOne X w c v s = carry_out X w v (decide X w c v s) s"
  by (rule triggerOne_decides)

text \<open>
  C14: a trigger reverts only when the documents say so. Where the token and Postage do what is documented of
  them, it is a payment that reverts, and only under a pause, for a depth that Postage no longer tops up, or
  with \<open>graceBlocks\<close> below Postage's minimum validity; every other trigger returns, and changes nothing of the
  registry but the retirement it decides, which leaves every other volume and every account as it was.
  (For depths up to 128 and a target balance in the range of the word; running out of gas is not modelled.)
\<close>

theorem trigger_reverts_only_as_documented:
  assumes "active_set (st_registry s)" "token_documented X w c halted" "postage_documented X w halted"
    and "target_fits X w (st_ext s)" "unat (v_depth (volumes (st_registry s) v)) \<le> 128"
  shows "case triggerOne X w c v s of
      Inr (oc, s') \<Rightarrow>
        (oc = OutcomeRetired) = (\<exists>x. decide X w c v s = Retire x) \<and>
        (if oc = OutcomeRetired then only_retires v (st_registry s) (st_registry s') \<and> st_ext s' = st_ext s
         else st_registry s' = st_registry s)
    | Inl _ \<Rightarrow> (\<exists>d. decide X w c v s = Pay d) \<and>
        (halted (st_ext s) \<or> v_depth (volumes (st_registry s) v) \<le> x_minimumBucketDepth X (st_ext s) \<or>
         w_graceBlocks w < x_minimumValidityBlocks X (st_ext s))"
proof (cases "decide X w c v s")
  case (Retire x)
  then have "v_status (volumes (st_registry s) v) = StatusActive"
    by (cases "v_status (volumes (st_registry s) v)") (simp_all add: decide_def decision_table_def Let_def)
  then obtain s1 where "retired_with v x s = Inr (OutcomeRetired, s1)" "st_ext s1 = st_ext s"
      "only_retires v (st_registry s) (st_registry s1)"
    using trigger_retires_only [OF assms(1), of v x] by blast
  then show ?thesis by (simp add: triggerOne_decides Retire)
next
  case (Pay d)
  show ?thesis
  proof (cases "triggerOne X w c v s")
    case (Inl e)
    then show ?thesis using payment_refused [OF assms(2-5) Pay Inl] Pay by simp
  next
    case (Inr y)
    then obtain oc s1 where y: "triggerOne X w c v s = Inr (oc, s1)" by (cases y) simp
    then have "st_registry s1 = st_registry s \<and> oc = OutcomeToppedUp"
      by (auto simp: triggerOne_decides Pay Let_def dest: pay_topup_frame)
    then show ?thesis using y Pay by simp
  qed
qed (simp_all add: triggerOne_decides)

theorem trigger_reverts_only_as_documented_witness:
  "\<exists>oc s'. triggerOne purse_externals sample_wiring sample_call 11 (purse_chain False) = Inr (oc, s') \<and>
    oc \<noteq> OutcomeRetired \<and> st_registry s' = sample_registry"
proof -
  let ?s = "purse_chain False"
  have inv: "active_set (st_registry ?s)" using sample_active_set by (simp add: purse_chain_def sample_chain_def)
  have fits: "target_fits purse_externals sample_wiring (st_ext ?s)"
    by (simp add: target_fits_def runway_def purse_externals_def sample_wiring_def)
  have depth: "unat (v_depth (volumes (st_registry ?s) 11)) \<le> 128"
    by (simp add: purse_chain_def sample_registry_def)
  have pay: "decide purse_externals sample_wiring sample_call 11 ?s = Pay 100"
    by (simp add: decide_def decision_table_def deficit_of_def purse_externals_def sample_wiring_def
        sample_call_def purse_chain_def sample_registry_def canPull_def expired_def Let_def)
  note holds = trigger_reverts_only_as_documented [OF inv purse_token purse_postage fits depth]
  show ?thesis
  proof (cases "triggerOne purse_externals sample_wiring sample_call 11 ?s")
    case (Inl e)
    then show ?thesis using holds
      by (simp add: purse_chain_def sample_registry_def purse_externals_def sample_wiring_def)
  next
    case (Inr y)
    then show ?thesis using holds pay by (cases y) (auto simp: purse_chain_def split: if_splits)
  qed
qed

text \<open>
  C15: a topup restores exactly the runway: the balance it logs is what Postage has paid out plus the
  price times \<open>graceBlocks\<close>, and the deficit was positive. The confirmed payer of the volume's owner is
  charged the amount that is logged, the deficit for each of the batch's \<open>2 ^ depth\<close> chunks, exactly
  wherever that fits the word; Postage is allowed just that amount and told to add the deficit.
\<close>

theorem topup_restores_runway:
  assumes "decide X w c v s = Pay d" "triggerOne X w c v s = Inr (oc, s')"
    and "target_fits X w (st_ext s)" "unat d * 2 ^ unat (v_depth (volumes (st_registry s) v)) < 2 ^ 256"
  shows "\<exists>amount balance x1 x2. st_events s' = st_events s @ [LogToppedup v amount balance] \<and>
    unat balance = unat (x_currentTotalOutPayment X (st_ext s)) +
      unat (x_lastPrice X (st_ext s)) * unat (w_graceBlocks w) \<and>
    unat balance = unat (b_normalisedBalance (batch_of X v s)) + unat d \<and> 0 < unat d \<and>
    unat amount = unat d * 2 ^ unat (v_depth (volumes (st_registry s) v)) \<and>
    x_transferFrom X (a_payer (accounts (st_registry s) (v_owner (volumes (st_registry s) v)))) (w_self w) amount
      (st_ext s) = Some (True, x1) \<and>
    x_approve X (w_postage w) amount x1 = Some (True, x2) \<and>
    x_topUp X (v_batchId (volumes (st_registry s) v)) d x2 = Some (st_ext s')"
proof -
  let ?amount = "push_bit (unat (v_depth (volumes (st_registry s) v))) d"
  let ?b = "b_normalisedBalance (batch_of X v s)"
  have paid: "pay_topup X w v (v_batchId (volumes (st_registry s) v))
      (a_payer (accounts (st_registry s) (v_owner (volumes (st_registry s) v)))) ?amount d ?b s = Inr (oc, s')"
    using assms(1,2) by (simp add: triggerOne_decides Let_def batch_of_def)
  obtain x1 x2 where calls: "x_transferFrom X (a_payer (accounts (st_registry s)
        (v_owner (volumes (st_registry s) v)))) (w_self w) ?amount (st_ext s) = Some (True, x1)"
      "x_approve X (w_postage w) ?amount x1 = Some (True, x2)"
      "x_topUp X (v_batchId (volumes (st_registry s) v)) d x2 = Some (st_ext s')"
    using pay_topup_calls [OF paid] by blast
  have ev: "st_events s' = st_events s @ [LogToppedup v ?amount (?b + d)]"
    using pay_topup_frame [OF paid] by blast
  have sum: "unat (?b + d) = unat ?b + unat d"
    using exact_payment(3) [OF assms(3,1)] by (simp add: unat_word_ariths(1))
  then have "unat (?b + d) = unat (x_currentTotalOutPayment X (st_ext s)) +
      unat (x_lastPrice X (st_ext s)) * unat (w_graceBlocks w)"
    using exact_payment(2) [OF assms(3,1)] by simp
  moreover have "0 < unat d" using decide_PayD(4) [OF assms(1)] by (simp add: unat_gt_0)
  ultimately show ?thesis using ev sum calls charge_exact [OF assms(4)] by blast
qed

theorem topup_restores_runway_witness:
  "\<exists>(s' :: (bool \<times> uint256) chain_state) amount balance.
    st_events s' = st_events (purse_chain False) @ [LogToppedup 11 amount balance] \<and>
    unat balance = 250 \<and> unat amount = 100 * 2 ^ 20 \<and>
    (\<exists>x. purse_topup 100 x = Some (st_ext s') \<and> snd x = amount)"
proof -
  let ?s = "purse_chain False"
  have pay: "decide purse_externals sample_wiring sample_call 11 ?s = Pay 100"
    by (simp add: decide_def decision_table_def deficit_of_def purse_externals_def sample_wiring_def
        sample_call_def purse_chain_def sample_registry_def canPull_def expired_def Let_def)
  obtain oc s' where t: "triggerOne purse_externals sample_wiring sample_call 11 ?s = Inr (oc, s')"
    unfolding triggerOne_decides pay
    by (simp add: pay_topup_def require_call_def checked_add_def purse_externals_def purse_topup_def
        purse_chain_def sample_registry_def Let_def)
  have "target_fits purse_externals sample_wiring (st_ext ?s)"
    by (simp add: target_fits_def runway_def purse_externals_def sample_wiring_def)
  from topup_restores_runway [OF pay t this] obtain amount balance x1 x2 where
    "st_events s' = st_events ?s @ [LogToppedup 11 amount balance]" "unat balance = 250"
    "unat amount = 100 * 2 ^ 20" "purse_topup 100 x2 = Some (st_ext s')" "snd x2 = amount"
    by (auto simp: purse_chain_def sample_registry_def purse_externals_def sample_wiring_def)
  then show ?thesis by blast
qed

end
