(* ===== verification/RegistryAbi.thy ===== *)
theory RegistryAbi
  imports RegistryProperties
begin

text \<open>
  The keeper's ABI beside the interface the contract declares
  (\<open>contracts/src/interfaces/IVolumeRegistry*.sol\<close>). viem encodes calls and decodes rows, events and errors
  by the keeper's copy alone, so what it says has to be what the compiler makes of the Solidity declarations:
  \<open>abi_type_of\<close> is the ABI specification's reading of a Solidity type, and \<open>signature\<close> the text that selectors
  and topics are hashed from.
\<close>

section \<open>The contract's interface\<close>

text \<open>
  Solidity's types as its declarations name them. The ABI encodes an enum as \<open>uint8\<close>, a contract as its
  address and a struct as the tuple of its members.
\<close>

datatype sol_type =
    SolValue string
  | SolEnum string
  | SolContract string
  | SolStruct "(string \<times> sol_type) list"
  | SolArray sol_type

fun abi_type_of :: "sol_type \<Rightarrow> abi_type" where
  "abi_type_of (SolValue name) = ValueType name"
| "abi_type_of (SolEnum _) = ValueType ''uint8''"
| "abi_type_of (SolContract _) = ValueType ''address''"
| "abi_type_of (SolStruct ms) = TupleType (map (\<lambda>(n, t). (n, abi_type_of t)) ms)"
| "abi_type_of (SolArray t) = ArrayType (abi_type_of t)"

definition uint8_t :: sol_type where "uint8_t = SolValue ''uint8''"
definition uint64_t :: sol_type where "uint64_t = SolValue ''uint64''"
definition uint256_t :: sol_type where "uint256_t = SolValue ''uint256''"
definition bytes32_t :: sol_type where "bytes32_t = SolValue ''bytes32''"
definition address_t :: sol_type where "address_t = SolValue ''address''"
definition bool_t :: sol_type where "bool_t = SolValue ''bool''"

lemmas sol_types = uint8_t_def uint64_t_def uint256_t_def bytes32_t_def address_t_def bool_t_def

definition account_struct :: sol_type where
  "account_struct = SolStruct [(''payer'', address_t), (''active'', bool_t), (''nonce'', uint64_t)]"

definition view_struct :: sol_type where
  "view_struct = SolStruct
     [(''volumeId'', bytes32_t), (''batchId'', bytes32_t), (''owner'', address_t), (''payer'', address_t),
      (''chunkSigner'', address_t), (''createdAt'', uint64_t), (''ttlExpiry'', uint64_t),
      (''depth'', uint8_t), (''status'', SolEnum ''Status''), (''accountActive'', bool_t)]"

text \<open>Declarations as the compiler lists them; a return value without a name has an empty one.\<close>

definition sol_params :: "(string \<times> sol_type) list \<Rightarrow> abi_param list" where
  "sol_params = map (\<lambda>(n, t). param n (abi_type_of t))"

definition sol_view :: "string \<Rightarrow> (string \<times> sol_type) list \<Rightarrow> sol_type \<Rightarrow> abi_item" where
  "sol_view name inputs result =
     AbiFunction name AbiView (sol_params inputs) (sol_params [('''', result)])"

definition sol_call :: "string \<Rightarrow> (string \<times> sol_type) list \<Rightarrow> (string \<times> sol_type) list \<Rightarrow> abi_item" where
  "sol_call name inputs results = AbiFunction name AbiNonpayable (sol_params inputs) (sol_params results)"

definition sol_log ::
  "string \<Rightarrow> (string \<times> sol_type) list \<Rightarrow> (string \<times> sol_type) list \<Rightarrow> abi_item" where
  "sol_log name indexed plain =
     AbiEvent name (map (\<lambda>(n, t). indexed_param n (abi_type_of t)) indexed @ sol_params plain)"

lemmas sol_declarations = sol_params_def sol_view_def sol_call_def sol_log_def

definition contract_views :: "abi_item list" where
  "contract_views =
     [sol_view ''postage'' [] (SolContract ''IPostageStampLike''),
      sol_view ''bzz'' [] (SolContract ''IERC20Like''),
      sol_view ''graceBlocks'' [] uint64_t,
      sol_view ''bzzPermitExpiry'' [] bool_t,
      sol_view ''getVolume'' [(''volumeId'', bytes32_t)] view_struct,
      sol_view ''getActiveVolumes'' [(''offset'', uint256_t), (''limit'', uint256_t)]
        (SolArray view_struct),
      sol_view ''getActiveVolumeCount'' [] uint256_t,
      sol_view ''getAccount'' [(''owner'', address_t)] account_struct,
      sol_view ''designated'' [(''owner'', address_t)] address_t,
      sol_view ''nextNonce'' [] uint256_t]"

definition contract_owner_calls :: "abi_item list" where
  "contract_owner_calls =
     [sol_call ''createVolume''
        [(''chunkSigner'', address_t), (''depth'', uint8_t), (''bucketDepth'', uint8_t),
         (''ttlExpiry'', uint64_t), (''immutableBatch'', bool_t)] [(''volumeId'', bytes32_t)],
      sol_call ''registerVolume'' [(''batchId'', bytes32_t), (''ttlExpiry'', uint64_t)]
        [(''volumeId'', bytes32_t)],
      sol_call ''importVolume'' [(''batchId'', bytes32_t), (''ttlExpiry'', uint64_t)]
        [(''volumeId'', bytes32_t)],
      sol_call ''deleteVolume'' [(''volumeId'', bytes32_t)] [],
      sol_call ''designateFundingWallet'' [(''payer'', address_t)] [],
      sol_call ''revoke'' [(''owner'', address_t)] []]"

definition contract_payer_calls :: "abi_item list" where
  "contract_payer_calls = [sol_call ''confirmAuth'' [(''owner'', address_t)] []]"

definition contract_keeper_calls :: "abi_item list" where
  "contract_keeper_calls =
     [sol_call ''trigger'' [(''volumeId'', bytes32_t)] [],
      sol_call ''trigger'' [(''volumeIds'', SolArray bytes32_t)] [],
      sol_call ''reap'' [(''volumeId'', bytes32_t)] []]"

definition contract_events :: "abi_item list" where
  "contract_events =
     [sol_log ''VolumeCreated''
        [(''volumeId'', bytes32_t), (''owner'', address_t), (''batchId'', bytes32_t)]
        [(''chunkSigner'', address_t), (''depth'', uint8_t), (''ttlExpiry'', uint64_t)],
      sol_log ''VolumeImported''
        [(''volumeId'', bytes32_t), (''owner'', address_t), (''batchId'', bytes32_t)]
        [(''chunkSigner'', address_t), (''depth'', uint8_t), (''ttlExpiry'', uint64_t),
         (''normalisedBalance'', uint256_t)],
      sol_log ''VolumeRetired'' [(''volumeId'', bytes32_t)] [(''reason'', SolEnum ''RetireReason'')],
      sol_log ''PayerDesignated'' [(''owner'', address_t)] [(''payer'', address_t)],
      sol_log ''AccountActivated'' [(''owner'', address_t), (''payer'', address_t)] [],
      sol_log ''AccountRevoked'' [(''owner'', address_t), (''payer'', address_t)] [(''revoker'', address_t)],
      sol_log ''Toppedup'' [(''volumeId'', bytes32_t)]
        [(''amount'', uint256_t), (''newNormalisedBalance'', uint256_t)],
      sol_log ''TopupSkipped'' [(''volumeId'', bytes32_t)] [(''reason'', SolEnum ''SkipReason'')]]"

definition contract_errors :: "abi_item list" where
  "contract_errors =
     [AbiError ''ZeroAddress'' [],
      AbiError ''GraceBlocksBelowFloor'' (sol_params [(''grace'', uint64_t), (''floor_'', uint64_t)]),
      AbiError ''AccountNotActive'' [],
      AbiError ''NotVolumeOwner'' [],
      AbiError ''VolumeNotActive'' [],
      AbiError ''NotDesignated'' [],
      AbiError ''NotAuthorizedToRevoke'' [],
      AbiError ''DesignationClearedOnActivate'' [],
      AbiError ''BatchNotLive'' [],
      AbiError ''BatchDepthTooSmall'' [],
      AbiError ''ImportTopupFailed'' []]"

definition contract_functions :: "abi_item list" where
  "contract_functions =
     contract_views @ contract_owner_calls @ contract_payer_calls @ contract_keeper_calls"

definition contract_abi :: "abi_item list" where
  "contract_abi = contract_functions @ contract_events @ contract_errors"

lemmas contract_items = contract_abi_def contract_functions_def contract_views_def
  contract_owner_calls_def contract_payer_calls_def contract_keeper_calls_def contract_events_def
  contract_errors_def account_struct_def view_struct_def

lemmas abi_items = registryAbi_def view_components_def param_defs contract_items sol_declarations sol_types

section \<open>What the contract's model reverts with\<close>

text \<open>A custom error has a name; a panic, a failed \<open>require\<close> and a foreign revert have none.\<close>

fun error_name :: "sol_error \<Rightarrow> string option" where
  "error_name ZeroAddress = Some ''ZeroAddress''"
| "error_name (GraceBlocksBelowFloor _ _) = Some ''GraceBlocksBelowFloor''"
| "error_name AccountNotActive = Some ''AccountNotActive''"
| "error_name NotVolumeOwner = Some ''NotVolumeOwner''"
| "error_name VolumeNotActive = Some ''VolumeNotActive''"
| "error_name NotDesignated = Some ''NotDesignated''"
| "error_name NotAuthorizedToRevoke = Some ''NotAuthorizedToRevoke''"
| "error_name DesignationClearedOnActivate = Some ''DesignationClearedOnActivate''"
| "error_name BatchNotLive = Some ''BatchNotLive''"
| "error_name BatchDepthTooSmall = Some ''BatchDepthTooSmall''"
| "error_name ImportTopupFailed = Some ''ImportTopupFailed''"
| "error_name (RequireFailed _) = None"
| "error_name Panic = None"
| "error_name ExternalRevert = None"

section \<open>Lemmas\<close>

lemma keeper_errors:
  "map item_name (filter is_error registryAbi) =
     [''AccountNotActive'', ''BatchNotLive'', ''DesignationClearedOnActivate'', ''GraceBlocksBelowFloor'',
      ''ImportTopupFailed'', ''NotAuthorizedToRevoke'', ''NotDesignated'', ''NotVolumeOwner'',
      ''VolumeNotActive'', ''ZeroAddress'']"
  by (simp add: registryAbi_def is_error_def)

lemma keeper_items: "set registryAbi \<subseteq> set contract_abi"
  by (simp add: abi_items)

lemma contract_signatures: "distinct (map signature contract_functions)"
  by (simp add: abi_items signature_def)

lemma one_trigger:
  "map signature (filter (function_named ''trigger'') registryAbi) = [''trigger(bytes32)'']"
  "map signature (filter (function_named ''trigger'') contract_functions) =
     [''trigger(bytes32)'', ''trigger(bytes32[])'']"
  by (simp_all add: abi_items signature_def function_named_def)

section \<open>The two side by side\<close>

text \<open>
  Every function, event and error of the keeper's ABI is one the contract declares, with the same argument
  and result types, indexing and mutability; of the contract's two \<open>trigger\<close> functions it holds only the
  one for a single volume, and no two functions of the contract share a signature.
\<close>

lemma keeper_abi_agrees:
  "set registryAbi \<subseteq> set contract_abi \<and>
   map signature (filter (function_named ''trigger'') registryAbi) = [''trigger(bytes32)''] \<and>
   distinct (map signature contract_functions)"
  by (intro conjI) (rule keeper_items one_trigger contract_signatures)+

text \<open>
  The keeper's ABI does not hold the contract's full error set: of the custom errors the contract
  reverts with, it names every one but \<open>BatchDepthTooSmall\<close>.
\<close>

lemma keeper_abi_lacks_one_error:
  "filter (\<lambda>n. n \<notin> set (map item_name registryAbi)) (map item_name contract_errors) =
     [''BatchDepthTooSmall''] \<and>
   (case error_name e of
      None \<Rightarrow> True
    | Some n \<Rightarrow> (n \<in> set (map item_name (filter is_error registryAbi))) = (e \<noteq> BatchDepthTooSmall))"
proof
  show "filter (\<lambda>n. n \<notin> set (map item_name registryAbi)) (map item_name contract_errors) =
     [''BatchDepthTooSmall'']"
    by (simp add: registryAbi_def contract_errors_def)
  show "case error_name e of
      None \<Rightarrow> True
    | Some n \<Rightarrow> (n \<in> set (map item_name (filter is_error registryAbi))) = (e \<noteq> BatchDepthTooSmall)"
    by (cases e) (simp_all add: keeper_errors)
qed

end
