(* ===== verification/CycleTime.thy ===== *)
theory CycleTime
  imports CycleSchedule
begin

text \<open>
  How long a cycle takes (\<open>runKeeperCycle.ts\<close>). The world has a time that \<open>Date.now()\<close> reads and that
  only requests move: each is answered or given up within a bound, as the transport of \<open>client.ts\<close>
  makes them, and a receipt is waited for no longer than its timeout beside that. A cycle then returns
  within its deadline and one volume's turn, however many volumes there are.
\<close>

section \<open>Requests that end\<close>

definition takes :: "('w \<Rightarrow> millis) \<Rightarrow> int \<Rightarrow> ('w \<Rightarrow> 'a \<times> 'w) \<Rightarrow> bool" where
  "takes now d f \<longleftrightarrow> (\<forall>w. now w \<le> now (snd (f w)) \<and> now (snd (f w)) \<le> now w + d)"

lemma takesD: "takes now d f \<Longrightarrow> f w = (x, w') \<Longrightarrow> now w \<le> now w' \<and> now w' \<le> now w + d"
  unfolding takes_def by (metis snd_conv)

lemma takesI: "(\<And>w x w'. f w = (x, w') \<Longrightarrow> now w \<le> now w' \<and> now w' \<le> now w + d) \<Longrightarrow> takes now d f"
  unfolding takes_def by (metis prod.collapse)

lemma takes_nonneg: "takes now d f \<Longrightarrow> 0 \<le> d"
  unfolding takes_def by (meson add_le_same_cancel1 le_add_same_cancel1 order_trans)

text \<open>Every request of the client ends within \<open>d\<close>, a receipt's within its timeout and \<open>d\<close>.\<close>

definition prompt :: "('w \<Rightarrow> millis) \<Rightarrow> int \<Rightarrow> 'w client \<Rightarrow> bool" where
  "prompt now d C \<longleftrightarrow>
     (\<forall>w. fst (date_now C w) = now w \<and> now (snd (date_now C w)) = now w) \<and>
     takes now d (get_block_number C) \<and>
     (\<forall>a b. takes now d (read_active_count C a b)) \<and>
     (\<forall>a b cs. takes now d (multicall_active_pages C a b cs)) \<and>
     (\<forall>a b vs. takes now d (multicall_volumes C a b vs)) \<and>
     (\<forall>a. takes now d (get_transaction_count C a)) \<and>
     takes now d (get_block C) \<and>
     takes now d (estimate_priority_fee C) \<and>
     (\<forall>a v. takes now d (simulate_trigger C a v)) \<and>
     (\<forall>a v. takes now d (estimate_trigger_gas C a v)) \<and>
     (\<forall>tx. takes now d (write_contract C tx)) \<and>
     (\<forall>h n t. takes now (int t + d) (wait_for_receipt C h n t))"

lemma promptD:
  assumes "prompt now d C"
  shows "fst (date_now C w) = now w" "now (snd (date_now C w)) = now w"
    and "takes now d (get_block_number C)" "takes now d (read_active_count C a b)"
    and "takes now d (multicall_active_pages C a b cs)" "takes now d (multicall_volumes C a b vs)"
    and "takes now d (get_transaction_count C a)" "takes now d (get_block C)"
    and "takes now d (estimate_priority_fee C)" "takes now d (simulate_trigger C a v)"
    and "takes now d (estimate_trigger_gas C a v)" "takes now d (write_contract C tx)"
    and "takes now (int t + d) (wait_for_receipt C h n t)"
  using assms by (simp_all add: prompt_def)

lemma prompt_nonneg: "prompt now d C \<Longrightarrow> 0 \<le> d"
  using takes_nonneg promptD(3) by blast

section \<open>The enumeration and a turn\<close>

lemma collectActive_time:
  assumes "prompt now d C"
  shows "takes now (2 * d) (collectActiveVolumes C a p k)"
proof (rule takesI)
  fix w x w'
  assume run: "collectActiveVolumes C a p k w = (x, w')"
  obtain n w1 where n: "getActiveVolumeCount C a k w = (n, w1)" by (metis surj_pair)
  have w1: "now w \<le> now w1" "now w1 \<le> now w + d"
    using takesD [OF promptD(4) [OF assms]] n unfolding getActiveVolumeCount_def by blast+
  have ends: "now u \<le> now u' \<and> now u' \<le> now u + d"
    if "multicall_active_pages C a k cs u = (y, u')" for cs u y u'
    using takesD [OF promptD(5) [OF assms] that] .
  show "now w \<le> now w' \<and> now w' \<le> now w + 2 * d"
    using run n w1 prompt_nonneg [OF assms]
    by (force simp: collectActiveVolumes_def Let_def dest: ends split: if_splits sum.splits prod.splits)
qed

lemma collectIds_time:
  assumes "prompt now d C" "collectIds C P b r w = (ids, r', w')"
  shows "now w \<le> now w' \<and> now w' \<le> now w + 2 * d"
proof (cases "nullish (cp_mode P) AllVolumes")
  case AllVolumes
  then show ?thesis using assms(2) takesD [OF collectActive_time [OF assms(1)]]
    by (auto simp: collectIds_def split: prod.splits sum.splits)
next
  case (Selected vs)
  then have "\<exists>y. multicall_volumes C (cp_registry P) (Some b) vs w = (y, w')"
    using assms(2) by (auto simp: collectIds_def Let_def split: prod.splits sum.splits)
  then show ?thesis using takesD [OF promptD(6) [OF assms(1)]] prompt_nonneg [OF assms(1)] by fastforce
qed

text \<open>What one volume's turn may take: three reads, an estimate, the send, and the wait.\<close>

definition turn_time :: "cycle_params \<Rightarrow> int \<Rightarrow> int" where
  "turn_time P d = 6 * d + int (nullish (cp_receiptTimeout P) 60000)"

lemma ensure_time:
  assumes "prompt now d C"
  shows "takes now (3 * d) (ensure_sending C s)"
proof (cases s)
  case None
  show ?thesis
  proof (rule takesI)
    fix w x w'
    assume run: "ensure_sending C s w = (x, w')"
    obtain n w1 where n: "get_transaction_count C (client_address C) w = (n, w1)" by (metis surj_pair)
    obtain b w2 where b: "get_block C w1 = (b, w2)" by (metis surj_pair)
    obtain t w3 where t: "estimate_priority_fee C w2 = (t, w3)" by (metis surj_pair)
    have "w' = w3" using run None n b t by (simp add: ensure_sending_def readSending_def Let_def)
    then show "now w \<le> now w' \<and> now w' \<le> now w + 3 * d"
      using takesD [OF promptD(7) [OF assms] n] takesD [OF promptD(8) [OF assms] b]
        takesD [OF promptD(9) [OF assms] t] by auto
  qed
next
  case (Some y)
  then show ?thesis using prompt_nonneg [OF assms] by (simp add: ensure_sending_def takes_def)
qed

lemma trigger_time:
  assumes "prompt now d C"
  shows "takes now (2 * d) (trigger C p)"
proof (rule takesI)
  fix w x w'
  assume run: "trigger C p w = (x, w')"
  obtain g w1 where g: "trigger_gas C p w = (g, w1)" by (metis surj_pair)
  have w1: "now w \<le> now w1 \<and> now w1 \<le> now w + d"
    using g takesD [OF promptD(11) [OF assms]] prompt_nonneg [OF assms]
    by (auto simp: trigger_gas_def Let_def split: option.splits prod.splits sum.splits)
  have "w' = w1 \<or> (\<exists>tx y. write_contract C tx w1 = (y, w'))"
    using run g by (auto simp: trigger_def split: sum.splits)
  then show "now w \<le> now w' \<and> now w' \<le> now w + 2 * d"
    using w1 takesD [OF promptD(12) [OF assms]] prompt_nonneg [OF assms] by fastforce
qed

lemma sendOne_time:
  assumes pr: "prompt now d C" and turn: "sendOne C V P v s r w = (vr, s', r', w')"
  shows "now w \<le> now w' \<and> now w' \<le> now w + turn_time P d"
proof (cases "nullish (cp_dryRun P) False")
  case True
  obtain x w1 where x: "simulate_trigger C (cp_registry P) v w = (x, w1)" by (metis surj_pair)
  have "w' = w1" using turn True x by (auto simp: sendOne_def split: sum.splits)
  then show ?thesis using takesD [OF promptD(10) [OF pr] x] prompt_nonneg [OF pr]
    by (simp add: turn_time_def)
next
  case False
  obtain x w1 where e: "ensure_sending C s w = (x, w1)" by (metis surj_pair)
  note t1 = takesD [OF ensure_time [OF pr] e]
  show ?thesis
  proof (cases x)
    case (Inl err)
    then show ?thesis using turn False e t1 prompt_nonneg [OF pr]
      by (simp add: sendOne_def turn_time_def)
  next
    case (Inr y)
    obtain h w2 where t: "trigger C (trigger_args P v y) w1 = (h, w2)" by (metis surj_pair)
    note t2 = takesD [OF trigger_time [OF pr] t]
    show ?thesis
    proof (cases h)
      case (Inl err)
      then show ?thesis using turn False e Inr t t1 t2 prompt_nonneg [OF pr]
        by (simp add: sendOne_def turn_time_def)
    next
      case (Inr hash)
      obtain rc w3 where q: "wait_for_receipt C hash (nullish (cp_confirmations P) 1)
          (nullish (cp_receiptTimeout P) 60000) w2 = (rc, w3)" by (metis surj_pair)
      have "w' = w3"
        using turn False e \<open>x = Inr y\<close> t Inr q
        by (auto simp: sendOne_def Let_def split: sum.splits if_splits)
      then show ?thesis using t1 t2 takesD [OF promptD(13) [OF pr] q] by (simp add: turn_time_def)
    qed
  qed
qed

section \<open>The loop and the cycle\<close>

text \<open>No turn begins behind the deadline, but for the first.\<close>

lemma loop_time:
  assumes pr: "prompt now d C"
    and loop: "cycle_loop (sendOne C V P) (date_now C) deadline i ids s r w = (r', w')"
  shows "now w \<le> now w' \<and>
    now w' \<le> max (if i = 0 then now w + turn_time P d else now w) (deadline + turn_time P d)"
  using loop
proof (induction ids arbitrary: i s r w)
  case Nil
  have "0 \<le> turn_time P d" using prompt_nonneg [OF pr] by (simp add: turn_time_def)
  then show ?case using Nil by (cases "i = 0") auto
next
  case (Cons v ids)
  note clock = promptD(1,2) [OF pr]
  from Cons.prems show ?case
  proof (cases rule: cycle_loop_cases)
    case late
    then show ?thesis by (simp add: clock)
  next
    case (turn w1 vr s1 r1 w2)
    have w1: "now w1 = now w" "0 < i \<Longrightarrow> now w1 \<le> deadline"
      using turn(1,2) clock by auto
    note one = sendOne_time [OF pr turn(3)]
    have "now w2 \<le> now w' \<and> now w' \<le> max (now w2) (deadline + turn_time P d)"
      using Cons.IH [OF turn(4)] by simp
    then show ?thesis using one w1 by (cases "i = 0") auto
  qed
qed

text \<open>What a whole cycle may take.\<close>

definition cycle_time :: "cycle_params \<Rightarrow> int \<Rightarrow> int" where
  "cycle_time P d = max (3 * d) (int (nullish (cp_cycleTimeout P) 120000)) + turn_time P d"

lemma attempt_all_time:
  assumes "prompt now d C" "attempt_all C V P t b ids r w = (r', w')"
  shows "now w \<le> now w' \<and> now w' \<le> max (now w) (t + int (nullish (cp_cycleTimeout P) 120000)) + turn_time P d"
proof (cases "ids = []")
  case True
  then show ?thesis using assms prompt_nonneg [OF assms(1)]
    by (simp add: attempt_all_def turn_time_def)
next
  case False
  obtain r2 deadline where "attempt_all C V P t b ids r w =
      cycle_loop (sendOne C V P) (date_now C) deadline 0 (attempt_list V P b ids) None r2 w"
    "deadline = t + int (nullish (cp_cycleTimeout P) 120000)"
    by (rule attempt_all_loop [OF False, of C V P t b r w]) blast
  then have "cycle_loop (sendOne C V P) (date_now C) deadline 0 (attempt_list V P b ids) None r2 w = (r', w')"
    using assms(2) by simp
  from loop_time [OF assms(1) this] show ?thesis using \<open>deadline = _\<close> by (auto simp: max_def split: if_splits)
qed

lemma cycle_body_time:
  assumes "prompt now d C" "cycle_body C V P (now w) r w = (e, r', w')"
  shows "now w \<le> now w' \<and> now w' \<le> now w + cycle_time P d"
proof -
  have nonneg: "0 \<le> d" by (rule prompt_nonneg [OF assms(1)])
  obtain x w1 where x: "get_block_number C w = (x, w1)" by (metis surj_pair)
  note t1 = takesD [OF promptD(3) [OF assms(1)] x]
  show ?thesis
  proof (cases x)
    case (Inl err)
    then show ?thesis using assms(2) x t1 nonneg by (auto simp: cycle_body_def cycle_time_def turn_time_def)
  next
    case (Inr b)
    obtain ids r1 w2 where c: "collectIds C P b (r\<lparr>cr_blockNumber := Some b\<rparr>) w1 = (ids, r1, w2)"
      by (metis prod_cases3)
    note t2 = collectIds_time [OF assms(1) c]
    show ?thesis
    proof (cases ids)
      case (Inl err)
      then show ?thesis using assms(2) x Inr c t1 t2 nonneg
        by (auto simp: cycle_body_def cycle_time_def turn_time_def)
    next
      case (Inr vs)
      have "attempt_all C V P (now w) b vs r1 w2 = (r', w')"
        using assms(2) x \<open>x = Inr b\<close> c Inr by (simp add: cycle_body_def)
      from attempt_all_time [OF assms(1) this] show ?thesis
        using t1 t2 nonneg by (auto simp: cycle_time_def)
    qed
  qed
qed

section \<open>Property\<close>

text \<open>
  C22: a cycle returns, and in time. Where each request ends within \<open>d\<close> milliseconds and a receipt's
  within its timeout beside that, the time from a cycle's start to its end is at most the larger of
  its deadline and the three requests of its enumeration, and one volume's turn: a bound that knows
  nothing of the number of volumes. The duration it reports is that time.
\<close>

theorem cycle_returns_in_time:
  assumes "prompt now d C"
  shows "now (snd (runKeeperCycle C V P w)) = now w + cr_durationMs (fst (runKeeperCycle C V P w)) \<and>
    0 \<le> cr_durationMs (fst (runKeeperCycle C V P w)) \<and>
    cr_durationMs (fst (runKeeperCycle C V P w)) \<le>
      max (3 * d) (int (nullish (cp_cycleTimeout P) 120000)) + 6 * d +
      int (nullish (cp_receiptTimeout P) 60000)"
proof -
  let ?w0 = "snd (date_now C w)"
  note clock = promptD(1,2) [OF assms]
  obtain e r w1 where b: "cycle_body C V P (now w) (initial_result P) ?w0 = (e, r, w1)"
    by (metis prod_cases3)
  have "now ?w0 \<le> now w1 \<and> now w1 \<le> now ?w0 + cycle_time P d"
    by (rule cycle_body_time [OF assms b [folded clock(2) [of w]]])
  then have "now w \<le> now w1" "now w1 \<le> now w + cycle_time P d" by (simp_all add: clock)
  then show ?thesis using b
    by (simp add: runKeeperCycle_def Let_def case_prod_beta clock cycle_time_def turn_time_def)
qed

text \<open>A world that is its time: every request takes 100 ms, a receipt its whole timeout.\<close>

definition slow :: "int \<Rightarrow> 'a \<Rightarrow> (int, 'a) effect" where
  "slow d x = (\<lambda>t. (Inr x, t + d))"

definition slow_row :: volume_view where
  "slow_row =
     \<lparr>view_volumeId = js ''a'', view_batchId = js ''b'', view_owner = js ''o'', view_payer = js ''p'',
      view_chunkSigner = js ''c'', view_createdAt = 0, view_ttlExpiry = 0, view_depth = 20,
      view_status = 1, view_accountActive = True\<rparr>"

definition slow_client :: "int client" where
  "slow_client =
     \<lparr>client_address = js ''0xk'', client_chainId = Some 100, date_now = (\<lambda>t. (t, t)),
      get_block_number = slow 100 7, read_active_count = (\<lambda>_ _. slow 100 2),
      multicall_active_pages = (\<lambda>_ _ _. slow 100 [[slow_row, slow_row]]), multicall_volumes = (\<lambda>_ _ _. slow 100 []),
      get_transaction_count = (\<lambda>_. slow 100 3), get_block = slow 100 \<lparr>baseFeePerGas = Some 1\<rparr>,
      estimate_priority_fee = slow 100 1, simulate_trigger = (\<lambda>_ _. slow 100 ()),
      estimate_trigger_gas = (\<lambda>_ _. slow 100 21000), write_contract = (\<lambda>_. slow 100 (js ''0xh'')),
      wait_for_receipt = (\<lambda>_ _ timeout t. (Inl (ErrorObject (js ''timeout'')), t + int timeout)),
      get_balance = (\<lambda>_. slow 100 0)\<rparr>"

theorem cycle_returns_in_time_witness:
  "cr_durationMs (fst (runKeeperCycle slow_client sample_viem sample_params 5)) \<le> 180600"
proof -
  have "prompt (\<lambda>t. t) 100 slow_client"
    by (simp add: prompt_def slow_client_def takes_def slow_def)
  from cycle_returns_in_time [OF this, of sample_viem sample_params 5] show ?thesis
    by (simp add: sample_params_def)
qed

end
