(* ===== verification/CycleReads.thy ===== *)
theory CycleReads
  imports CycleSchedule
begin

text \<open>
  What a cycle does to the world outside its turns (\<open>runKeeperCycle.ts\<close>): the clock and the reads of its
  enumeration. How those requests move the world is an interface, so that a chain on which they change
  nothing and a chain that other users move meanwhile are two instances of one argument.
\<close>

section \<open>The interface\<close>

text \<open>A relation that holds from each request's start to its end, for the clients that are \<open>quiet\<close>.\<close>

locale client_reads =
  fixes moves :: "'w \<Rightarrow> 'w \<Rightarrow> bool" and quiet :: "'w client \<Rightarrow> bool"
  assumes stays: "moves w w"
    and onward: "moves w w1 \<Longrightarrow> moves w1 w2 \<Longrightarrow> moves w w2"
    and reads_clock: "quiet C \<Longrightarrow> moves w (snd (date_now C w))"
    and reads_block: "quiet C \<Longrightarrow> moves w (snd (get_block_number C w))"
    and reads_count: "quiet C \<Longrightarrow> moves w (snd (read_active_count C a k w))"
    and reads_pages: "quiet C \<Longrightarrow> moves w (snd (multicall_active_pages C a k cs w))"
    and reads_volumes: "quiet C \<Longrightarrow> moves w (snd (multicall_volumes C a k vs w))"
begin

lemma collectActive_moves:
  assumes "quiet C"
  shows "moves w (snd (collectActiveVolumes C a p k w))"
proof (cases "nullish p 100 < 1")
  case True
  then show ?thesis by (simp add: collectActiveVolumes_def stays)
next
  case False
  obtain x w1 where x: "getActiveVolumeCount C a k w = (x, w1)" by (metis surj_pair)
  have w1: "moves w w1"
    using reads_count [OF assms, of w a k] x by (simp add: getActiveVolumeCount_def)
  show ?thesis
  proof (cases x)
    case (Inl e)
    then show ?thesis using False x w1 by (simp add: collectActiveVolumes_def)
  next
    case (Inr n)
    let ?args = "page_args (nat (nullish p 100)) (page_count n (nat (nullish p 100)))"
    obtain y w2 where y: "multicall_active_pages C a k ?args w1 = (y, w2)" by (metis surj_pair)
    have "moves w w2" using reads_pages [OF assms, of w1 a k ?args] y w1 onward by auto
    then show ?thesis using False x w1 Inr y
      by (cases y) (simp_all add: collectActiveVolumes_def Let_def)
  qed
qed

lemma collectIds_moves:
  assumes "quiet C"
  shows "moves w (snd (snd (collectIds C P b r w)))"
proof (cases "nullish (cp_mode P) AllVolumes")
  case AllVolumes
  obtain x w1 where x: "collectActiveVolumes C (cp_registry P) (cp_pageSize P) (Some b) w = (x, w1)"
    by (metis surj_pair)
  then have "moves w w1" using collectActive_moves [OF assms] by (metis snd_conv)
  then show ?thesis using AllVolumes x by (cases x) (simp_all add: collectIds_def)
next
  case (Selected ids)
  obtain x w1 where x: "multicall_volumes C (cp_registry P) (Some b) ids w = (x, w1)" by (metis surj_pair)
  then have "moves w w1" using reads_volumes [OF assms] by (metis snd_conv)
  then show ?thesis using Selected x by (cases x) (simp_all add: collectIds_def case_prod_beta)
qed

text \<open>A cycle whose enumeration succeeded is its loop, between two moves.\<close>

lemma run_moves:
  assumes calm: "quiet C" and enum: "enumeration C P w = Some (b, ids)"
  obtains r2 w2 d r w3 where
    "cycle_loop (sendOne C V P) (date_now C) d 0 (attempt_list V P b ids) None r2 w2 = (r, w3)"
    "moves w w2" "cr_volumes r2 = []"
    "cr_volumes (fst (runKeeperCycle C V P w)) = cr_volumes r"
    "cr_warnings (fst (runKeeperCycle C V P w)) = cr_warnings r"
    "cr_error (fst (runKeeperCycle C V P w)) = None"
    "moves w3 (snd (runKeeperCycle C V P w))"
proof -
  let ?w0 = "snd (date_now C w)"
  let ?r0 = "(initial_result P)\<lparr>cr_blockNumber := Some b\<rparr>"
  obtain w1 where g: "get_block_number C ?w0 = (Inr b, w1)"
    and "fst (collectIds C P b ?r0 w1) = Inr ids"
    using enum by (auto simp: enumeration_def split: prod.splits sum.splits)
  then obtain r1 w2 where c: "collectIds C P b ?r0 w1 = (Inr ids, r1, w2)" by (metis prod.collapse)
  have "moves w ?w0" by (rule reads_clock [OF calm])
  moreover have "moves ?w0 w1" using reads_block [OF calm, of ?w0] g by simp
  moreover have "moves w1 w2" using collectIds_moves [OF calm, of w1 P b ?r0] c by simp
  ultimately have w2: "moves w w2" using onward by blast
  have r1: "cr_volumes r1 = []" "cr_error r1 = None" "accounting r1"
    using collectIds_frame [OF c]
    by (simp_all add: initial_result_def accounting_def lists_agree_def ok_agrees_def)
  obtain r w3 where a: "attempt_all C V P (fst (date_now C w)) b ids r1 w2 = (r, w3)" by (metis surj_pair)
  have run: "runKeeperCycle C V P w =
      (r\<lparr>cr_durationMs := fst (date_now C w3) - fst (date_now C w)\<rparr>, snd (date_now C w3))"
    using g c a by (simp add: runKeeperCycle_def cycle_body_def Let_def case_prod_beta)
  have out: "moves w3 (snd (runKeeperCycle C V P w))"
    using reads_clock [OF calm, of w3] by (simp add: run)
  show ?thesis
  proof (cases "ids = []")
    case True
    then have "attempt_list V P b ids = []" by (simp add: attempt_list_def rotateVolumes_def)
    moreover have "r = r1\<lparr>cr_volumeCount := 0, cr_skipped := Some (js ''no active volumes'')\<rparr>" "w3 = w2"
      using a True by (simp_all add: attempt_all_def Let_def)
    ultimately show ?thesis using r1 w2 out run by (intro that [of 0 r w2 r w3]) simp_all
  next
    case False
    obtain r2 deadline where l: "attempt_all C V P (fst (date_now C w)) b ids r1 w2 =
        cycle_loop (sendOne C V P) (date_now C) deadline 0 (attempt_list V P b ids) None r2 w2"
      "accounting r2 = accounting r1" "cr_error r2 = cr_error r1" "cr_volumes r2 = cr_volumes r1"
      by (rule attempt_all_loop [OF False, of C V P "fst (date_now C w)" b r1 w2]) blast
    have "cycle_loop (sendOne C V P) (date_now C) deadline 0 (attempt_list V P b ids) None r2 w2 = (r, w3)"
      using l(1) a by simp
    moreover have "cr_error r = None"
      using keeper_turn.loop_accounting [OF calculation] l(2,3) r1 by simp
    ultimately show ?thesis using l(4) r1(1) w2 out run by (intro that [of deadline r2 w2 r w3]) simp_all
  qed
qed

end

end
