(* ===== verification/RegistryLife.thy ===== *)
theory RegistryLife
  imports RegistryProperties
begin

text \<open>
  The registry over a recorded life: the calls that did not revert, in order
  (\<open>contracts/src/VolumeRegistry.sol\<close>). Two specifications are computed from the calls alone, and the
  storage is shown to agree with them: who has consented to pay for whom (\<open>consent\<close>), and how many
  creating calls an owner has made (\<open>creations\<close>). A token that records its \<open>transferFrom\<close> calls then shows
  that money is pulled from consenting payers only. The invariant of the active array over every
  reachable state is stated here too.
\<close>

section \<open>Lives\<close>

type_synonym history = "(call_context \<times> registry_call) list"

inductive life :: "'x externals \<Rightarrow> wiring \<Rightarrow> history \<Rightarrow> 'x chain_state \<Rightarrow> bool" for X w where
  deployed: "deploy X self postage bzz grace permit x = Inr (w, s) \<Longrightarrow> life X w [] s"
| called: "life X w h s \<Longrightarrow> length (activeVolumeIds (st_registry s)) < 2 ^ 32 \<Longrightarrow>
    run_call X w c op s = Inr s' \<Longrightarrow> life X w (h @ [(c, op)]) s'"
| elapsed: "life X w h s \<Longrightarrow> life X w h (s\<lparr>st_ext := x\<rparr>)"

lemma life_reachable: "life X w h s \<Longrightarrow> reachable X w s"
proof (induction rule: life.induct)
  case (called h s c op s')
  then show ?case by (blast intro: reachable.stepped registry_step.call)
qed (auto intro: reachable.intros registry_step.intros)

section \<open>Consent, from the calls alone\<close>

text \<open>Who an owner has designated, and who has confirmed an owner and not been revoked since.\<close>

type_synonym consent = "(sol_address \<Rightarrow> sol_address) \<times> (sol_address \<Rightarrow> sol_address option)"

fun consent_step :: "call_context \<times> registry_call \<Rightarrow> consent \<Rightarrow> consent" where
  "consent_step (c, Designate p) (d, k) = (d(msg_sender c := p), k)"
| "consent_step (c, Confirm owner) (d, k) =
     (d, if d owner = msg_sender c then k(owner := Some (msg_sender c)) else k)"
| "consent_step (c, Revoke owner) (d, k) =
     (d, if msg_sender c = owner \<or> k owner = Some (msg_sender c) then k(owner := None) else k)"
| "consent_step _ dk = dk"

definition consent :: "history \<Rightarrow> consent" where
  "consent h = fold consent_step h (\<lambda>_. 0, \<lambda>_. None)"

definition consented :: "history \<Rightarrow> sol_address \<Rightarrow> sol_address option" where
  "consented h = snd (consent h)"

text \<open>The same, as the storage has it.\<close>

definition funding :: "registry \<Rightarrow> sol_address \<Rightarrow> sol_address option" where
  "funding r owner = (if a_active (accounts r owner) then Some (a_payer (accounts r owner)) else None)"

definition consent_of :: "registry \<Rightarrow> consent" where
  "consent_of r = (designated r, funding r)"

section \<open>What the operations do to accounts\<close>

text \<open>A trigger changes no account and no owner, and makes no volume Active.\<close>

definition accounts_kept :: "registry \<Rightarrow> registry \<Rightarrow> bool" where
  "accounts_kept r r' \<longleftrightarrow>
     accounts r' = accounts r \<and> designated r' = designated r \<and>
     (\<forall>v. v_owner (volumes r' v) = v_owner (volumes r v) \<and>
          (v_status (volumes r' v) = StatusActive \<longrightarrow> v_status (volumes r v) = StatusActive) \<and>
          (v_status (volumes r' v) = StatusNone \<longleftrightarrow> v_status (volumes r v) = StatusNone))"

lemma accounts_kept_refl [simp]: "accounts_kept r r"
  by (simp add: accounts_kept_def)

lemma accounts_kept_trans: "accounts_kept r r1 \<Longrightarrow> accounts_kept r1 r2 \<Longrightarrow> accounts_kept r r2"
  unfolding accounts_kept_def by metis

lemma retire_accounts: "retire v x s = Inr (u, s') \<Longrightarrow>
    v_status (volumes (st_registry s) v) \<noteq> StatusNone \<Longrightarrow> accounts_kept (st_registry s) (st_registry s')"
  by (auto simp: retire_def Let_def accounts_kept_def split: if_splits)

lemma triggerOne_accounts:
  assumes "triggerOne X w c v s = Inr (oc, s')"
  shows "accounts_kept (st_registry s) (st_registry s')"
proof (cases "decide X w c v s")
  case (Retire x)
  then have "v_status (volumes (st_registry s) v) \<noteq> StatusNone"
    by (auto simp: decide_def decision_table_def Let_def)
  then show ?thesis using assms Retire
    by (auto simp: triggerOne_decides retired_with_def retire_accounts split: sum.splits)
next
  case (Pay d)
  then show ?thesis using assms by (auto simp: triggerOne_decides Let_def dest!: pay_topup_frame)
qed (use assms in \<open>auto simp: triggerOne_decides\<close>)

lemma triggerVolumes_accounts:
  "triggerVolumes X w c vs s = Inr (u, s') \<Longrightarrow> accounts_kept (st_registry s) (st_registry s')"
  by (induction vs arbitrary: s)
    (auto split: sum.splits intro: accounts_kept_trans dest!: triggerOne_accounts)

lemma recordVolume_accounts:
  assumes "recordVolume X c b signer depth ttl s = Inr (v, s')"
  shows "designated (st_registry s') = designated (st_registry s)"
    and "funding (st_registry s') = funding (st_registry s)"
    and "a_nonce (accounts (st_registry s') owner) =
      a_nonce (accounts (st_registry s) owner) + (if owner = msg_sender c then 1 else 0)"
    and "v = x_hash_volume X (msg_sender c) (a_nonce (accounts (st_registry s) (msg_sender c)))"
    and "volumes (st_registry s') = (volumes (st_registry s))(v := volumes (st_registry s') v)"
    and "v_owner (volumes (st_registry s') v) = msg_sender c"
    and "v_status (volumes (st_registry s') v) = StatusActive"
    and "st_ext s' = st_ext s"
  using assms by (auto simp: recordVolume_def Let_def funding_def fun_eq_iff split: if_splits)

text \<open>A creating call issues one id and consumes one nonce; it changes no consent.\<close>

definition issues :: "'x externals \<Rightarrow> call_context \<Rightarrow> bytes32 \<Rightarrow> registry \<Rightarrow> registry \<Rightarrow> bool" where
  "issues X c v r r' \<longleftrightarrow>
     consent_of r' = consent_of r \<and>
     (\<forall>owner. a_nonce (accounts r' owner) =
        a_nonce (accounts r owner) + (if owner = msg_sender c then 1 else 0)) \<and>
     v = x_hash_volume X (msg_sender c) (a_nonce (accounts r (msg_sender c))) \<and>
     (\<forall>u. u \<noteq> v \<longrightarrow> v_owner (volumes r' u) = v_owner (volumes r u) \<and>
        (v_status (volumes r' u) = StatusNone \<longleftrightarrow> v_status (volumes r u) = StatusNone)) \<and>
     v_owner (volumes r' v) = msg_sender c"

lemma issuesD:
  assumes "issues X c v r r'"
  shows "consent_of r' = consent_of r"
    and "a_nonce (accounts r' owner) = a_nonce (accounts r owner) + (if owner = msg_sender c then 1 else 0)"
    and "v = x_hash_volume X (msg_sender c) (a_nonce (accounts r (msg_sender c)))"
    and "u \<noteq> v \<Longrightarrow> v_owner (volumes r' u) = v_owner (volumes r u)"
    and "u \<noteq> v \<Longrightarrow> v_status (volumes r' u) = StatusNone \<longleftrightarrow> v_status (volumes r u) = StatusNone"
    and "v_owner (volumes r' v) = msg_sender c"
  using assms unfolding issues_def by blast+

lemma funding_update [simp]:
  "funding (r\<lparr>designated := d\<rparr>) = funding r"
  "funding (r\<lparr>accounts := (accounts r)(owner := acct)\<rparr>) =
     (funding r)(owner := if a_active acct then Some (a_payer acct) else None)"
  by (simp_all add: fun_eq_iff funding_def)

lemma funding_cong: "accounts r' = accounts r \<Longrightarrow> funding r' = funding r"
  by (simp add: fun_eq_iff funding_def)

lemma recordVolume_issues:
  assumes "recordVolume X c b signer depth ttl s = Inr (v, s')"
  shows "issues X c v (st_registry s) (st_registry s')"
proof -
  note rec = recordVolume_accounts [OF assms]
  have "volumes (st_registry s') u = volumes (st_registry s) u" if "u \<noteq> v" for u
    using rec(5) that by (metis fun_upd_other)
  then show ?thesis unfolding issues_def consent_of_def using rec(1-4,6) by simp
qed

lemma issues_kept: "issues X c v r r1 \<Longrightarrow> accounts_kept r1 r2 \<Longrightarrow> issues X c v r r2"
  using funding_cong [of r2 r1] unfolding issues_def accounts_kept_def consent_of_def by auto

lemma issues_nextNonce [simp]:
  "issues X c v (r\<lparr>nextNonce := n\<rparr>) r' = issues X c v r r'"
proof -
  have "funding (r\<lparr>nextNonce := n\<rparr>) = funding r" by (simp add: fun_eq_iff funding_def)
  then show ?thesis by (simp add: issues_def consent_of_def)
qed

lemma registerVolume_records:
  assumes "registerVolume X c b ttl s = Inr (v, s')"
  obtains signer depth s1 where "recordVolume X c b signer depth ttl s = Inr (v, s1)"
    "st_registry s' = st_registry s1" "st_ext s' = st_ext s1"
    "a_active (accounts (st_registry s) (msg_sender c))"
  using assms by (auto simp: registerVolume_def Let_def split: if_splits sum.splits)

lemma createVolume_issues:
  assumes "createVolume X w c signer depth bucket ttl imm s = Inr (v, s')"
  shows "issues X c v (st_registry s) (st_registry s')"
proof -
  let ?r1 = "(st_registry s)\<lparr>nextNonce := nextNonce (st_registry s) + 1\<rparr>"
  obtain b x s2 s4 where rec: "recordVolume X c b signer depth ttl
      ((set_registry ?r1 s2)\<lparr>st_ext := x\<rparr>) = Inr (v, s4)" and s': "st_registry s' = st_registry s4"
    using assms by (auto simp: createVolume_def Let_def split: if_splits sum.splits option.splits)
  then show ?thesis using recordVolume_issues [OF rec] by simp
qed

lemma registerVolume_issues:
  "registerVolume X c b ttl s = Inr (v, s') \<Longrightarrow> issues X c v (st_registry s) (st_registry s')"
  by (erule registerVolume_records) (auto dest: recordVolume_issues)

lemma importVolume_issues:
  assumes "importVolume X w c b ttl s = Inr (v, s')"
  shows "issues X c v (st_registry s) (st_registry s')"
proof -
  obtain s1 oc where "registerVolume X c b ttl s = Inr (v, s1)" "triggerOne X w c v s1 = Inr (oc, s')"
    using assms by (auto simp: importVolume_def split: sum.splits if_splits)
  then show ?thesis using issues_kept registerVolume_issues triggerOne_accounts by blast
qed

lemma other_calls_accounts:
  "deleteVolume c v s = Inr (u, s') \<Longrightarrow> accounts_kept (st_registry s) (st_registry s')"
  "reap c v s = Inr (u, s') \<Longrightarrow> accounts_kept (st_registry s) (st_registry s')"
  "triggerVolume X w c v s = Inr (u, s') \<Longrightarrow> accounts_kept (st_registry s) (st_registry s')"
  by (auto simp: deleteVolume_def reap_def triggerVolume_def Let_def retire_accounts triggerOne_accounts
      split: if_splits sum.splits)

lemmas calls_issue = createVolume_issues registerVolume_issues importVolume_issues
lemmas calls_accounts = other_calls_accounts triggerVolumes_accounts

fun creating :: "registry_call \<Rightarrow> bool" where
  "creating (CallCreate _ _ _ _ _) = True"
| "creating (CallRegister _ _) = True"
| "creating (CallImport _ _) = True"
| "creating _ = False"

fun account_call :: "registry_call \<Rightarrow> bool" where
  "account_call (Designate _) = True"
| "account_call (Confirm _) = True"
| "account_call (Revoke _) = True"
| "account_call _ = False"

lemma creating_issues:
  assumes "run_call X w c op s = Inr s'" "creating op"
  shows "\<exists>v. issues X c v (st_registry s) (st_registry s')"
  using assms by (cases op) (auto simp: map_sum_Inr dest!: calls_issue)

lemma other_accounts:
  assumes "run_call X w c op s = Inr s'" "\<not> creating op" "\<not> account_call op"
  shows "accounts_kept (st_registry s) (st_registry s')"
  using assms by (cases op) (auto simp: map_sum_Inr dest: calls_accounts)

lemma account_call_frame:
  assumes "run_call X w c op s = Inr s'" "account_call op"
  shows "volumes (st_registry s') = volumes (st_registry s) \<and> st_ext s' = st_ext s \<and>
    a_nonce \<circ> accounts (st_registry s') = a_nonce \<circ> accounts (st_registry s) \<and>
    consent_of (st_registry s') = consent_step (c, op) (consent_of (st_registry s))"
proof (cases op)
  case (Designate p)
  then show ?thesis using assms(1)
    by (auto simp: map_sum_Inr designateFundingWallet_def consent_of_def Let_def)
next
  case (Confirm owner)
  then have "designated (st_registry s) owner = msg_sender c"
    and "st_registry s' = (st_registry s)\<lparr>accounts := (accounts (st_registry s))(owner :=
      (accounts (st_registry s) owner)\<lparr>a_payer := msg_sender c, a_active := True\<rparr>)\<rparr>" "st_ext s' = st_ext s"
    using assms(1) by (auto simp: map_sum_Inr confirmAuth_def Let_def split: if_splits)
  then show ?thesis using Confirm by (simp add: consent_of_def fun_eq_iff)
next
  case (Revoke owner)
  then have "msg_sender c = owner \<or> msg_sender c = a_payer (accounts (st_registry s) owner)"
    and "st_registry s' = (st_registry s)\<lparr>accounts := (accounts (st_registry s))(owner :=
      (accounts (st_registry s) owner)\<lparr>a_active := False\<rparr>)\<rparr>" "st_ext s' = st_ext s"
    using assms(1) by (auto simp: map_sum_Inr revoke_def Let_def split: if_splits)
  then show ?thesis using Revoke by (auto simp: consent_of_def fun_eq_iff funding_def)
qed (use assms(2) in simp_all)

lemma consent_step_other: "\<not> account_call op \<Longrightarrow> consent_step (c, op) k = k"
  by (cases op; cases k) auto

text \<open>The storage agrees with the calls about who consents.\<close>

lemma run_call_consent:
  assumes "run_call X w c op s = Inr s'"
  shows "consent_of (st_registry s') = consent_step (c, op) (consent_of (st_registry s))"
proof (cases "account_call op")
  case True
  then show ?thesis using account_call_frame [OF assms] by simp
next
  case False
  have "consent_of (st_registry s') = consent_of (st_registry s)"
  proof (cases "creating op")
    case True
    then show ?thesis using creating_issues [OF assms] by (auto simp: issues_def)
  next
    case no: False
    then have "accounts_kept (st_registry s) (st_registry s')" by (rule other_accounts [OF assms _ False])
    then show ?thesis using funding_cong [of "st_registry s'" "st_registry s"]
      by (simp add: accounts_kept_def consent_of_def)
  qed
  then show ?thesis using False by (simp add: consent_step_other)
qed

lemma consent_snoc: "consent (h @ [a]) = consent_step a (consent h)"
  by (simp add: consent_def)

lemma deploy_state:
  "deploy X self postage bzz grace permit x = Inr (w, s) \<Longrightarrow> st_registry s = empty_registry"
  by (auto simp: deploy_def Let_def split: if_splits)

lemma life_consent: "life X w h s \<Longrightarrow> consent_of (st_registry s) = consent h"
proof (induction rule: life.induct)
  case (deployed self postage bzz grace permit x s)
  then have "st_registry s = empty_registry" by (rule deploy_state)
  then show ?case by (simp add: consent_of_def funding_def empty_registry_def consent_def fun_eq_iff)
qed (simp_all add: consent_snoc run_call_consent)

section \<open>Ids, from the calls alone\<close>

definition creations :: "history \<Rightarrow> sol_address \<Rightarrow> nat" where
  "creations h owner = length (filter (\<lambda>(c, op). creating op \<and> msg_sender c = owner) h)"

lemma creations_snoc:
  "creations (h @ [(c, op)]) owner =
     creations h owner + (if creating op \<and> msg_sender c = owner then 1 else 0)"
  by (simp add: creations_def)

text \<open>What a history says of the nonces and of the ids that exist.\<close>

definition ids_issued :: "'x externals \<Rightarrow> history \<Rightarrow> registry \<Rightarrow> bool" where
  "ids_issued X h r \<longleftrightarrow>
     (\<forall>owner. a_nonce (accounts r owner) = of_nat (creations h owner)) \<and>
     (\<forall>v. v_status (volumes r v) \<noteq> StatusNone \<longrightarrow>
        (\<exists>n < creations h (v_owner (volumes r v)). v = x_hash_volume X (v_owner (volumes r v)) (of_nat n)))"

lemma ids_issued_same:
  assumes "ids_issued X h r" and "\<not> creating op"
    and "\<And>owner. a_nonce (accounts r' owner) = a_nonce (accounts r owner)"
    and "\<And>v. v_owner (volumes r' v) = v_owner (volumes r v)"
    and "\<And>v. v_status (volumes r' v) = StatusNone \<longleftrightarrow> v_status (volumes r v) = StatusNone"
  shows "ids_issued X (h @ [(c, op)]) r'"
  using assms by (simp add: ids_issued_def creations_snoc)

lemma ids_issued_creating:
  assumes "ids_issued X h r" and "creating op" and "issues X c v r r'"
  shows "ids_issued X (h @ [(c, op)]) r'"
proof -
  have nonce: "a_nonce (accounts r owner) = of_nat (creations h owner)" for owner
    using assms(1) by (simp add: ids_issued_def)
  have "\<exists>n < creations (h @ [(c, op)]) (v_owner (volumes r' u)).
      u = x_hash_volume X (v_owner (volumes r' u)) (of_nat n)"
    if u: "v_status (volumes r' u) \<noteq> StatusNone" for u
  proof (cases "u = v")
    case True
    then have "v_owner (volumes r' u) = msg_sender c" using issuesD(6) [OF assms(3)] by simp
    moreover have "u = x_hash_volume X (msg_sender c) (of_nat (creations h (msg_sender c)))"
      using issuesD(3) [OF assms(3)] nonce True by simp
    ultimately show ?thesis using assms(2) by (auto simp: creations_snoc)
  next
    case False
    then have "v_owner (volumes r' u) = v_owner (volumes r u)" "v_status (volumes r u) \<noteq> StatusNone"
      using issuesD(4,5) [OF assms(3)] u by blast+
    moreover obtain n where "n < creations h (v_owner (volumes r u))"
      "u = x_hash_volume X (v_owner (volumes r u)) (of_nat n)"
      using assms(1) calculation(2) unfolding ids_issued_def by blast
    ultimately show ?thesis by (auto simp: creations_snoc intro!: exI [of _ n])
  qed
  moreover have "a_nonce (accounts r' owner) = of_nat (creations (h @ [(c, op)]) owner)" for owner
    using issuesD(2) [OF assms(3)] assms(2) nonce by (auto simp: creations_snoc)
  ultimately show ?thesis by (simp add: ids_issued_def)
qed

lemma run_call_ids:
  assumes "ids_issued X h (st_registry s)" and "run_call X w c op s = Inr s'"
  shows "ids_issued X (h @ [(c, op)]) (st_registry s')"
proof (cases "creating op")
  case True
  then show ?thesis using creating_issues [OF assms(2)] ids_issued_creating [OF assms(1)] by blast
next
  case no: False
  show ?thesis
  proof (cases "account_call op")
    case True
    have frame: "volumes (st_registry s') = volumes (st_registry s)"
      "a_nonce (accounts (st_registry s') owner) = a_nonce (accounts (st_registry s) owner)" for owner
      using account_call_frame [OF assms(2) True] by (simp_all add: fun_eq_iff)
    show ?thesis by (rule ids_issued_same [OF assms(1) no]) (simp_all add: frame)
  next
    case False
    show ?thesis using other_accounts [OF assms(2) no False]
      by (intro ids_issued_same [OF assms(1) no]) (auto simp: accounts_kept_def)
  qed
qed

lemma life_ids: "life X w h s \<Longrightarrow> ids_issued X h (st_registry s)"
proof (induction rule: life.induct)
  case (deployed self postage bzz grace permit x s)
  then have "st_registry s = empty_registry" by (rule deploy_state)
  then show ?case by (simp add: ids_issued_def empty_registry_def zero_volume_def creations_def)
qed (simp_all add: run_call_ids)

section \<open>A token that records what is pulled\<close>

type_synonym charge = "sol_address \<times> sol_address \<times> uint256"

text \<open>Beside the state of the outside, the \<open>transferFrom\<close> calls that did not revert.\<close>

definition metered :: "'x externals \<Rightarrow> ('x \<times> charge list) externals" where
  "metered X =
     \<lparr>x_batches = (\<lambda>b y. x_batches X b (fst y)),
      x_currentTotalOutPayment = (\<lambda>y. x_currentTotalOutPayment X (fst y)),
      x_lastPrice = (\<lambda>y. x_lastPrice X (fst y)),
      x_minimumValidityBlocks = (\<lambda>y. x_minimumValidityBlocks X (fst y)),
      x_minimumBucketDepth = (\<lambda>y. x_minimumBucketDepth X (fst y)),
      x_createBatch = (\<lambda>a b d bd n i y. map_option (\<lambda>(id, x). (id, x, snd y)) (x_createBatch X a b d bd n i (fst y))),
      x_topUp = (\<lambda>b d y. map_option (\<lambda>x. (x, snd y)) (x_topUp X b d (fst y))),
      x_balanceOf = (\<lambda>a y. x_balanceOf X a (fst y)),
      x_allowance = (\<lambda>a b y. x_allowance X a b (fst y)),
      x_expirations = (\<lambda>a b y. x_expirations X a b (fst y)),
      x_has_expirations = (\<lambda>y. x_has_expirations X (fst y)),
      x_transferFrom = (\<lambda>payer dest amount y.
        map_option (\<lambda>(ok, x). (ok, x, snd y @ [(payer, dest, amount)]))
          (x_transferFrom X payer dest amount (fst y))),
      x_approve = (\<lambda>a amount y. map_option (\<lambda>(ok, x). (ok, x, snd y)) (x_approve X a amount (fst y))),
      x_hash_volume = x_hash_volume X, x_hash_batch = x_hash_batch X\<rparr>"

definition pulled :: "('x \<times> charge list) chain_state \<Rightarrow> charge list" where
  "pulled s = snd (st_ext s)"

text \<open>On whose behalf a call may pull money.\<close>

fun billed :: "registry \<Rightarrow> call_context \<Rightarrow> registry_call \<Rightarrow> sol_address \<Rightarrow> bool" where
  "billed r c (CallCreate _ _ _ _ _) owner = (owner = msg_sender c)"
| "billed r c (CallImport _ _) owner = (owner = msg_sender c)"
| "billed r c (CallTrigger v) owner =
     (v_status (volumes r v) = StatusActive \<and> owner = v_owner (volumes r v))"
| "billed r c (CallTriggerMany vs) owner =
     list_ex (\<lambda>v. v_status (volumes r v) = StatusActive \<and> owner = v_owner (volumes r v)) vs"
| "billed r c _ owner = False"

text \<open>A call's own pulls, each from the funding of an owner of \<open>B\<close> and into the registry.\<close>

definition pulls_from ::
  "wiring \<Rightarrow> registry \<Rightarrow> (sol_address \<Rightarrow> bool) \<Rightarrow> ('x \<times> charge list) chain_state \<Rightarrow>
     ('x \<times> charge list) chain_state \<Rightarrow> bool" where
  "pulls_from w r B s s' \<longleftrightarrow>
     (\<exists>cs. pulled s' = pulled s @ cs \<and>
        list_all (\<lambda>(payer, dest, amount). dest = w_self w \<and> (\<exists>owner. B owner \<and> funding r owner = Some payer)) cs)"

lemma pulls_none: "pulled s' = pulled s \<Longrightarrow> pulls_from w r B s s'"
  by (simp add: pulls_from_def)

lemma pulls_one:
  "pulled s' = pulled s @ [(payer, w_self w, amount)] \<Longrightarrow> B owner \<Longrightarrow> funding r owner = Some payer \<Longrightarrow>
   pulls_from w r B s s'"
  by (auto simp: pulls_from_def)

lemma pulls_trans: "pulls_from w r B s s1 \<Longrightarrow> pulls_from w r B s1 s2 \<Longrightarrow> pulls_from w r B s s2"
  by (auto simp: pulls_from_def)

lemma pulls_mono:
  "pulls_from w r B s s' \<Longrightarrow> (\<And>owner. B owner \<Longrightarrow> B' owner) \<Longrightarrow> funding r' = funding r \<Longrightarrow>
   pulls_from w r' B' s s'"
  by (fastforce simp: pulls_from_def list_all_iff)

lemma require_pull:
  "require_call (x_transferFrom (metered X) payer dest amount) m s = Inr (u, s') \<Longrightarrow>
     pulled s' = pulled s @ [(payer, dest, amount)] \<and> st_registry s' = st_registry s"
  "require_call (x_approve (metered X) a amount) m s = Inr (u, s') \<Longrightarrow>
     pulled s' = pulled s \<and> st_registry s' = st_registry s"
  by (auto simp: require_call_def metered_def pulled_def split: option.splits prod.splits if_splits)

lemma pay_topup_pulls:
  assumes "pay_topup (metered X) w v b payer amount deficit bal s = Inr (oc, s')"
  shows "pulled s' = pulled s @ [(payer, w_self w, amount)]"
proof -
  obtain s1 s2 u1 u2 where "require_call (x_transferFrom (metered X) payer (w_self w) amount) ''BZZ_TRANSFER_FAIL'' s = Inr (u1, s1)"
    "require_call (x_approve (metered X) (w_postage w) amount) ''BZZ_APPROVE_FAIL'' s1 = Inr (u2, s2)"
    "pulled s' = pulled s2"
    using assms
    by (auto simp: pay_topup_def pulled_def metered_def split: sum.splits option.splits prod.splits)
  then show ?thesis using require_pull by metis
qed

lemma decide_Pay_active:
  assumes "decide X w c v s = Pay d"
  shows "v_status (volumes (st_registry s) v) = StatusActive"
    and "funding (st_registry s) (v_owner (volumes (st_registry s) v)) =
      Some (a_payer (accounts (st_registry s) (v_owner (volumes (st_registry s) v))))"
  using decide_PayD(1) [OF assms] assms
  by (auto simp: decide_def decision_table_def Let_def funding_def split: if_splits)

lemma retire_pulls: "retire v x s = Inr (u, s') \<Longrightarrow> pulled s' = pulled s"
  by (auto simp: retire_def Let_def pulled_def split: if_splits)

lemma triggerOne_pulls:
  assumes run: "triggerOne (metered X) w c v s = Inr (oc, s')"
  shows "pulls_from w (st_registry s) (billed (st_registry s) c (CallTrigger v)) s s'"
proof (cases "decide (metered X) w c v s")
  case (Skip x)
  then show ?thesis using run by (auto simp: triggerOne_decides pulled_def intro!: pulls_none)
next
  case (Retire x)
  then show ?thesis using run
    by (auto simp: triggerOne_decides retired_with_def retire_pulls split: sum.splits intro!: pulls_none)
next
  case Nothing
  then show ?thesis using run by (auto simp: triggerOne_decides intro!: pulls_none)
next
  case (Pay d)
  then have "carry_out (metered X) w v (Pay d) s = Inr (oc, s')" using run by (simp add: triggerOne_decides)
  then show ?thesis
    using decide_Pay_active [OF Pay] by (auto simp: Let_def intro: pulls_one dest!: pay_topup_pulls)
qed

lemma triggerVolumes_pulls:
  "triggerVolumes (metered X) w c vs s = Inr (u, s') \<Longrightarrow>
   pulls_from w (st_registry s) (billed (st_registry s) c (CallTriggerMany vs)) s s'"
proof (induction vs arbitrary: s)
  case Nil
  then show ?case by (simp add: pulls_none)
next
  case (Cons v vs)
  then obtain oc s1 where one: "triggerOne (metered X) w c v s = Inr (oc, s1)"
    and rest: "triggerVolumes (metered X) w c vs s1 = Inr (u, s')" by (auto split: sum.splits)
  have kept: "accounts_kept (st_registry s) (st_registry s1)" by (rule triggerOne_accounts [OF one])
  have "pulls_from w (st_registry s) (billed (st_registry s) c (CallTriggerMany (v # vs))) s s1"
    by (rule pulls_mono [OF triggerOne_pulls [OF one]]) simp_all
  moreover have "pulls_from w (st_registry s) (billed (st_registry s) c (CallTriggerMany (v # vs))) s1 s'"
    by (rule pulls_mono [OF Cons.IH [OF rest]])
      (use kept in \<open>auto simp: list_ex_iff accounts_kept_def intro!: funding_cong\<close>)
  ultimately show ?case by (rule pulls_trans)
qed

lemma createVolume_pulls:
  assumes "createVolume (metered X) w c signer depth bucket ttl imm s = Inr (v, s')"
  shows "pulls_from w (st_registry s) (\<lambda>owner. owner = msg_sender c) s s'"
proof -
  let ?acct = "accounts (st_registry s) (msg_sender c)"
  obtain amount s1 s2 u1 u2 s3 b r x s4 where act: "a_active ?acct"
    and pull: "require_call (x_transferFrom (metered X) (a_payer ?acct) (w_self w) amount)
      ''BZZ_TRANSFER_FAIL'' s = Inr (u1, s1)"
    and appr: "require_call (x_approve (metered X) (w_postage w) amount) ''BZZ_APPROVE_FAIL'' s1 = Inr (u2, s2)"
    and ext: "snd x = snd (st_ext s2)"
    and rec: "recordVolume (metered X) c b signer depth ttl ((set_registry r s2)\<lparr>st_ext := x\<rparr>) = Inr (v, s4)"
    and s': "st_ext s' = st_ext s4"
    using assms
    by (auto simp: createVolume_def Let_def metered_def split: if_splits sum.splits option.splits)
  have "pulled s' = pulled s @ [(a_payer ?acct, w_self w, amount)]"
    using require_pull [of X] pull appr ext s' recordVolume_accounts(8) [OF rec]
    by (auto simp: pulled_def)
  moreover have "funding (st_registry s) (msg_sender c) = Some (a_payer ?acct)"
    using act by (simp add: funding_def)
  ultimately show ?thesis by (intro pulls_one [where owner = "msg_sender c"]) simp_all
qed

lemma importVolume_pulls:
  assumes "importVolume (metered X) w c b ttl s = Inr (v, s')"
  shows "pulls_from w (st_registry s) (\<lambda>owner. owner = msg_sender c) s s'"
proof -
  obtain s1 oc where reg: "registerVolume (metered X) c b ttl s = Inr (v, s1)"
    and tr: "triggerOne (metered X) w c v s1 = Inr (oc, s')"
    using assms by (auto simp: importVolume_def split: sum.splits if_splits)
  note iss = registerVolume_issues [OF reg]
  have "funding (st_registry s) = funding (st_registry s1)"
    using issuesD(1) [OF iss] by (simp add: consent_of_def)
  then have "pulls_from w (st_registry s) (\<lambda>owner. owner = msg_sender c) s1 s'"
    using issuesD(6) [OF iss] by (intro pulls_mono [OF triggerOne_pulls [OF tr]]) simp_all
  moreover have "pulled s1 = pulled s"
    using reg by (auto simp: pulled_def recordVolume_accounts(8) elim: registerVolume_records)
  ultimately show ?thesis using pulls_trans pulls_none by blast
qed

lemma run_call_pulls:
  assumes "run_call (metered X) w c op s = Inr s'"
  shows "pulls_from w (st_registry s) (billed (st_registry s) c op) s s'"
proof (cases op)
  case (CallCreate signer d bd ttl imm)
  then have "billed (st_registry s) c op = (\<lambda>owner. owner = msg_sender c)" by (simp add: fun_eq_iff)
  then show ?thesis using assms CallCreate createVolume_pulls [of X w c] by (auto simp: map_sum_Inr)
next
  case (CallImport b ttl)
  then have "billed (st_registry s) c op = (\<lambda>owner. owner = msg_sender c)" by (simp add: fun_eq_iff)
  then show ?thesis using assms CallImport importVolume_pulls [of X w c] by (auto simp: map_sum_Inr)
next
  case (CallRegister b ttl)
  then have "pulled s' = pulled s" using assms
    by (auto simp: map_sum_Inr pulled_def recordVolume_accounts(8) elim!: registerVolume_records)
  then show ?thesis by (rule pulls_none)
next
  case (CallTrigger v)
  then obtain oc where "triggerOne (metered X) w c v s = Inr (oc, s')"
    using assms by (auto simp: map_sum_Inr triggerVolume_def split: sum.splits)
  then show ?thesis using triggerOne_pulls CallTrigger by blast
next
  case (CallTriggerMany vs)
  then show ?thesis using assms triggerVolumes_pulls [of X w c vs s] by (auto simp: map_sum_Inr)
next
  case (CallDelete v)
  then have "pulled s' = pulled s" using assms
    by (auto simp: map_sum_Inr deleteVolume_def Let_def retire_pulls split: if_splits)
  then show ?thesis by (rule pulls_none)
next
  case (CallReap v)
  then have "pulled s' = pulled s" using assms
    by (auto simp: map_sum_Inr reap_def Let_def retire_pulls split: if_splits)
  then show ?thesis by (rule pulls_none)
qed (use account_call_frame [OF assms] in \<open>auto simp: pulled_def intro!: pulls_none\<close>)

section \<open>A short life\<close>

text \<open>Owner 5 designates payer 6, who confirms; the owner registers batch 9, which gives the volume of its nonce 0.\<close>

definition owner_call :: call_context where
  "owner_call = \<lparr>msg_sender = 5, block_timestamp = 1000\<rparr>"

definition payer_call :: call_context where
  "payer_call = \<lparr>msg_sender = 6, block_timestamp = 1000\<rparr>"

definition sample_history :: history where
  "sample_history = [(owner_call, Designate 6), (payer_call, Confirm 5), (owner_call, CallRegister 9 0)]"

definition sample_id :: bytes32 where
  "sample_id = 5 * 2 ^ 64"

definition sample_volume :: volume where
  "sample_volume =
     \<lparr>v_owner = 5, v_chunkSigner = 7, v_batchId = 9, v_createdAt = 1000, v_ttlExpiry = 0, v_depth = 20,
      v_status = StatusActive, v_activeIndex = 0\<rparr>"

definition grown_registry :: registry where
  "grown_registry =
     \<lparr>volumes = (\<lambda>_. zero_volume)(sample_id := sample_volume), designated = (\<lambda>_. 0)(5 := 6),
      accounts = (\<lambda>_. \<lparr>a_payer = 0, a_active = False, a_nonce = 0\<rparr>)(5 :=
        \<lparr>a_payer = 6, a_active = True, a_nonce = 1\<rparr>),
      activeVolumeIds = [sample_id], nextNonce = 0\<rparr>"

definition grown_chain :: "(unit \<times> charge list) chain_state" where
  "grown_chain = \<lparr>st_registry = grown_registry, st_ext = ((), []),
     st_events = [LogPayerDesignated 5 6, LogAccountActivated 5 6, LogVolumeImported sample_id 5 9 7 20 0 150]\<rparr>"

lemma sample_life: "life (metered sample_externals) sample_wiring sample_history grown_chain"
proof -
  let ?X = "metered sample_externals" and ?acct = "\<lparr>a_payer = 0, a_active = False, a_nonce = 0\<rparr>"
  let ?r1 = "empty_registry\<lparr>designated := (\<lambda>_. 0)(5 := 6)\<rparr>"
  let ?r2 = "?r1\<lparr>accounts := (\<lambda>_. ?acct)(5 := \<lparr>a_payer = 6, a_active = True, a_nonce = 0\<rparr>)\<rparr>"
  let ?s0 = "\<lparr>st_registry = empty_registry, st_ext = ((), []), st_events = []\<rparr>"
  let ?s1 = "\<lparr>st_registry = ?r1, st_ext = ((), []), st_events = [LogPayerDesignated 5 6]\<rparr>"
  let ?s2 = "\<lparr>st_registry = ?r2, st_ext = ((), []),
      st_events = [LogPayerDesignated 5 6, LogAccountActivated 5 6]\<rparr>"
  have "deploy ?X 1 2 3 20 False ((), []) = Inr (sample_wiring, ?s0)"
    by (simp add: deploy_def metered_def sample_externals_def sample_wiring_def)
  then have l0: "life ?X sample_wiring [] ?s0" by (rule life.deployed)
  have l1: "life ?X sample_wiring ([] @ [(owner_call, Designate 6)]) ?s1"
    by (rule life.called [OF l0])
      (simp_all add: empty_registry_def designateFundingWallet_def owner_call_def Let_def emit_def set_registry_def)
  have l2: "life ?X sample_wiring (([] @ [(owner_call, Designate 6)]) @ [(payer_call, Confirm 5)]) ?s2"
    by (rule life.called [OF l1])
      (simp_all add: empty_registry_def confirmAuth_def payer_call_def Let_def emit_def set_registry_def)
  have "life ?X sample_wiring ((([] @ [(owner_call, Designate 6)]) @ [(payer_call, Confirm 5)]) @
      [(owner_call, CallRegister 9 0)]) grown_chain"
    by (rule life.called [OF l2])
      (simp_all add: empty_registry_def registerVolume_def recordVolume_def owner_call_def Let_def emit_def
        set_registry_def metered_def sample_externals_def zero_volume_def grown_chain_def grown_registry_def
        sample_volume_def sample_id_def)
  then show ?thesis by (simp add: sample_history_def)
qed

section \<open>Properties\<close>

text \<open>
  C10: in every state the contract reaches from its deployment, by any calls of anyone and whatever
  happens outside it, as long as fewer than \<open>2 ^ 32\<close> volumes are active before each call (the
  contract casts a position to \<open>uint32\<close>), the active array holds exactly the Active volumes, each once and at the
  position its record says. Swap-and-pop and every creating call keep it.
\<close>

theorem registry_active_set:
  assumes "reachable X w s"
  shows "distinct (activeVolumeIds (st_registry s)) \<and>
    (\<forall>v. (v_status (volumes (st_registry s) v) = StatusActive) = (v \<in> set (activeVolumeIds (st_registry s)))) \<and>
    map (\<lambda>v. unat (v_activeIndex (volumes (st_registry s) v))) (activeVolumeIds (st_registry s)) =
      [0..<length (activeVolumeIds (st_registry s))]"
  using reachable_active_set [OF assms] by (auto simp: active_set_def intro!: nth_equalityI)

theorem registry_active_set_witness:
  "distinct (activeVolumeIds grown_registry) \<and>
   (\<forall>v. (v_status (volumes grown_registry v) = StatusActive) = (v \<in> set (activeVolumeIds grown_registry))) \<and>
   map (\<lambda>v. unat (v_activeIndex (volumes grown_registry v))) (activeVolumeIds grown_registry) =
     [0..<length (activeVolumeIds grown_registry)]"
  using registry_active_set [OF life_reachable [OF sample_life]] by (simp add: grown_chain_def)

text \<open>
  C5: money is pulled from consenting payers only. Over any life of the registry, every \<open>transferFrom\<close> that
  a call makes goes into the registry itself, on behalf of the owner the call is made by or of an Active
  volume it triggers, and is paid by the very payer whom this owner designated, who confirmed the owner,
  and whose confirmation neither of them has revoked since, as the history of calls alone tells.
\<close>

theorem charges_only_with_consent:
  assumes "life (metered X) w h s" and "run_call (metered X) w c op s = Inr s'"
  shows "\<exists>charges. pulled s' = pulled s @ charges \<and>
    list_all (\<lambda>(payer, dest, amount). dest = w_self w \<and>
      (\<exists>owner. billed (st_registry s) c op owner \<and> consented h owner = Some payer)) charges"
proof -
  have "funding (st_registry s) = consented h"
    using life_consent [OF assms(1)] by (simp add: consent_of_def consented_def prod_eq_iff)
  then show ?thesis using run_call_pulls [OF assms(2)] by (simp add: pulls_from_def)
qed

theorem charges_only_with_consent_witness:
  "\<exists>s' charges. run_call (metered sample_externals) sample_wiring payer_call (CallTrigger sample_id) grown_chain = Inr s' \<and>
     pulled s' = [(6, 1, 100 * 2 ^ 20)] \<and> pulled s' = pulled grown_chain @ charges \<and>
     list_all (\<lambda>(payer, dest, amount). dest = w_self sample_wiring \<and>
       (\<exists>owner. billed (st_registry grown_chain) payer_call (CallTrigger sample_id) owner \<and>
          consented sample_history owner = Some payer)) charges"
proof -
  obtain s' where r: "run_call (metered sample_externals) sample_wiring payer_call (CallTrigger sample_id) grown_chain = Inr s'"
    "pulled s' = [(6, 1, 100 * 2 ^ 20)]"
    by (simp add: triggerVolume_def triggerOne_def grown_chain_def grown_registry_def sample_volume_def
        sample_wiring_def payer_call_def metered_def sample_externals_def expired_def canPull_def Let_def
        pay_topup_def require_call_def checked_add_def emit_def pulled_def)
  from charges_only_with_consent [OF sample_life r(1)] r show ?thesis by blast
qed

text \<open>
  C12: volume ids are \<open>keccak256(owner, nonce)\<close> for the nonces in turn, so the assertion against a collision
  is never hit: with a hash that does not collide, and before an owner's \<open>2 ^ 64\<close> calls are used up, the
  next creating call of any owner records its volume under the id that the number of the owner's earlier
  creating calls determines, and the owner's nonce is one more than that.
\<close>

theorem creating_never_collides:
  assumes "life X w h s" and "inj (\<lambda>(owner, n). x_hash_volume X owner n)"
    and "creations h (msg_sender c) < 2 ^ 64"
  shows "\<exists>s'. recordVolume X c batchId signer depth ttl s =
      Inr (x_hash_volume X (msg_sender c) (of_nat (creations h (msg_sender c))), s') \<and>
    a_nonce (accounts (st_registry s') (msg_sender c)) = of_nat (Suc (creations h (msg_sender c)))"
proof -
  let ?k = "creations h (msg_sender c)"
  let ?v = "x_hash_volume X (msg_sender c) (of_nat ?k)"
  have ids: "ids_issued X h (st_registry s)" by (rule life_ids [OF assms(1)])
  then have nonce: "a_nonce (accounts (st_registry s) (msg_sender c)) = of_nat ?k"
    by (simp add: ids_issued_def)
  have fresh: "v_status (volumes (st_registry s) ?v) = StatusNone"
  proof (rule ccontr)
    let ?o = "v_owner (volumes (st_registry s) ?v)"
    assume "v_status (volumes (st_registry s) ?v) \<noteq> StatusNone"
    then obtain n where n: "n < creations h ?o" "?v = x_hash_volume X ?o (of_nat n)"
      using ids unfolding ids_issued_def by blast
    then have "?o = msg_sender c" "(of_nat n :: uint64) = of_nat ?k"
      using inj_eq [OF assms(2), of "(msg_sender c, of_nat ?k)" "(?o, of_nat n)"] by auto
    then have "n < ?k" "unat (of_nat n :: uint64) = unat (of_nat ?k :: uint64)" using n(1) by simp_all
    then show False using assms(3) by (simp add: unsigned_of_nat take_bit_nat_eq_self)
  qed
  show ?thesis using fresh nonce by (simp add: recordVolume_def Let_def)
qed

lemma sample_hash_inj: "inj (\<lambda>(owner, n). x_hash_volume (metered sample_externals) owner n)"
proof (rule injI)
  have packed: "unat (x_hash_volume (metered sample_externals) owner n) = unat owner * 2 ^ 64 + unat n" for owner n
  proof -
    have "unat owner < 2 ^ 160" "unat n < 2 ^ 64"
      using unsigned_less [of owner] unsigned_less [of n] by simp_all
    then have "unat owner * 2 ^ 64 + unat n < 2 ^ 256" by simp
    then show ?thesis
      by (simp add: metered_def sample_externals_def unat_word_ariths unsigned_ucast_eq take_bit_nat_eq_self)
  qed
  fix p q :: "sol_address \<times> uint64"
  assume "(case p of (owner, n) \<Rightarrow> x_hash_volume (metered sample_externals) owner n) =
    (case q of (owner, n) \<Rightarrow> x_hash_volume (metered sample_externals) owner n)"
  then have eq: "unat (fst p) * 2 ^ 64 + unat (snd p) = unat (fst q) * 2 ^ 64 + unat (snd q)"
    by (metis (no_types, lifting) packed case_prod_beta)
  have "unat (snd p) < 2 ^ 64" "unat (snd q) < 2 ^ 64"
    using unsigned_less [of "snd p"] unsigned_less [of "snd q"] by simp_all
  then have "unat (fst p) = unat (fst q)" "unat (snd p) = unat (snd q)"
    using arg_cong [OF eq, of "\<lambda>x. x div 2 ^ 64"] arg_cong [OF eq, of "\<lambda>x. x mod 2 ^ 64"]
    by (simp_all del: power_numeral)
  then show "p = q" by (simp add: prod_eq_iff unsigned_word_eqI)
qed

theorem creating_never_collides_witness:
  "\<exists>s'. recordVolume (metered sample_externals) owner_call 9 7 20 0 grown_chain = Inr (5 * 2 ^ 64 + 1, s') \<and>
    a_nonce (accounts (st_registry s') 5) = 2"
proof -
  have k: "creations sample_history (msg_sender owner_call) = 1"
    by (simp add: creations_def sample_history_def owner_call_def payer_call_def)
  have id: "x_hash_volume (metered sample_externals) (msg_sender owner_call) (of_nat 1) = 5 * 2 ^ 64 + 1"
    by (simp add: metered_def sample_externals_def owner_call_def)
  have me: "msg_sender owner_call = 5" by (simp add: owner_call_def)
  show ?thesis
    using creating_never_collides [OF sample_life sample_hash_inj, of owner_call 9 7 20 0]
    unfolding k id unfolding me by simp
qed

end
