(* ===== verification/RegistryDuties.thy ===== *)
theory RegistryDuties
  imports RegistryLife
begin

text \<open>
  What the registry owes its users beyond its decision table (\<open>contracts/src/VolumeRegistry.sol\<close>): triggers
  in one block pay for a batch once, whoever sends them and in whatever order, which is what makes
  keepers safe to repeat and to run side by side; an import that returns leaves a funded volume; and a
  volume is retired for a cause only. PostageStamp is described by what it does to a batch's balance.
\<close>

section \<open>Triggers in turn\<close>

text \<open>Triggers one after the other, with what the keeper should say of each.\<close>

fun trigger_run ::
  "'x externals \<Rightarrow> wiring \<Rightarrow> (call_context \<times> bytes32) list \<Rightarrow> ('x, volume_summary list) sol" where
  "trigger_run X wr [] s = Inr ([], s)"
| "trigger_run X wr ((c, v) # calls) s =
     (case triggerOne X wr c v s of
        Inl e \<Rightarrow> Inl e
      | Inr (_, s1) \<Rightarrow>
          (case trigger_run X wr calls s1 of
             Inl e \<Rightarrow> Inl e
           | Inr (said, s2) \<Rightarrow>
               Inr (verdict_summary (volumes (st_registry s) v) (decide X wr c v s) # said, s2)))"

lemma trigger_run_effect:
  "active_set (st_registry s) \<Longrightarrow> trigger_run X w calls s = Inr (said, s') \<Longrightarrow>
   keeps (st_registry s) (st_registry s') \<and> (\<exists>es. st_events s' = st_events s @ es)"
proof (induction calls arbitrary: s said)
  case Nil
  then show ?case by (simp add: keeps_refl)
next
  case (Cons call calls)
  obtain c v oc s1 said1 where one: "triggerOne X w c v s = Inr (oc, s1)"
    and run: "trigger_run X w calls s1 = Inr (said1, s')"
    using Cons.prems(2) by (cases call) (auto split: sum.splits)
  have k: "keeps (st_registry s) (st_registry s1)" and es: "\<exists>es. st_events s1 = st_events s @ es"
    using triggerOne_effect [OF Cons.prems(1) one] by blast+
  have "active_set (st_registry s1)" using k by (simp add: keeps_def)
  from Cons.IH [OF this run] show ?case using es keeps_trans [OF k] by fastforce
qed

section \<open>PostageStamp keeps its books\<close>

text \<open>
  The token's calls leave PostageStamp alone, and a topup adds to its batch's balance and to nothing else.
\<close>

definition postage_kept :: "'x externals \<Rightarrow> 'x \<Rightarrow> 'x \<Rightarrow> bool" where
  "postage_kept X x x' \<longleftrightarrow>
     (\<forall>b. x_batches X b x' = x_batches X b x) \<and> x_lastPrice X x' = x_lastPrice X x \<and>
     x_currentTotalOutPayment X x' = x_currentTotalOutPayment X x"

definition postage_added :: "'x externals \<Rightarrow> bytes32 \<Rightarrow> uint256 \<Rightarrow> 'x \<Rightarrow> 'x \<Rightarrow> bool" where
  "postage_added X b d x x' \<longleftrightarrow>
     (\<forall>u. x_batches X u x' =
        (x_batches X u x)\<lparr>b_normalisedBalance := b_normalisedBalance (x_batches X u x) + (if u = b then d else 0)\<rparr>) \<and>
     x_lastPrice X x' = x_lastPrice X x \<and>
     x_currentTotalOutPayment X x' = x_currentTotalOutPayment X x"

definition postage_books :: "'x externals \<Rightarrow> bool" where
  "postage_books X \<longleftrightarrow>
     (\<forall>a b n x ok x'. x_transferFrom X a b n x = Some (ok, x') \<longrightarrow> postage_kept X x x') \<and>
     (\<forall>a n x ok x'. x_approve X a n x = Some (ok, x') \<longrightarrow> postage_kept X x x') \<and>
     (\<forall>b d x x'. x_topUp X b d x = Some x' \<longrightarrow> postage_added X b d x x')"

lemma require_kept:
  "(\<And>x ok x'. f x = Some (ok, x') \<Longrightarrow> postage_kept X x x') \<Longrightarrow> require_call f m s = Inr (u, s') \<Longrightarrow>
   postage_kept X (st_ext s) (st_ext s')"
  by (auto simp: require_call_def split: option.splits prod.splits if_splits)

lemma pay_topup_books:
  assumes books: "postage_books X"
    and run: "pay_topup X w v b payer amount deficit bal s = Inr (oc, s')"
  shows "postage_added X b deficit (st_ext s) (st_ext s')"
proof -
  obtain s1 s2 u1 u2 x where
    pull: "require_call (x_transferFrom X payer (w_self w) amount) ''BZZ_TRANSFER_FAIL'' s = Inr (u1, s1)"
    and appr: "require_call (x_approve X (w_postage w) amount) ''BZZ_APPROVE_FAIL'' s1 = Inr (u2, s2)"
    and top: "x_topUp X b deficit (st_ext s2) = Some x" and s': "st_ext s' = x"
    using run by (auto simp: pay_topup_def split: sum.splits option.splits prod.splits)
  have "postage_kept X (st_ext s) (st_ext s1)"
    by (rule require_kept [OF _ pull]) (use books in \<open>auto simp: postage_books_def\<close>)
  moreover have "postage_kept X (st_ext s1) (st_ext s2)"
    by (rule require_kept [OF _ appr]) (use books in \<open>auto simp: postage_books_def\<close>)
  moreover have "postage_added X b deficit (st_ext s2) x" using books top by (simp add: postage_books_def)
  ultimately show ?thesis by (simp add: postage_added_def postage_kept_def s')
qed

text \<open>A batch at its runway. Nothing is paid for it, and a payment brings one there.\<close>

definition funded :: "'x externals \<Rightarrow> wiring \<Rightarrow> bytes32 \<Rightarrow> 'x \<Rightarrow> bool" where
  "funded X w b x \<longleftrightarrow>
     x_currentTotalOutPayment X x < b_normalisedBalance (x_batches X b x) \<and>
     runway X w x \<le> b_normalisedBalance (x_batches X b x) - x_currentTotalOutPayment X x"

lemma funded_unpaid:
  "funded X w (v_batchId (volumes (st_registry s) v)) (st_ext s) \<Longrightarrow> decide X w c v s \<noteq> Pay d"
  using decide_PayD(3,4) [of X w c v s d]
  by (auto simp: funded_def deficit_of_def runway_def Let_def)

lemma topup_funds:
  assumes books: "postage_books X" and fits: "target_fits X w (st_ext s)"
    and pay: "decide X w c v s = Pay d" and run: "triggerOne X w c v s = Inr (oc, s')"
  shows "postage_added X (v_batchId (volumes (st_registry s) v)) d (st_ext s) (st_ext s')"
    and "funded X w (v_batchId (volumes (st_registry s) v)) (st_ext s')"
proof -
  let ?b = "v_batchId (volumes (st_registry s) v)" and ?o = "x_currentTotalOutPayment X (st_ext s)"
  let ?t = "runway X w (st_ext s)"
  show added: "postage_added X ?b d (st_ext s) (st_ext s')"
    using run pay by (auto simp: triggerOne_decides Let_def dest!: pay_topup_books [OF books])
  have bal: "b_normalisedBalance (x_batches X ?b (st_ext s')) = ?o + ?t"
    using added deficit_exact(2) [OF pay] by (simp add: postage_added_def batch_of_def)
  have same: "runway X w (st_ext s') = ?t" "x_currentTotalOutPayment X (st_ext s') = ?o"
    using added by (simp_all add: postage_added_def runway_def)
  have "?t \<noteq> 0" using decide_PayD(3,4) [OF pay] by (auto simp: deficit_of_def runway_def Let_def split: if_splits)
  then have "?o < ?o + ?t" using target_sum(2) [OF fits pay] by (simp add: word_less_nat_alt unat_gt_0)
  then show "funded X w ?b (st_ext s')" by (simp add: funded_def bal same)
qed

lemma trigger_ext:
  assumes "\<And>d. decide X w c v s \<noteq> Pay d" "triggerOne X w c v s = Inr (oc, s')"
  shows "st_ext s' = st_ext s"
proof (cases "decide X w c v s")
  case (Retire x)
  then show ?thesis using assms(2)
    by (auto simp: triggerOne_decides retired_with_def retire_def Let_def split: sum.splits if_splits prod.splits)
qed (use assms in \<open>auto simp: triggerOne_decides\<close>)

section \<open>One payment per batch\<close>

text \<open>The volumes that events say were topped up.\<close>

fun topped_up :: "sol_event \<Rightarrow> bytes32 option" where
  "topped_up (LogToppedup v _ _) = Some v"
| "topped_up _ = None"

lemma trigger_topped_up:
  assumes "active_set (st_registry s)" "triggerOne X w c v s = Inr (oc, s')" "st_events s' = st_events s @ es"
  shows "List.map_filter topped_up es = (case decide X w c v s of Pay d \<Rightarrow> [v] | _ \<Rightarrow> [])"
proof (cases "decide X w c v s")
  case (Pay d)
  then show ?thesis using assms(2,3)
    by (auto simp: triggerOne_decides Let_def map_filter_simps dest!: pay_topup_frame)
next
  case (Retire x)
  obtain es' where es': "st_events s' = st_events s @ es'" "outcome_logged v oc es'"
    using triggerOne_effect [OF assms(1,2)] by blast
  have "oc = OutcomeRetired" using Retire assms(2)
    by (auto simp: triggerOne_decides retired_with_def split: sum.splits)
  then show ?thesis using es' assms(3) Retire by (auto simp: map_filter_simps)
qed (use assms(2,3) in \<open>auto simp: triggerOne_decides map_filter_simps\<close>)

lemma trigger_run_pays_once:
  assumes "postage_books X" "target_fits X w (st_ext s)" "active_set (st_registry s)"
    and "trigger_run X w calls s = Inr (said, s')" "st_events s' = st_events s @ es"
  shows "distinct (map (\<lambda>v. v_batchId (volumes (st_registry s) v)) (List.map_filter topped_up es)) \<and>
    (\<forall>v \<in> set (List.map_filter topped_up es).
       v_status (volumes (st_registry s) v) = StatusActive \<and>
       \<not> funded X w (v_batchId (volumes (st_registry s) v)) (st_ext s))"
  using assms(2-)
proof (induction calls arbitrary: s said es)
  case Nil
  then show ?case by simp
next
  case (Cons call calls)
  obtain c v where call: "call = (c, v)" by (cases call)
  obtain oc s1 said1 where one: "triggerOne X w c v s = Inr (oc, s1)"
    and run: "trigger_run X w calls s1 = Inr (said1, s')"
    using Cons.prems(3) by (auto simp: call split: sum.splits)
  obtain es1 where es1: "st_events s1 = st_events s @ es1" and k: "keeps (st_registry s) (st_registry s1)"
    using triggerOne_effect [OF Cons.prems(2) one] by blast
  have inv1: "active_set (st_registry s1)" using k by (simp add: keeps_def)
  obtain es2 where es2: "st_events s' = st_events s1 @ es2"
    using trigger_run_effect [OF inv1 run] by blast
  have es: "es = es1 @ es2" using Cons.prems(4) es1 es2 by simp
  have status: "v_status (volumes (st_registry s) u) = StatusActive"
    if "v_status (volumes (st_registry s1) u) = StatusActive" for u
    using triggerOne_accounts [OF one] that by (simp add: accounts_kept_def)
  have terms: "v_batchId (volumes (st_registry s1) u) = v_batchId (volumes (st_registry s) u)"
    if "v_status (volumes (st_registry s1) u) = StatusActive" for u
    using k status [OF that] by (auto simp: keeps_def evolves_def terms_of_def)
  let ?later = "List.map_filter topped_up es2"
  let ?batch = "\<lambda>u. v_batchId (volumes (st_registry s) u)"
  have split: "List.map_filter topped_up es = List.map_filter topped_up es1 @ ?later"
    unfolding es by (simp add: List.map_filter_def)
  show ?case
  proof (cases "\<exists>d. decide X w c v s = Pay d")
    case False
    then have none: "List.map_filter topped_up es1 = []"
      using trigger_topped_up [OF Cons.prems(2) one es1] by (cases "decide X w c v s") auto
    have ext: "st_ext s1 = st_ext s" using trigger_ext [OF _ one] False by blast
    note ih = Cons.IH [OF Cons.prems(1) [folded ext] inv1 run es2]
    have "map ?batch ?later = map (\<lambda>u. v_batchId (volumes (st_registry s1) u)) ?later"
      using ih terms by auto
    then have "distinct (map ?batch ?later)" using ih by argo
    moreover have "\<forall>u \<in> set ?later. v_status (volumes (st_registry s) u) = StatusActive \<and>
        \<not> funded X w (?batch u) (st_ext s1)"
      using ih status terms by fastforce
    ultimately show ?thesis unfolding split none by (simp add: ext)
  next
    case True
    then obtain d where pay: "decide X w c v s = Pay d" by blast
    let ?b = "v_batchId (volumes (st_registry s) v)"
    note fund = topup_funds [OF assms(1) Cons.prems(1) pay one]
    have fits1: "target_fits X w (st_ext s1)"
      using fund(1) Cons.prems(1) by (simp add: postage_added_def target_fits_def runway_def)
    note ih = Cons.IH [OF fits1 inv1 run es2]
    have unfunded: "\<not> funded X w b (st_ext s)" if "\<not> funded X w b (st_ext s1)" for b
      using that fund by (cases "b = ?b") (auto simp: funded_def postage_added_def runway_def)
    have first: "List.map_filter topped_up es1 = [v]"
      using trigger_topped_up [OF Cons.prems(2) one es1] pay by simp
    have "map ?batch ?later = map (\<lambda>u. v_batchId (volumes (st_registry s1) u)) ?later"
      using ih terms by auto
    then have "distinct (map ?batch ?later)" using ih by argo
    moreover have "\<forall>u \<in> set ?later. v_status (volumes (st_registry s) u) = StatusActive \<and>
        \<not> funded X w (?batch u) (st_ext s1)"
      using ih status terms by fastforce
    moreover have "\<not> funded X w ?b (st_ext s)" using funded_unpaid [of X w s v c d] pay by blast
    moreover have "?b \<notin> ?batch ` set ?later" using calculation(2) fund(2) by auto
    ultimately show ?thesis
      using decide_PayD(1) [OF pay] unfunded unfolding split first by simp
  qed
qed

section \<open>An import\<close>

lemma Nothing_funded:
  assumes "decide X w c v s = Nothing"
  shows "v_status (volumes (st_registry s) v) = StatusActive"
    and "funded X w (v_batchId (volumes (st_registry s) v)) (st_ext s)"
  using assms
  by (cases "v_status (volumes (st_registry s) v)";
      auto simp: decide_def decision_table_def Let_def funded_def deficit_of_zero runway_def split: if_splits)+

lemma registerVolume_terms:
  assumes "registerVolume X c b ttl s = Inr (v, s')"
  shows "v_status (volumes (st_registry s) v) = StatusNone"
    and "volumes (st_registry s') v = \<lparr>v_owner = msg_sender c,
      v_chunkSigner = b_owner (x_batches X b (st_ext s)), v_batchId = b,
      v_createdAt = ucast (block_timestamp c), v_ttlExpiry = ttl,
      v_depth = b_depth (x_batches X b (st_ext s)), v_status = StatusActive,
      v_activeIndex = of_nat (length (activeVolumeIds (st_registry s)))\<rparr>"
    and "a_active (accounts (st_registry s) (msg_sender c))" "st_ext s' = st_ext s"
  using assms by (auto simp: registerVolume_def recordVolume_def Let_def split: if_splits sum.splits)

lemma import_outcome:
  assumes "importVolume X w c b ttl s = Inr (v, s')"
  obtains s1 oc where "registerVolume X c b ttl s = Inr (v, s1)" "triggerOne X w c v s1 = Inr (oc, s')"
    "oc = OutcomeToppedUp \<or> oc = OutcomeNoDeficit"
  using assms by (auto simp: importVolume_def split: sum.splits if_splits)

text \<open>The outcome of a trigger tells its decision.\<close>

lemma outcome_decided:
  assumes "triggerOne X w c v s = Inr (oc, s')"
  shows "oc = OutcomeNoDeficit \<Longrightarrow> decide X w c v s = Nothing"
    and "oc = OutcomeToppedUp \<Longrightarrow> \<exists>d. decide X w c v s = Pay d"
  using assms
  by (cases "decide X w c v s";
      auto simp: triggerOne_decides retired_with_def Let_def dest!: pay_topup_frame split: sum.splits)+

section \<open>Causes of retirement\<close>

text \<open>What a trigger must have found to retire a volume.\<close>

fun retire_ground :: "'x externals \<Rightarrow> call_context \<Rightarrow> volume \<Rightarrow> 'x \<Rightarrow> retire_reason \<Rightarrow> bool" where
  "retire_ground X c v x BatchDied \<longleftrightarrow>
     b_owner (x_batches X (v_batchId v) x) = 0 \<or>
     b_normalisedBalance (x_batches X (v_batchId v) x) \<le> x_currentTotalOutPayment X x"
| "retire_ground X c v x BatchOwnerMismatch \<longleftrightarrow> b_owner (x_batches X (v_batchId v) x) \<noteq> v_chunkSigner v"
| "retire_ground X c v x DepthChanged \<longleftrightarrow> b_depth (x_batches X (v_batchId v) x) \<noteq> v_depth v"
| "retire_ground X c v x VolumeExpired \<longleftrightarrow> expired c v"
| "retire_ground X c v x OwnerDeleted \<longleftrightarrow> False"
| "retire_ground X c v x RetireNone \<longleftrightarrow> False"

lemma Retire_ground:
  "decide X w c v s = Retire x \<Longrightarrow> retire_ground X c (volumes (st_registry s) v) (st_ext s) x"
  by (cases "v_status (volumes (st_registry s) v)")
    (auto simp: decide_def decision_table_def Let_def split: if_splits)

lemma retire_ground_terms:
  "terms_of u = terms_of v \<Longrightarrow> retire_ground X c u x y = retire_ground X c v x y"
  by (cases y) (simp_all add: terms_of_def expired_def)

lemma triggerVolumes_events:
  "active_set (st_registry s) \<Longrightarrow> triggerVolumes X w c us s = Inr (u, s') \<Longrightarrow>
   \<exists>es. st_events s' = st_events s @ es"
proof (induction us arbitrary: s)
  case (Cons v us)
  then obtain oc s1 where one: "triggerOne X w c v s = Inr (oc, s1)"
    and rest: "triggerVolumes X w c us s1 = Inr (u, s')" by (auto split: sum.splits)
  then show ?case using Cons.IH [OF _ rest] triggerOne_effect [OF Cons.prems(1) one] by (fastforce simp: keeps_def)
qed simp

text \<open>Why a call retires a volume: its owner deletes it, it has expired, or a trigger finds a ground.\<close>

fun retire_cause ::
  "'x externals \<Rightarrow> call_context \<Rightarrow> registry_call \<Rightarrow> bytes32 \<Rightarrow> volume \<Rightarrow> 'x \<Rightarrow> retire_reason \<Rightarrow> bool" where
  "retire_cause X c (CallDelete u) v vol x y \<longleftrightarrow> u = v \<and> msg_sender c = v_owner vol \<and> y = OwnerDeleted"
| "retire_cause X c (CallReap u) v vol x y \<longleftrightarrow> u = v \<and> expired c vol \<and> y = VolumeExpired"
| "retire_cause X c (CallTrigger u) v vol x y \<longleftrightarrow> u = v \<and> retire_ground X c vol x y"
| "retire_cause X c (CallTriggerMany us) v vol x y \<longleftrightarrow> v \<in> set us \<and> (\<exists>x'. retire_ground X c vol x' y)"
| "retire_cause X c _ v vol x y \<longleftrightarrow> False"

text \<open>A call that takes a volume from Active to Retired.\<close>

definition retires :: "bytes32 \<Rightarrow> 'x chain_state \<Rightarrow> 'x chain_state \<Rightarrow> bool" where
  "retires v s s' \<longleftrightarrow> v_status (volumes (st_registry s) v) = StatusActive \<and>
     v_status (volumes (st_registry s') v) = StatusRetired"

lemma keeps_retires:
  assumes "keeps (st_registry s) (st_registry s')" "v_status (volumes (st_registry s) v) = StatusActive"
    and "v_status (volumes (st_registry s') v) \<noteq> StatusActive"
  shows "retires v s s'"
proof -
  have "v_status (volumes (st_registry s') v) \<in> {v_status (volumes (st_registry s) v), StatusRetired}"
    using assms(1,2) unfolding keeps_def evolves_def by force
  then show ?thesis using assms(2,3) by (auto simp: retires_def)
qed

definition logs_retired :: "bytes32 \<Rightarrow> retire_reason \<Rightarrow> 'x chain_state \<Rightarrow> 'x chain_state \<Rightarrow> bool" where
  "logs_retired v x s s' \<longleftrightarrow>
     (\<exists>es. st_events s' = st_events s @ es \<and> LogVolumeRetired v x \<in> set es)"

lemma retires_same: "st_registry s' = st_registry s \<Longrightarrow> \<not> retires v s s'"
  by (auto simp: retires_def)

lemma retire_retires:
  assumes "retire u x s = Inr (y, s')" "retires v s s'"
  shows "u = v \<and> logs_retired v x s s'"
  using assms by (auto simp: retire_def Let_def retires_def logs_retired_def split: if_splits)

lemma logs_retired_later:
  "logs_retired v x s1 s' \<Longrightarrow> \<exists>es. st_events s1 = st_events s @ es \<Longrightarrow> logs_retired v x s s'"
  "logs_retired v x s s1 \<Longrightarrow> \<exists>es. st_events s' = st_events s1 @ es \<Longrightarrow> logs_retired v x s s'"
  by (auto simp: logs_retired_def)

lemma trigger_retires:
  assumes "triggerOne X w c u s = Inr (oc, s')" "retires v s s'"
  shows "u = v \<and> (\<exists>x. logs_retired v x s s' \<and> retire_ground X c (volumes (st_registry s) v) (st_ext s) x)"
proof (cases "decide X w c u s")
  case (Retire x)
  then obtain y where "retire u x s = Inr (y, s')"
    using assms(1) by (auto simp: triggerOne_decides retired_with_def split: sum.splits)
  from retire_retires [OF this assms(2)] show ?thesis using Retire_ground [OF Retire] by blast
next
  case (Pay d)
  then have "st_registry s' = st_registry s"
    using assms(1) by (auto simp: triggerOne_decides Let_def dest: pay_topup_frame)
  then show ?thesis using assms(2) retires_same by blast
next
  case (Skip x)
  then have "st_registry s' = st_registry s" using assms(1) by (auto simp: triggerOne_decides)
  then show ?thesis using assms(2) retires_same by blast
next
  case Nothing
  then have "s' = s" using assms(1) by (simp add: triggerOne_decides)
  then show ?thesis using assms(2) retires_same by blast
qed

lemma batch_retires:
  assumes "active_set (st_registry s)" "triggerVolumes X w c us s = Inr (u, s')" "retires v s s'"
  shows "v \<in> set us \<and> (\<exists>x y. logs_retired v x s s' \<and> retire_ground X c (volumes (st_registry s) v) y x)"
  using assms
proof (induction us arbitrary: s)
  case Nil
  then show ?case using retires_same [of s' s v] by simp
next
  case (Cons w1 us)
  then obtain oc s1 where one: "triggerOne X w c w1 s = Inr (oc, s1)"
    and rest: "triggerVolumes X w c us s1 = Inr (u, s')" by (auto split: sum.splits)
  have k: "keeps (st_registry s) (st_registry s1)" and es: "\<exists>es. st_events s1 = st_events s @ es"
    using triggerOne_effect [OF Cons.prems(1) one] by blast+
  have inv1: "active_set (st_registry s1)" using k by (simp add: keeps_def)
  have more: "\<exists>es. st_events s' = st_events s1 @ es"
    using triggerVolumes_events [OF inv1 rest] .
  show ?case
  proof (cases "v_status (volumes (st_registry s1) v) = StatusActive")
    case True
    then have "retires v s1 s'" using Cons.prems(3) by (simp add: retires_def)
    from Cons.IH [OF inv1 rest this] obtain x y where v: "v \<in> set us" "logs_retired v x s1 s'"
      "retire_ground X c (volumes (st_registry s1) v) y x" by blast
    have "terms_of (volumes (st_registry s1) v) = terms_of (volumes (st_registry s) v)"
      using k Cons.prems(3) by (simp add: keeps_def evolves_def retires_def)
    then have ground: "retire_ground X c (volumes (st_registry s) v) y x"
      using v(3) retire_ground_terms [of "volumes (st_registry s1) v" "volumes (st_registry s) v" X c y x] by simp
    have "v \<in> set (w1 # us)" using v(1) by simp
    then show ?thesis using ground logs_retired_later(1) [OF v(2) es] by blast
  next
    case False
    then have "retires v s s1" using keeps_retires [OF k] Cons.prems(3) by (simp add: retires_def)
    from trigger_retires [OF one this] obtain x where "w1 = v" "logs_retired v x s s1"
      "retire_ground X c (volumes (st_registry s) v) (st_ext s) x" by blast
    moreover from this have "v \<in> set (w1 # us)" by simp
    ultimately show ?thesis using logs_retired_later(2) [OF _ more] by blast
  qed
qed

text \<open>What only adds a volume retires none.\<close>

lemma record_retires_none:
  "recordVolume X c b signer depth ttl s = Inr (u, s') \<Longrightarrow> \<not> retires v s s'"
  by (auto simp: recordVolume_def Let_def retires_def split: if_splits)

lemma creating_retires_none:
  "createVolume X w c signer depth bucket ttl imm s = Inr (u, s') \<Longrightarrow> \<not> retires v s s'"
  "registerVolume X c b ttl s = Inr (u, s') \<Longrightarrow> \<not> retires v s s'"
  "importVolume X w c b ttl s = Inr (u, s') \<Longrightarrow> \<not> retires v s s'"
proof -
  show create: "\<not> retires v s s'" if run: "createVolume X w c signer depth bucket ttl imm s = Inr (u, s')"
  proof -
    let ?r1 = "(st_registry s)\<lparr>nextNonce := nextNonce (st_registry s) + 1\<rparr>"
    obtain b x s2 s4 where rec: "recordVolume X c b signer depth ttl
        ((set_registry ?r1 s2)\<lparr>st_ext := x\<rparr>) = Inr (u, s4)" and s': "st_registry s' = st_registry s4"
      using run by (auto simp: createVolume_def Let_def split: if_splits sum.splits option.splits)
    show ?thesis using record_retires_none [OF rec, of v] by (simp add: retires_def s')
  qed
  show register: "\<not> retires v s s'" if run: "registerVolume X c b ttl s = Inr (u, s')" for s'
    by (rule registerVolume_records [OF run])
      (use record_retires_none [of X c b _ _ ttl s u _ v] in \<open>auto simp: retires_def\<close>)
  show "\<not> retires v s s'" if run: "importVolume X w c b ttl s = Inr (u, s')"
  proof (rule import_outcome [OF run])
    fix s1 oc
    assume reg: "registerVolume X c b ttl s = Inr (u, s1)" and tr: "triggerOne X w c u s1 = Inr (oc, s')"
      and "oc = OutcomeToppedUp \<or> oc = OutcomeNoDeficit"
    then have "st_registry s' = st_registry s1"
      using outcome_decided [OF tr] by (auto simp: triggerOne_decides Let_def dest!: pay_topup_frame)
    then show ?thesis using register [OF reg] by (simp add: retires_def)
  qed
qed

lemma call_retires:
  assumes inv: "active_set (st_registry s)" and run: "run_call X w c op s = Inr s'" and ret: "retires v s s'"
  shows "\<exists>x. logs_retired v x s s' \<and> retire_cause X c op v (volumes (st_registry s) v) (st_ext s) x"
proof (cases op)
  case (CallTrigger u)
  then obtain oc where "triggerOne X w c u s = Inr (oc, s')"
    using run by (auto simp: map_sum_Inr triggerVolume_def split: sum.splits)
  from trigger_retires [OF this ret] show ?thesis by (auto simp: CallTrigger)
next
  case (CallTriggerMany us)
  then obtain u where "triggerVolumes X w c us s = Inr (u, s')" using run by (auto simp: map_sum_Inr)
  from batch_retires [OF inv this ret] show ?thesis by (auto simp: CallTriggerMany)
next
  case (CallDelete u)
  then obtain y where "msg_sender c = v_owner (volumes (st_registry s) u)" "retire u OwnerDeleted s = Inr (y, s')"
    using run by (auto simp: map_sum_Inr deleteVolume_def Let_def split: if_splits)
  then show ?thesis using retire_retires [OF _ ret] by (auto simp: CallDelete)
next
  case (CallReap u)
  then have "s' = s \<or> (expired c (volumes (st_registry s) u) \<and> (\<exists>y. retire u VolumeExpired s = Inr (y, s')))"
    using run by (auto simp: map_sum_Inr reap_def Let_def split: if_splits)
  then show ?thesis using retire_retires [OF _ ret] ret by (auto simp: CallReap retires_def)
qed (use run ret in \<open>auto simp: map_sum_Inr dest: creating_retires_none
    simp: designateFundingWallet_def confirmAuth_def revoke_def Let_def retires_def split: if_splits\<close>)

section \<open>A token and a PostageStamp with state\<close>

text \<open>The sample chain with a ledger of batch balances outside.\<close>

definition ledger_externals :: "(bytes32 \<Rightarrow> uint256) externals" where
  "ledger_externals =
     \<lparr>x_batches = (\<lambda>b x. \<lparr>b_owner = 7, b_depth = 20, b_normalisedBalance = x b\<rparr>),
      x_currentTotalOutPayment = (\<lambda>_. 50), x_lastPrice = (\<lambda>_. 10),
      x_minimumValidityBlocks = (\<lambda>_. 5), x_minimumBucketDepth = (\<lambda>_. 16),
      x_createBatch = (\<lambda>_ _ _ _ n _ x. Some (n, x)), x_topUp = (\<lambda>b d x. Some (x(b := x b + d))),
      x_balanceOf = (\<lambda>_ _. 2 ^ 80), x_allowance = (\<lambda>_ _ _. 2 ^ 80),
      x_expirations = (\<lambda>_ _ _. 0), x_has_expirations = (\<lambda>_. False),
      x_transferFrom = (\<lambda>_ _ _ x. Some (True, x)), x_approve = (\<lambda>_ _ x. Some (True, x)),
      x_hash_volume = (\<lambda>a n. ucast a * 2 ^ 64 + ucast n), x_hash_batch = (\<lambda>_ n. n)\<rparr>"

definition ledger_chain :: "(bytes32 \<Rightarrow> uint256) chain_state" where
  "ledger_chain = \<lparr>st_registry = sample_registry, st_ext = (\<lambda>_. 150), st_events = []\<rparr>"

lemma ledger_books: "postage_books ledger_externals"
  by (simp add: postage_books_def postage_kept_def postage_added_def ledger_externals_def)

lemma ledger_fits: "target_fits ledger_externals sample_wiring x"
  by (simp add: target_fits_def runway_def ledger_externals_def sample_wiring_def)

lemma ledger_active: "active_set (st_registry ledger_chain)"
  using sample_active_set by (simp add: ledger_chain_def sample_chain_def)

text \<open>The sample volume is triggered: topped up by 100 a chunk.\<close>

definition ledger_after :: "(bytes32 \<Rightarrow> uint256) chain_state" where
  "ledger_after = \<lparr>st_registry = sample_registry, st_ext = (\<lambda>_. 150)(9 := 250),
     st_events = [LogToppedup 11 (100 * 2 ^ 20) 250]\<rparr>"

lemma ledger_first: "triggerOne ledger_externals sample_wiring c 11 ledger_chain = Inr (OutcomeToppedUp, ledger_after)"
  by (simp add: triggerOne_def ledger_chain_def ledger_after_def sample_registry_def ledger_externals_def
      sample_wiring_def expired_def canPull_def Let_def pay_topup_def require_call_def checked_add_def emit_def)

lemma ledger_second: "triggerOne ledger_externals sample_wiring c 11 ledger_after = Inr (OutcomeNoDeficit, ledger_after)"
  by (simp add: triggerOne_def ledger_after_def sample_registry_def ledger_externals_def
      sample_wiring_def expired_def Let_def)

section \<open>Properties\<close>

text \<open>
  C20: keepers may repeat themselves and run side by side. However the triggers of any senders are ordered
  within a block, the batches they pay for are all different, each was short of its runway before, and
  every volume paid for was Active: a second trigger of a volume, or of another volume over the same
  batch, pulls nothing.
\<close>

theorem one_topup_per_batch:
  assumes "postage_books X" "target_fits X w (st_ext s)" "active_set (st_registry s)"
    and "trigger_run X w calls s = Inr (said, s')" "st_events s' = st_events s @ es"
  shows "distinct (map (\<lambda>v. v_batchId (volumes (st_registry s) v)) (List.map_filter topped_up es)) \<and>
    list_all (\<lambda>v. v_status (volumes (st_registry s) v) = StatusActive \<and>
      \<not> funded X w (v_batchId (volumes (st_registry s) v)) (st_ext s)) (List.map_filter topped_up es)"
  using trigger_run_pays_once [OF assms] by (simp add: list_all_iff)

theorem one_topup_per_batch_witness:
  "\<exists>said s' es. trigger_run ledger_externals sample_wiring [(sample_call, 11), (payer_call, 11)] ledger_chain =
       Inr (said, s') \<and>
     st_events s' = st_events ledger_chain @ es \<and> List.map_filter topped_up es = [11] \<and>
     distinct (map (\<lambda>v. v_batchId (volumes (st_registry ledger_chain) v)) (List.map_filter topped_up es))"
proof -
  obtain said where run: "trigger_run ledger_externals sample_wiring [(sample_call, 11), (payer_call, 11)]
      ledger_chain = Inr (said, ledger_after)"
    by (simp add: ledger_first ledger_second)
  have es: "st_events ledger_after = st_events ledger_chain @ [LogToppedup 11 (100 * 2 ^ 20) 250]"
    by (simp add: ledger_after_def ledger_chain_def)
  from one_topup_per_batch [OF ledger_books ledger_fits ledger_active run es] run es show ?thesis
    by (intro exI [of _ said] exI [of _ ledger_after] exI [of _ "[LogToppedup 11 (100 * 2 ^ 20) 250]"])
      (simp add: map_filter_simps)
qed

text \<open>
  C21: a volume is retired for a cause only. Whatever call takes a volume from Active to Retired logs it
  with the reason, and the reason holds: it is the owner's own deletion, or the volume has expired, or
  a trigger of this very volume finds its batch gone or used up, owned by another, or of another depth.
  No creating call and no account call retires anything, and nobody but the owner can end a volume whose
  batch is alive and unchanged before it expires.
\<close>

theorem retirement_has_cause:
  assumes "active_set (st_registry s)" "run_call X w c op s = Inr s'"
    and "v_status (volumes (st_registry s) v) = StatusActive"
    and "v_status (volumes (st_registry s') v) \<noteq> StatusActive"
    and "length (activeVolumeIds (st_registry s)) < 2 ^ 32"
  shows "\<exists>x. logs_retired v x s s' \<and> retire_cause X c op v (volumes (st_registry s) v) (st_ext s) x"
proof -
  have "retires v s s'"
    using keeps_retires [OF run_call_keeps [OF assms(1,5,2)] assms(3,4)] .
  then show ?thesis by (rule call_retires [OF assms(1,2)])
qed

definition sample_deleted :: "(bytes32 \<Rightarrow> uint256) chain_state" where
  "sample_deleted = \<lparr>st_registry = sample_registry\<lparr>volumes := (\<lambda>_. zero_volume)(11 :=
       \<lparr>v_owner = 5, v_chunkSigner = 7, v_batchId = 9, v_createdAt = 0, v_ttlExpiry = 0, v_depth = 20,
        v_status = StatusRetired, v_activeIndex = 0\<rparr>), activeVolumeIds := []\<rparr>,
     st_ext = (\<lambda>_. 150), st_events = [LogVolumeRetired 11 OwnerDeleted]\<rparr>"

theorem retirement_has_cause_witness:
  "\<exists>x. logs_retired 11 x ledger_chain sample_deleted \<and>
    retire_cause ledger_externals sample_call (CallDelete 11) 11 (volumes sample_registry 11) (\<lambda>_. 150) x"
proof -
  have "run_call ledger_externals sample_wiring sample_call (CallDelete 11) ledger_chain = Inr sample_deleted"
    by (simp add: deleteVolume_def retire_def ledger_chain_def sample_registry_def sample_call_def Let_def
        emit_def set_registry_def sample_deleted_def)
  from retirement_has_cause [OF ledger_active this, of 11] show ?thesis
    by (simp add: ledger_chain_def sample_deleted_def sample_registry_def del: fun_upd_apply)
      (simp add: ledger_chain_def sample_deleted_def sample_registry_def)
qed

text \<open>
  An import is all or nothing. Where it returns, the id it returns is new and names an Active volume of
  the caller over the batch, with the batch's own signer and depth; the caller's account is active; and
  the batch stands at its runway, whether the call had to top it up or found it there. Everything else is
  an error, and then nothing has changed.
\<close>

lemma import_leaves_funded:
  assumes "postage_books X" "target_fits X w (st_ext s)" "importVolume X w c b ttl s = Inr (v, s')"
  shows "v_status (volumes (st_registry s) v) = StatusNone \<and>
    v_status (volumes (st_registry s') v) = StatusActive \<and>
    terms_of (volumes (st_registry s') v) = (msg_sender c, b_owner (x_batches X b (st_ext s)), b,
      ucast (block_timestamp c), ttl, b_depth (x_batches X b (st_ext s))) \<and>
    a_active (accounts (st_registry s) (msg_sender c)) \<and> funded X w b (st_ext s')"
proof (rule import_outcome [OF assms(3)])
  fix s1 oc
  assume reg: "registerVolume X c b ttl s = Inr (v, s1)" and tr: "triggerOne X w c v s1 = Inr (oc, s')"
    and oc: "oc = OutcomeToppedUp \<or> oc = OutcomeNoDeficit"
  note terms = registerVolume_terms [OF reg]
  have batch: "v_batchId (volumes (st_registry s1) v) = b" by (simp add: terms(2))
  consider (paid) d where "decide X w c v s1 = Pay d" | (none) "decide X w c v s1 = Nothing"
    using outcome_decided [OF tr] oc by blast
  then have "st_registry s' = st_registry s1 \<and> funded X w b (st_ext s')"
  proof cases
    case (paid d)
    have "target_fits X w (st_ext s1)" using assms(2) by (simp add: terms(4))
    then show ?thesis using topup_funds(2) [OF assms(1) _ paid tr] tr paid batch
      by (auto simp: triggerOne_decides Let_def dest!: pay_topup_frame)
  next
    case none
    then show ?thesis using tr Nothing_funded(2) [OF none] batch by (auto simp: triggerOne_decides)
  qed
  then show ?thesis using terms by (simp add: terms_of_def)
qed

theorem import_leaves_funded_witness:
  "\<exists>s'. importVolume ledger_externals sample_wiring owner_call 9 0 ledger_chain = Inr (5 * 2 ^ 64 + 1, s') \<and>
    st_events s' = [LogVolumeImported (5 * 2 ^ 64 + 1) 5 9 7 20 0 150, LogToppedup (5 * 2 ^ 64 + 1) (100 * 2 ^ 20) 250] \<and>
    funded ledger_externals sample_wiring 9 (st_ext s')"
proof -
  obtain s' where i: "importVolume ledger_externals sample_wiring owner_call 9 0 ledger_chain = Inr (5 * 2 ^ 64 + 1, s')"
    "st_events s' = [LogVolumeImported (5 * 2 ^ 64 + 1) 5 9 7 20 0 150, LogToppedup (5 * 2 ^ 64 + 1) (100 * 2 ^ 20) 250]"
    by (simp add: importVolume_def registerVolume_def recordVolume_def triggerOne_def ledger_chain_def
        sample_registry_def ledger_externals_def sample_wiring_def owner_call_def expired_def canPull_def Let_def
        pay_topup_def require_call_def checked_add_def emit_def set_registry_def zero_volume_def empty_registry_def)
  from import_leaves_funded [OF ledger_books ledger_fits i(1)] i show ?thesis by blast
qed

end
