(* ===== verification/KeeperOnChain.thy ===== *)
theory KeeperOnChain
  imports CycleReads CycleClock RegistryDuties
begin

text \<open>
  The keeper's cycle on a chain that runs the registry: \<open>runKeeperCycle.ts\<close> and \<open>trigger.ts\<close> above
  \<open>VolumeRegistry.sol\<close>. A node is described by what it relies on and promises: reads leave the chain alone,
  the transaction count is the next nonce, an estimate is the gas that a trigger needs, or an error where the
  trigger would revert, and a transaction with the right nonce and enough gas is mined, with a receipt that
  tells its events, or that it reverted and left the chain alone. The cycle's transactions are then the
  registry's triggers, one per volume, and its result says of each what it decided or that it failed.
\<close>

section \<open>A node\<close>

record ('w, 'x) node =
  nd_chain :: "'w \<Rightarrow> 'x chain_state"
  nd_nonce :: "'w \<Rightarrow> nat"
  nd_context :: "'w \<Rightarrow> call_context"
  nd_gas :: "'x chain_state \<Rightarrow> bytes32 \<Rightarrow> nat"

definition same_chain :: "('w, 'x) node \<Rightarrow> 'w \<Rightarrow> 'w \<Rightarrow> bool" where
  "same_chain N w w' \<longleftrightarrow> nd_chain N w' = nd_chain N w \<and> nd_nonce N w' = nd_nonce N w"

lemma same_chain_refl [simp]: "same_chain N w w"
  by (simp add: same_chain_def)

lemma same_chain_trans: "same_chain N w w1 \<Longrightarrow> same_chain N w1 w2 \<Longrightarrow> same_chain N w w2"
  by (simp add: same_chain_def)

text \<open>Reads of the enumeration and the clock move nothing.\<close>

definition reads_only :: "('w, 'x) node \<Rightarrow> 'w client \<Rightarrow> bool" where
  "reads_only N C \<longleftrightarrow>
     (\<forall>w. same_chain N w (snd (date_now C w)) \<and> same_chain N w (snd (get_block_number C w))) \<and>
     (\<forall>a b w. same_chain N w (snd (read_active_count C a b w))) \<and>
     (\<forall>a b cs w. same_chain N w (snd (multicall_active_pages C a b cs w))) \<and>
     (\<forall>a b vs w. same_chain N w (snd (multicall_volumes C a b vs w)))"

interpretation chain_reads: client_reads "same_chain N" "reads_only N"
  by unfold_locales (auto simp: reads_only_def same_chain_def)

text \<open>
  What a sender reads, and reads without failing but for the estimate of a trigger that would revert.
\<close>

definition serves_sender ::
  "('w, 'x) node \<Rightarrow> 'x externals \<Rightarrow> wiring \<Rightarrow> abi_text \<Rightarrow> address \<Rightarrow> 'w client \<Rightarrow> bool" where
  "serves_sender N X wr T reg C \<longleftrightarrow>
     (\<forall>w. \<exists>w'. get_transaction_count C (client_address C) w = (Inr (nd_nonce N w), w') \<and> same_chain N w w') \<and>
     (\<forall>w. \<exists>b w'. get_block C w = (Inr b, w') \<and> same_chain N w w') \<and>
     (\<forall>w. \<exists>t w'. estimate_priority_fee C w = (Inr t, w') \<and> same_chain N w w') \<and>
     (\<forall>w v. \<exists>x w'. estimate_trigger_gas C reg (text32 T v) w = (x, w') \<and> same_chain N w w' \<and>
        (case triggerOne X wr (nd_context N w) v (nd_chain N w) of
           Inl _ \<Rightarrow> is_Inl x
         | Inr _ \<Rightarrow> x = Inr (nd_gas N (nd_chain N w) v)))"

text \<open>What the node makes of a transaction, and what its receipt tells.\<close>

definition mines ::
  "('w, 'x) node \<Rightarrow> 'x externals \<Rightarrow> wiring \<Rightarrow> abi_text \<Rightarrow> viem \<Rightarrow> address \<Rightarrow> 'w client \<Rightarrow> bool" where
  "mines N X wr T V reg C \<longleftrightarrow>
     (\<forall>w tx v.
        tx_registry tx = reg \<longrightarrow> tx_volumeId tx = text32 T v \<longrightarrow> tx_nonce tx = Some (nd_nonce N w) \<longrightarrow>
        nd_gas N (nd_chain N w) v \<le> tx_gas tx \<longrightarrow>
        (\<exists>hash w1. write_contract C tx w = (Inr hash, w1) \<and> nd_nonce N w1 = Suc (nd_nonce N w) \<and>
           (\<forall>n t. \<exists>receipt w2. wait_for_receipt C hash n t w1 = (Inr receipt, w2) \<and> same_chain N w1 w2 \<and>
              (case triggerOne X wr (nd_context N w) v (nd_chain N w) of
                 Inl _ \<Rightarrow> nd_chain N w1 = nd_chain N w \<and> receipt_status receipt \<noteq> js ''success''
               | Inr (_, s') \<Rightarrow> nd_chain N w1 = s' \<and> receipt_status receipt = js ''success'' \<and>
                   (\<forall>es. st_events s' = st_events (nd_chain N w) @ es \<longrightarrow>
                      parseEventLogs V (from_registry reg (receipt_logs receipt)) =
                        List.map_filter (event_of T) es)))))"

definition honest_node ::
  "('w, 'x) node \<Rightarrow> 'x externals \<Rightarrow> wiring \<Rightarrow> abi_text \<Rightarrow> viem \<Rightarrow> address \<Rightarrow> 'w client \<Rightarrow> bool" where
  "honest_node N X wr T V reg C \<longleftrightarrow>
     reads_only N C \<and> serves_sender N X wr T reg C \<and> mines N X wr T V reg C"

section \<open>Triggers that may revert\<close>

text \<open>
  A trigger as a keeper sees it: what it decided, or that it reverted and changed nothing; and one after
  the other.
\<close>

definition trigger_try ::
  "'x externals \<Rightarrow> wiring \<Rightarrow> call_context \<times> bytes32 \<Rightarrow> 'x chain_state \<Rightarrow> volume_summary option \<times> 'x chain_state" where
  "trigger_try X wr = (\<lambda>(c, v) s.
     case triggerOne X wr c v s of
       Inl _ \<Rightarrow> (None, s)
     | Inr (_, s') \<Rightarrow> (Some (verdict_summary (volumes (st_registry s) v) (decide X wr c v s)), s'))"

fun trigger_tries ::
  "'x externals \<Rightarrow> wiring \<Rightarrow> (call_context \<times> bytes32) list \<Rightarrow> 'x chain_state \<Rightarrow>
     volume_summary option list \<times> 'x chain_state" where
  "trigger_tries X wr [] s = ([], s)"
| "trigger_tries X wr (call # calls) s =
     (let (out, s1) = trigger_try X wr call s; (outs, s2) = trigger_tries X wr calls s1 in (out # outs, s2))"

section \<open>What a result tells\<close>

text \<open>What a volume's result tells of it; of a trigger that reverted, that it failed.\<close>

definition tells_of :: "volume_summary \<Rightarrow> volume_result \<Rightarrow> bool" where
  "tells_of y v \<longleftrightarrow> vr_status v = StSuccess \<and> vr_outcome v = Some (summary_outcome y) \<and>
     vr_amount v = summary_amount y \<and> vr_reason v = summary_reason y"

definition reports_of :: "volume_summary option \<Rightarrow> volume_result \<Rightarrow> bool" where
  "reports_of out v = (case out of None \<Rightarrow> tx_failed v | Some y \<Rightarrow> tells_of y v)"

section \<open>One turn\<close>

definition in_step :: "('w, 'x) node \<Rightarrow> sending option \<Rightarrow> 'w \<Rightarrow> bool" where
  "in_step N sending w \<longleftrightarrow> (case sending of None \<Rightarrow> True | Some s \<Rightarrow> snd_nonce s = nd_nonce N w)"

lemma ensure_on_chain:
  assumes "serves_sender N X wr T reg C" "in_step N sending w"
  obtains s w1 where "ensure_sending C sending w = (Inr s, w1)" "snd_nonce s = nd_nonce N w"
    "same_chain N w w1"
proof (cases sending)
  case (Some s)
  then show ?thesis using assms(2) that [of s w] by (simp add: ensure_sending_def in_step_def)
next
  case None
  obtain w1 where a: "get_transaction_count C (client_address C) w = (Inr (nd_nonce N w), w1)"
    "same_chain N w w1" using assms(1) unfolding serves_sender_def by blast
  obtain b w2 where b: "get_block C w1 = (Inr b, w2)" "same_chain N w1 w2"
    using assms(1) unfolding serves_sender_def by blast
  obtain t w3 where c: "estimate_priority_fee C w2 = (Inr t, w3)" "same_chain N w2 w3"
    using assms(1) unfolding serves_sender_def by blast
  let ?s = "\<lparr>snd_nonce = nd_nonce N w, snd_maxFeePerGas = nullish (baseFeePerGas b) 0 * 2 + t,
    snd_maxPriorityFeePerGas = t\<rparr>"
  have "same_chain N w w3" using a(2) b(2) c(2) by (simp add: same_chain_def)
  moreover have "ensure_sending C sending w = (Inr ?s, w3)"
    using None a(1) b(1) c(1) by (simp add: ensure_sending_def readSending_def)
  ultimately show ?thesis using that [of ?s w3] by simp
qed

text \<open>Sending, from an estimate in hand; the node decides what comes of it.\<close>

lemma sent_on_chain:
  assumes mined: "mines N X wr T V (cp_registry P) C" and inv: "active_set (st_registry (nd_chain N w2))"
    and enough: "nd_gas N (nd_chain N w2) v \<le> tx_gas tx"
    and tx: "tx_registry tx = cp_registry P" "tx_volumeId tx = text32 T v" "tx_nonce tx = Some (nd_nonce N w2)"
  obtains hash w3 receipt w4 where "write_contract C tx w2 = (Inr hash, w3)"
    "wait_for_receipt C hash n t w3 = (Inr receipt, w4)" "nd_nonce N w4 = Suc (nd_nonce N w2)"
    "active_set (st_registry (nd_chain N w4))"
    "case trigger_try X wr (nd_context N w2, v) (nd_chain N w2) of
       (None, s) \<Rightarrow> receipt_status receipt \<noteq> js ''success'' \<and> nd_chain N w4 = s
     | (Some y, s) \<Rightarrow> receipt_status receipt = js ''success'' \<and> nd_chain N w4 = s \<and>
         summarizeVolume (decodeCycleEvents (parseEventLogs V) (receipt_logs receipt) (cp_registry P))
           (text32 T v) = y"
proof -
  let ?c = "nd_context N w2" and ?s = "nd_chain N w2"
  obtain hash w3 where w3: "write_contract C tx w2 = (Inr hash, w3)" "nd_nonce N w3 = Suc (nd_nonce N w2)"
    and rec: "\<forall>n t. \<exists>receipt w4. wait_for_receipt C hash n t w3 = (Inr receipt, w4) \<and> same_chain N w3 w4 \<and>
      (case triggerOne X wr ?c v ?s of
         Inl _ \<Rightarrow> nd_chain N w3 = ?s \<and> receipt_status receipt \<noteq> js ''success''
       | Inr (_, s') \<Rightarrow> nd_chain N w3 = s' \<and> receipt_status receipt = js ''success'' \<and>
           (\<forall>es. st_events s' = st_events ?s @ es \<longrightarrow>
              parseEventLogs V (from_registry (cp_registry P) (receipt_logs receipt)) =
                List.map_filter (event_of T) es))"
    using mined [unfolded mines_def, rule_format, OF tx(1,2,3) enough] by blast
  obtain receipt w4 where w4: "wait_for_receipt C hash n t w3 = (Inr receipt, w4)" "same_chain N w3 w4"
    and told: "case triggerOne X wr ?c v ?s of
         Inl _ \<Rightarrow> nd_chain N w3 = ?s \<and> receipt_status receipt \<noteq> js ''success''
       | Inr (_, s') \<Rightarrow> nd_chain N w3 = s' \<and> receipt_status receipt = js ''success'' \<and>
           (\<forall>es. st_events s' = st_events ?s @ es \<longrightarrow>
              parseEventLogs V (from_registry (cp_registry P) (receipt_logs receipt)) =
                List.map_filter (event_of T) es)"
    using rec by blast
  have moved: "nd_chain N w4 = nd_chain N w3" "nd_nonce N w4 = Suc (nd_nonce N w2)"
    using w4(2) w3(2) by (simp_all add: same_chain_def)
  show thesis
  proof (cases "triggerOne X wr ?c v ?s")
    case (Inl e)
    then show ?thesis using told inv moved
      by (intro that [OF w3(1) w4(1)]) (simp_all add: trigger_try_def)
  next
    case (Inr y)
    obtain oc s' where t: "triggerOne X wr ?c v ?s = Inr (oc, s')" using Inr by (cases y) simp
    obtain es where es: "st_events s' = st_events ?s @ es" using triggerOne_effect [OF inv t] by blast
    have "parseEventLogs V (from_registry (cp_registry P) (receipt_logs receipt)) =
        List.map_filter (event_of T) es" using told es by (simp add: t)
    note said = receipt_tells_verdict [where es = es and parseLogs = "parseEventLogs V" and reg = "cp_registry P"
        and logs = "receipt_logs receipt", OF inv t es this]
    have "active_set (st_registry s')" using triggerOne_effect [OF inv t] by (simp add: keeps_def)
    then show ?thesis using told moved said
      by (intro that [OF w3(1) w4(1)]) (simp_all add: trigger_try_def t)
  qed
qed

lemma turn_on_chain:
  assumes node: "honest_node N X wr T V (cp_registry P) C"
    and real: "\<not> nullish (cp_dryRun P) False" "100 \<le> nullish (cp_gasPercent P) 120"
    and inv: "active_set (st_registry (nd_chain N w))" and step: "in_step N sending w"
    and turn: "sendOne C V P (text32 T v) sending r w = (vr, sending', r', w')"
  shows "\<exists>u out. trigger_try X wr (nd_context N u, v) (nd_chain N w) = (out, nd_chain N w') \<and>
    reports_of out vr \<and> in_step N sending' w' \<and> active_set (st_registry (nd_chain N w'))"
proof -
  have served: "serves_sender N X wr T (cp_registry P) C" and mined: "mines N X wr T V (cp_registry P) C"
    using node by (simp_all add: honest_node_def)
  obtain s w1 where e: "ensure_sending C sending w = (Inr s, w1)" "snd_nonce s = nd_nonce N w" "same_chain N w w1"
    by (rule ensure_on_chain [OF served step])
  obtain g w2 where g: "estimate_trigger_gas C (cp_registry P) (text32 T v) w1 = (g, w2)" "same_chain N w1 w2"
      "case triggerOne X wr (nd_context N w1) v (nd_chain N w1) of
         Inl _ \<Rightarrow> is_Inl g | Inr _ \<Rightarrow> g = Inr (nd_gas N (nd_chain N w1) v)"
    using served unfolding serves_sender_def by blast
  have chain: "nd_chain N w2 = nd_chain N w" "nd_chain N w1 = nd_chain N w" "nd_nonce N w2 = nd_nonce N w"
    using e(3) g(2) by (simp_all add: same_chain_def)
  let ?p = "trigger_args P (text32 T v) s"
  show ?thesis
  proof (cases "triggerOne X wr (nd_context N w1) v (nd_chain N w)")
    case (Inl err)
    then obtain x where "g = Inl x" using g(3) chain(2) by (cases g) simp_all
    then have "trigger C ?p w1 = (Inl x, w2)"
      using g(1) by (simp add: trigger_def trigger_gas_def trigger_args_def)
    then have "vr = failed_result (text32 T v) None x" "sending' = None" "w' = w2"
      using turn real(1) e(1) by (simp_all add: sendOne_def)
    then show ?thesis using Inl inv chain(1)
      by (intro exI [of _ w1] exI [of _ None])
        (simp add: trigger_try_def reports_of_def tx_failed_def failed_result_def in_step_def)
  next
    case (Inr y)
    let ?g = "nd_gas N (nd_chain N w2) v"
    let ?tx = "\<lparr>tx_registry = tp_registry ?p, tx_volumeId = tp_volumeId ?p, tx_gas = gas_limit ?p ?g,
      tx_chainId = client_chainId C, tx_nonce = tp_nonce ?p, tx_maxFeePerGas = tp_maxFeePerGas ?p,
      tx_maxPriorityFeePerGas = tp_maxPriorityFeePerGas ?p\<rparr>"
    have est: "estimate_trigger_gas C (cp_registry P) (text32 T v) w1 = (Inr ?g, w2)"
      using g(1,3) Inr chain by simp
    have enough: "?g \<le> tx_gas ?tx"
      using scaleGas_headroom [OF real(2), of ?g] by (simp add: gas_limit_def trigger_args_def)
    have tx: "tx_registry ?tx = cp_registry P" "tx_volumeId ?tx = text32 T v" "tx_nonce ?tx = Some (nd_nonce N w2)"
      using e(2) chain(3) by (simp_all add: trigger_args_def)
    have inv2: "active_set (st_registry (nd_chain N w2))" using inv chain(1) by simp
    obtain hash w3 receipt w4 where sent: "write_contract C ?tx w2 = (Inr hash, w3)"
        "wait_for_receipt C hash (nullish (cp_confirmations P) 1) (nullish (cp_receiptTimeout P) 60000) w3 =
          (Inr receipt, w4)" "nd_nonce N w4 = Suc (nd_nonce N w2)" "active_set (st_registry (nd_chain N w4))"
      and told: "case trigger_try X wr (nd_context N w2, v) (nd_chain N w2) of
         (None, s) \<Rightarrow> receipt_status receipt \<noteq> js ''success'' \<and> nd_chain N w4 = s
       | (Some y, s) \<Rightarrow> receipt_status receipt = js ''success'' \<and> nd_chain N w4 = s \<and>
           summarizeVolume (decodeCycleEvents (parseEventLogs V) (receipt_logs receipt) (cp_registry P))
             (text32 T v) = y"
      by (rule sent_on_chain [OF mined inv2 enough tx])
    have sends: "trigger C ?p w1 = (Inr hash, w3)"
      using est sent(1) by (simp add: trigger_def trigger_gas_estimated trigger_args_def)
    obtain out s1 where tried: "trigger_try X wr (nd_context N w2, v) (nd_chain N w2) = (out, s1)"
      by (metis surj_pair)
    have "w' = w4" "sending' = Some (s\<lparr>snd_nonce := snd_nonce s + 1\<rparr>)" "nd_chain N w4 = s1"
      "vr = (case out of None \<Rightarrow> reverted_result (text32 T v) hash receipt
        | Some y \<Rightarrow> success_result (text32 T v) hash receipt y)"
      using turn real(1) e(1) sends sent(2) told tried
      by (auto simp: sendOne_def Let_def split: option.splits)
    then show ?thesis using tried sent(3,4) chain e(2)
      by (intro exI [of _ w2] exI [of _ out])
        (auto simp: reports_of_def tells_of_def tx_failed_def success_result_def reverted_result_def
          in_step_def split: option.split)
  qed
qed

section \<open>The loop\<close>

lemma loop_on_chain:
  assumes node: "honest_node N X wr T V (cp_registry P) C"
    and real: "\<not> nullish (cp_dryRun P) False" "100 \<le> nullish (cp_gasPercent P) 120"
    and loop: "cycle_loop (sendOne C V P) (date_now C) d i (map (text32 T) vs) sending r w = (r', w')"
    and inv: "active_set (st_registry (nd_chain N w))" and step: "in_step N sending w"
  shows "\<exists>calls outs rs. map snd calls = take (length calls) vs \<and> set (map fst calls) \<subseteq> range (nd_context N) \<and>
    trigger_tries X wr calls (nd_chain N w) = (outs, nd_chain N w') \<and>
    cr_volumes r' = cr_volumes r @ rs \<and> list_all2 reports_of outs rs \<and> length outs = length calls"
  using loop inv step
proof (induction vs arbitrary: i sending r w)
  case Nil
  then show ?case by (intro exI [of _ "[]"]) simp
next
  case (Cons v vs)
  have clock: "same_chain N u (snd (date_now C u))" for u
    using node by (simp add: honest_node_def reads_only_def)
  from Cons.prems(1) have "cycle_loop (sendOne C V P) (date_now C) d i (text32 T v # map (text32 T) vs)
      sending r w = (r', w')" by simp
  then show ?case
  proof (cases rule: cycle_loop_cases)
    case late
    then show ?thesis using clock [of w] by (intro exI [of _ "[]"]) (simp add: same_chain_def)
  next
    case (turn w1 vr s1 r1 w2)
    have w1: "nd_chain N w1 = nd_chain N w" "in_step N sending w1"
      using clock [of w] Cons.prems(3) turn(1)
      by (auto simp: same_chain_def in_step_def split: option.splits)
    obtain u out where t: "trigger_try X wr (nd_context N u, v) (nd_chain N w) = (out, nd_chain N w2)"
      and tells: "reports_of out vr" and after: "in_step N s1 w2" "active_set (st_registry (nd_chain N w2))"
      using turn_on_chain [OF node real _ w1(2) turn(3)] Cons.prems(2) unfolding w1(1) by blast
    obtain calls outs rs where rest: "map snd calls = take (length calls) vs"
      "set (map fst calls) \<subseteq> range (nd_context N)"
      "trigger_tries X wr calls (nd_chain N w2) = (outs, nd_chain N w')"
      "cr_volumes r' = cr_volumes (push_volume (text32 T v) vr r1) @ rs" "list_all2 reports_of outs rs"
      "length outs = length calls"
      using Cons.IH [OF turn(4) after(2,1)] by blast
    have "cr_volumes r' = cr_volumes r @ vr # rs"
      using rest(4) keeper_turn.turn_frame(2) [OF turn(3)] by simp
    then show ?thesis using rest t tells
      by (intro exI [of _ "(nd_context N u, v) # calls"] exI [of _ "out # outs"] exI [of _ "vr # rs"]) simp
  qed
qed

section \<open>The enumeration\<close>

text \<open>
  A client that reads one registry state at the block it is pinned to, as the enumeration of a cycle
  sees it.
\<close>

definition pinned_to ::
  "'w client \<Rightarrow> cycle_params \<Rightarrow> abi_text \<Rightarrow> registry \<Rightarrow> nat \<Rightarrow> 'w \<Rightarrow> bool" where
  "pinned_to C P T r b w \<longleftrightarrow>
     fst (get_block_number C (snd (date_now C w))) = Inr b \<and>
     reads_index C (cp_registry P) (Some b) (unat (activeVolumeCount r)) (registry_page T r)"

lemma enumeration_active:
  assumes "active_set r" "pinned_to C P T r b w"
    and "nullish (cp_mode P) AllVolumes = AllVolumes"
    and "1 \<le> nullish (cp_pageSize P) 100" "nullish (cp_pageSize P) 100 \<le> 2 ^ 53"
  shows "enumeration C P w = Some (b, map (text32 T) (activeVolumeIds r))"
proof -
  obtain w1 where g: "get_block_number C (snd (date_now C w)) = (Inr b, w1)"
    using assms(2) unfolding pinned_to_def by (metis prod.collapse)
  have "fst (collectActiveVolumes C (cp_registry P) (cp_pageSize P) (Some b) w1) =
      Inr (map (\<lambda>v. view_row T (getVolume r v)) (activeVolumeIds r))"
    using assms(1,2,4,5) by (intro collect_active) (simp_all add: active_set_def pinned_to_def)
  then obtain w2 where c: "collectActiveVolumes C (cp_registry P) (cp_pageSize P) (Some b) w1 =
      (Inr (map (\<lambda>v. view_row T (getVolume r v)) (activeVolumeIds r)), w2)"
    by (metis prod.collapse)
  have "view_volumeId (view_row T (getVolume r v)) = text32 T v" for v
    by (simp add: view_row_def getVolume_def Let_def)
  then show ?thesis using g c assms(3)
    by (simp add: enumeration_def collectIds_def comp_def)
qed

lemma attempt_list_whole:
  "length ids \<le> nullish (cp_maxVolumesPerCycle P) 50 \<Longrightarrow> attempt_list V P b ids = rotateVolumes V ids b"
  by (simp add: attempt_list_def)

lemma attempt_list_map:
  "attempt_list V P b (map f vs) = map f (take (nullish (cp_maxVolumesPerCycle P) 50)
     (rotate (hexToBigInt V (keccak256 V (numberToHex32 V b))) vs))"
  by (simp add: attempt_list_def rotateVolumes_rotate rotate_map take_map)

section \<open>The cycle\<close>

text \<open>The volumes listed as failed are those whose trigger reverted.\<close>

lemma reports_failed:
  assumes "list_all2 reports_of outs rs"
  shows "(List.map_filter failed_entry rs = []) = (None \<notin> set outs)"
  using assms
  by (induction rule: list_all2_induct)
    (auto simp: map_filter_simps failed_entry_def reports_of_def tells_of_def tx_failed_def split: option.splits)

lemma cycle_on_chain:
  assumes node: "honest_node N X wr T V (cp_registry P) C"
    and real: "\<not> nullish (cp_dryRun P) False" "100 \<le> nullish (cp_gasPercent P) 120"
    and inv: "active_set (st_registry (nd_chain N w))"
    and enum: "enumeration C P w = Some (b, map (text32 T) vs)"
  shows "\<exists>calls outs.
    trigger_tries X wr calls (nd_chain N w) = (outs, nd_chain N (snd (runKeeperCycle C V P w))) \<and>
    list_all2 reports_of outs (cr_volumes (fst (runKeeperCycle C V P w))) \<and>
    map vr_volumeId (cr_volumes (fst (runKeeperCycle C V P w))) = map (\<lambda>(c, v). text32 T v) calls \<and>
    cr_ok (fst (runKeeperCycle C V P w)) = (None \<notin> set outs) \<and>
    map snd calls = take (length calls) (take (nullish (cp_maxVolumesPerCycle P) 50)
      (rotate (hexToBigInt V (keccak256 V (numberToHex32 V b))) vs)) \<and>
    set (map fst calls) \<subseteq> range (nd_context N) \<and>
    (length calls = min (nullish (cp_maxVolumesPerCycle P) 50) (length vs) \<or>
     cut_by_deadline P (clock_readings C V P w) (length calls)
       (min (nullish (cp_maxVolumesPerCycle P) 50) (length vs)) (fst (runKeeperCycle C V P w)))"
proof -
  let ?vs = "take (nullish (cp_maxVolumesPerCycle P) 50)
    (rotate (hexToBigInt V (keccak256 V (numberToHex32 V b))) vs)"
  let ?res = "fst (runKeeperCycle C V P w)"
  have list: "attempt_list V P b (map (text32 T) vs) = map (text32 T) ?vs" by (rule attempt_list_map)
  have reads: "reads_only N C" using node by (simp add: honest_node_def)
  obtain r2 w2 d r w3 where
    loop: "cycle_loop (sendOne C V P) (date_now C) d 0 (map (text32 T) ?vs) None r2 w2 = (r, w3)"
    and w2: "same_chain N w w2" and r2: "cr_volumes r2 = []"
    and res: "cr_volumes ?res = cr_volumes r" "cr_warnings ?res = cr_warnings r" "cr_error ?res = None"
    and last: "same_chain N w3 (snd (runKeeperCycle C V P w))"
    by (rule chain_reads.run_moves [OF reads enum, of V, unfolded list])
  have chain: "nd_chain N w2 = nd_chain N w" using w2 by (simp add: same_chain_def)
  have out: "nd_chain N (snd (runKeeperCycle C V P w)) = nd_chain N w3" using last by (simp add: same_chain_def)
  obtain calls outs rs where calls: "map snd calls = take (length calls) ?vs"
    "set (map fst calls) \<subseteq> range (nd_context N)"
    "trigger_tries X wr calls (nd_chain N w) = (outs, nd_chain N w3)"
    "cr_volumes r = cr_volumes r2 @ rs" "list_all2 reports_of outs rs" "length outs = length calls"
    using loop_on_chain [OF node real loop] inv unfolding chain in_step_def by auto
  have rs: "cr_volumes ?res = rs" using res(1) calls(4) r2 by simp
  have len: "length rs = length calls" using calls(5,6) by (simp add: list_all2_lengthD)
  have ok: "cr_ok ?res = (None \<notin> set outs)"
    using run_accounting [of C V P w] reports_failed [OF calls(5)] rs res(3)
    by (simp add: accounting_def lists_agree_def ok_agrees_def)
  note clock = clock_decides [OF enum, of V, unfolded rs list len]
  have "map vr_volumeId rs = map (text32 T) (map snd calls)"
    using clock unfolding calls(1) by (simp add: take_map)
  then have ids: "map vr_volumeId rs = map (\<lambda>(c, v). text32 T v) calls" by (simp add: comp_def case_prod_beta)
  have short: "length (map (text32 T) ?vs) = min (nullish (cp_maxVolumesPerCycle P) 50) (length vs)"
    by (simp add: min.commute)
  have ends: "length calls = min (nullish (cp_maxVolumesPerCycle P) 50) (length vs) \<or>
     cut_by_deadline P (clock_readings C V P w) (length calls)
       (min (nullish (cp_maxVolumesPerCycle P) 50) (length vs)) ?res"
    using clock unfolding short by blast
  show ?thesis unfolding out rs using calls(1-3,5) ok ids ends by blast
qed

end
