(* ===== verification/KeeperFaults.thy ===== *)
theory KeeperFaults
  imports KeeperOnChain "HOL-Library.Sublist"
begin

text \<open>
  The keeper's cycle on a node that is not obliging (\<open>runKeeperCycle.ts\<close>, \<open>trigger.ts\<close>): a read may fail,
  a transaction may be refused, its hash may get lost, it may be mined late or never or revert, a receipt may
  not come in time, and between any two requests other users move the chain. What such a node may
  still not do is to mine a transaction that nobody sent, to mine one twice, or to make up a receipt.
  The registry then keeps its storage invariant and the terms of its volumes, each entry of the cycle's list
  is triggered at most once, and what the result calls a success is a decision that the registry really took.
\<close>

section \<open>A node that may fail\<close>

text \<open>A transaction in a block: its hash, volume and context, and the chain it was mined on.\<close>

type_synonym 'x mined = "hex \<times> bytes32 \<times> call_context \<times> 'x chain_state"

record 'x node_state =
  ns_chain :: "'x chain_state"
  ns_accepted :: "(hex \<times> bytes32) list"
  ns_mined :: "'x mined list"

text \<open>What happens on its own: any step of the chain, or an accepted transaction gets mined.\<close>

inductive node_step :: "'x externals \<Rightarrow> wiring \<Rightarrow> 'x node_state \<Rightarrow> 'x node_state \<Rightarrow> bool" for X wr where
  others: "registry_step X wr (ns_chain n) s' \<Longrightarrow> node_step X wr n (n\<lparr>ns_chain := s'\<rparr>)"
| mined: "(h, v) \<in> set (ns_accepted n) \<Longrightarrow> h \<notin> fst ` set (ns_mined n) \<Longrightarrow>
    triggerOne X wr c v (ns_chain n) = Inr (oc, s') \<Longrightarrow>
    node_step X wr n (n\<lparr>ns_chain := s', ns_mined := ns_mined n @ [(h, v, c, ns_chain n)]\<rparr>)"

inductive_cases node_stepE: "node_step X wr n n'"

abbreviation node_runs :: "'x externals \<Rightarrow> wiring \<Rightarrow> 'x node_state \<Rightarrow> 'x node_state \<Rightarrow> bool" where
  "node_runs X wr \<equiv> (node_step X wr)\<^sup>*\<^sup>*"

text \<open>A node whose records are in order.\<close>

definition node_sound :: "'x node_state \<Rightarrow> bool" where
  "node_sound n \<longleftrightarrow>
     active_set (st_registry (ns_chain n)) \<and>
     distinct (map fst (ns_accepted n)) \<and> distinct (map fst (ns_mined n)) \<and>
     list_all (\<lambda>(h, v, c, s). (h, v) \<in> set (ns_accepted n) \<and> active_set (st_registry s)) (ns_mined n)"

text \<open>How a node gets on, with the transactions it accepts meanwhile.\<close>

definition node_advances :: "(hex \<times> bytes32) list \<Rightarrow> 'x node_state \<Rightarrow> 'x node_state \<Rightarrow> bool" where
  "node_advances acc n n' \<longleftrightarrow>
     (node_sound n \<longrightarrow>
        node_sound n' \<and> ns_accepted n' = ns_accepted n @ acc \<and> prefix (ns_mined n) (ns_mined n') \<and>
        keeps (st_registry (ns_chain n)) (st_registry (ns_chain n')))"

lemma advances_refl: "node_advances [] n n"
  by (simp add: node_advances_def node_sound_def keeps_refl)

lemma advances_trans:
  "node_advances acc n n1 \<Longrightarrow> node_advances acc' n1 n2 \<Longrightarrow> node_advances (acc @ acc') n n2"
  unfolding node_advances_def by (auto intro: keeps_trans prefix_order.trans)

lemma step_advances: "node_step X wr n n' \<Longrightarrow> node_advances [] n n'"
proof (erule node_stepE)
  fix s'
  assume "n' = n\<lparr>ns_chain := s'\<rparr>" "registry_step X wr (ns_chain n) s'"
  then show ?thesis using step_keeps [of X wr "ns_chain n" s']
    by (auto simp: node_advances_def node_sound_def keeps_def)
next
  fix h v c oc s'
  assume n': "n' = n\<lparr>ns_chain := s', ns_mined := ns_mined n @ [(h, v, c, ns_chain n)]\<rparr>"
    and t: "(h, v) \<in> set (ns_accepted n)" "h \<notin> fst ` set (ns_mined n)"
      "triggerOne X wr c v (ns_chain n) = Inr (oc, s')"
  have "node_sound n \<Longrightarrow> keeps (st_registry (ns_chain n)) (st_registry s')"
    using triggerOne_effect [OF _ t(3)] by (simp add: node_sound_def)
  then show ?thesis using t(1,2) unfolding n' by (auto simp: node_advances_def node_sound_def keeps_def)
qed

lemma runs_advance: "node_runs X wr n n' \<Longrightarrow> node_advances [] n n'"
proof (induction rule: rtranclp_induct)
  case base
  then show ?case by (rule advances_refl)
next
  case (step n1 n2)
  then show ?case using advances_trans [OF _ step_advances [OF step(2)], of "[]" n] by simp
qed

lemma accept_advances:
  "h \<notin> fst ` set (ns_accepted n) \<Longrightarrow> node_advances [(h, v)] n (n\<lparr>ns_accepted := ns_accepted n @ [(h, v)]\<rparr>)"
  by (auto simp: node_advances_def node_sound_def keeps_refl list_all_iff)

section \<open>A client of such a node\<close>

text \<open>\<open>N\<close> reads the node's state off the world. A quiet request lets the node run, and answers anything.\<close>

definition lets_run ::
  "('w \<Rightarrow> 'x node_state) \<Rightarrow> 'x externals \<Rightarrow> wiring \<Rightarrow> ('w \<Rightarrow> 'a \<times> 'w) \<Rightarrow> bool" where
  "lets_run N X wr f \<longleftrightarrow> (\<forall>w. node_runs X wr (N w) (N (snd (f w))))"

text \<open>
  A send may be refused; or the transaction is accepted under a new hash, and then the answer is that
  hash or nothing at all.
\<close>

definition may_accept ::
  "('w \<Rightarrow> 'x node_state) \<Rightarrow> 'x externals \<Rightarrow> wiring \<Rightarrow> abi_text \<Rightarrow> address \<Rightarrow> 'w client \<Rightarrow> bool" where
  "may_accept N X wr T reg C \<longleftrightarrow>
     (\<forall>tx v w x w1. tx_registry tx = reg \<longrightarrow> tx_volumeId tx = text32 T v \<longrightarrow>
        write_contract C tx w = (x, w1) \<longrightarrow>
        (is_Inl x \<and> node_runs X wr (N w) (N w1)) \<or>
        (\<exists>n h. node_runs X wr (N w) n \<and> h \<notin> fst ` set (ns_accepted n) \<and>
           node_runs X wr (n\<lparr>ns_accepted := ns_accepted n @ [(h, v)]\<rparr>) (N w1) \<and> (x = Inr h \<or> is_Inl x)))"

text \<open>A receipt of success tells of a mined transaction, in the events of its very call.\<close>

definition truthful_receipts ::
  "('w \<Rightarrow> 'x node_state) \<Rightarrow> 'x externals \<Rightarrow> wiring \<Rightarrow> abi_text \<Rightarrow> viem \<Rightarrow> address \<Rightarrow> 'w client \<Rightarrow> bool" where
  "truthful_receipts N X wr T V reg C \<longleftrightarrow>
     (\<forall>h k t w receipt w1. wait_for_receipt C h k t w = (Inr receipt, w1) \<longrightarrow>
        receipt_status receipt = js ''success'' \<longrightarrow>
        (\<exists>v c s oc s'. (h, v, c, s) \<in> set (ns_mined (N w1)) \<and> triggerOne X wr c v s = Inr (oc, s') \<and>
           (\<forall>es. st_events s' = st_events s @ es \<longrightarrow>
              parseEventLogs V (from_registry reg (receipt_logs receipt)) = List.map_filter (event_of T) es)))"

definition faulty_reads :: "('w \<Rightarrow> 'x node_state) \<Rightarrow> 'x externals \<Rightarrow> wiring \<Rightarrow> 'w client \<Rightarrow> bool" where
  "faulty_reads N X wr C \<longleftrightarrow>
     lets_run N X wr (date_now C) \<and> lets_run N X wr (get_block_number C) \<and>
     (\<forall>a k. lets_run N X wr (read_active_count C a k)) \<and>
     (\<forall>a k cs. lets_run N X wr (multicall_active_pages C a k cs)) \<and>
     (\<forall>a k vs. lets_run N X wr (multicall_volumes C a k vs)) \<and>
     (\<forall>a. lets_run N X wr (get_transaction_count C a)) \<and>
     lets_run N X wr (get_block C) \<and> lets_run N X wr (estimate_priority_fee C) \<and>
     (\<forall>a v. lets_run N X wr (simulate_trigger C a v)) \<and>
     (\<forall>a v. lets_run N X wr (estimate_trigger_gas C a v)) \<and>
     (\<forall>h k t. lets_run N X wr (wait_for_receipt C h k t))"

definition faulty_node ::
  "('w \<Rightarrow> 'x node_state) \<Rightarrow> 'x externals \<Rightarrow> wiring \<Rightarrow> abi_text \<Rightarrow> viem \<Rightarrow> address \<Rightarrow> 'w client \<Rightarrow> bool" where
  "faulty_node N X wr T V reg C \<longleftrightarrow>
     faulty_reads N X wr C \<and> may_accept N X wr T reg C \<and> truthful_receipts N X wr T V reg C"

lemma lets_run_advances: "lets_run N X wr f \<Longrightarrow> f w = (x, w1) \<Longrightarrow> node_advances [] (N w) (N w1)"
  unfolding lets_run_def by (metis snd_conv runs_advance)

lemma faulty_requests:
  assumes "faulty_reads N X wr C"
  shows "date_now C w = (t, w1) \<Longrightarrow> node_advances [] (N w) (N w1)"
    and "get_transaction_count C a w = (x1, w1) \<Longrightarrow> node_advances [] (N w) (N w1)"
    and "get_block C w = (x2, w1) \<Longrightarrow> node_advances [] (N w) (N w1)"
    and "estimate_priority_fee C w = (x3, w1) \<Longrightarrow> node_advances [] (N w) (N w1)"
    and "simulate_trigger C a v w = (x4, w1) \<Longrightarrow> node_advances [] (N w) (N w1)"
    and "estimate_trigger_gas C a v w = (x5, w1) \<Longrightarrow> node_advances [] (N w) (N w1)"
    and "wait_for_receipt C h k m w = (x6, w1) \<Longrightarrow> node_advances [] (N w) (N w1)"
  using assms lets_run_advances unfolding faulty_reads_def by metis+

interpretation faulty_chain: client_reads "\<lambda>w w'. node_advances [] (N w) (N w')" "faulty_reads N X wr"
proof unfold_locales
  fix w w1 w2 C a k cs vs
  show "node_advances [] (N w) (N w)" by (rule advances_refl)
  show "node_advances [] (N w) (N w2)"
    if "node_advances [] (N w) (N w1)" "node_advances [] (N w1) (N w2)"
    using advances_trans [OF that] by simp
  show "node_advances [] (N w) (N (snd (date_now C w)))"
    and "node_advances [] (N w) (N (snd (get_block_number C w)))"
    and "node_advances [] (N w) (N (snd (read_active_count C a k w)))"
    and "node_advances [] (N w) (N (snd (multicall_active_pages C a k cs w)))"
    and "node_advances [] (N w) (N (snd (multicall_volumes C a k vs w)))"
    if "faulty_reads N X wr C"
    using that unfolding faulty_reads_def lets_run_def by (simp_all add: runs_advance [of X wr])
qed

section \<open>One turn\<close>

text \<open>
  What stands behind a volume's result: a hash it names is that of a transaction accepted for this
  volume, and a success is the decision of the registry on the chain that this transaction was mined on.
\<close>

definition backed ::
  "'x externals \<Rightarrow> wiring \<Rightarrow> abi_text \<Rightarrow> 'x node_state \<Rightarrow> (hex \<times> bytes32) list \<Rightarrow> volume_result \<Rightarrow> bool" where
  "backed X wr T n acc vr \<longleftrightarrow>
     (\<forall>h. vr_hash vr = Some h \<longrightarrow> (\<exists>v. vr_volumeId vr = text32 T v \<and> (h, v) \<in> set acc)) \<and>
     (vr_status vr = StSuccess \<longrightarrow>
        (\<exists>h v c s. vr_hash vr = Some h \<and> vr_volumeId vr = text32 T v \<and> (h, v) \<in> set acc \<and>
           (h, v, c, s) \<in> set (ns_mined n) \<and>
           tells_of (verdict_summary (volumes (st_registry s) v) (decide X wr c v s)) vr))"

lemma backed_mono:
  "backed X wr T n acc vr \<Longrightarrow> prefix (ns_mined n) (ns_mined n') \<Longrightarrow> set acc \<subseteq> set acc' \<Longrightarrow>
   backed X wr T n' acc' vr"
  unfolding backed_def by (meson subsetD set_mono_prefix)

lemma backed_hashless: "vr_status vr \<noteq> StSuccess \<Longrightarrow> vr_hash vr = None \<Longrightarrow> backed X wr T n acc vr"
  by (simp add: backed_def)

lemma backed_unsent: "backed X wr T n acc (failed_result u None e)"
  by (simp add: failed_result_def backed_hashless)

lemma ensure_faulty:
  assumes "faulty_reads N X wr C" "ensure_sending C s w = (x, w')"
  shows "node_advances [] (N w) (N w')"
proof (cases s)
  case None
  obtain n w1 where n: "get_transaction_count C (client_address C) w = (n, w1)" by (metis surj_pair)
  obtain b w2 where b: "get_block C w1 = (b, w2)" by (metis surj_pair)
  obtain t w3 where t: "estimate_priority_fee C w2 = (t, w3)" by (metis surj_pair)
  have "w' = w3" using assms(2) None n b t by (simp add: ensure_sending_def readSending_def Let_def)
  moreover have "node_advances ([] @ [] @ []) (N w) (N w3)"
    by (intro advances_trans) (rule faulty_requests [OF assms(1)], rule n b t)+
  ultimately show ?thesis by simp
next
  case (Some y)
  then show ?thesis using assms(2) by (simp add: ensure_sending_def advances_refl)
qed

lemma trigger_faulty:
  assumes node: "faulty_node N X wr T V (tp_registry p) C" and run: "trigger C p w = (x, w')"
    and p: "tp_gas p = None" "tp_volumeId p = text32 T v"
  obtains acc where "node_advances acc (N w) (N w')"
    "case x of Inr h \<Rightarrow> acc = [(h, v)] | Inl _ \<Rightarrow> acc = [] \<or> (\<exists>h. acc = [(h, v)])"
proof -
  have reads: "faulty_reads N X wr C" and send: "may_accept N X wr T (tp_registry p) C"
    using node by (simp_all add: faulty_node_def)
  obtain g w1 where g: "estimate_trigger_gas C (tp_registry p) (tp_volumeId p) w = (g, w1)" by (metis surj_pair)
  have w1: "node_advances [] (N w) (N w1)" by (rule faulty_requests(6) [OF reads g])
  show ?thesis
  proof (cases g)
    case (Inl e)
    then have "x = Inl e" "w' = w1" using run g p(1) by (simp_all add: trigger_gas_error)
    then show ?thesis using w1 that [of "[]"] by simp
  next
    case (Inr estimate)
    let ?tx = "\<lparr>tx_registry = tp_registry p, tx_volumeId = tp_volumeId p, tx_gas = gas_limit p estimate,
      tx_chainId = client_chainId C, tx_nonce = tp_nonce p, tx_maxFeePerGas = tp_maxFeePerGas p,
      tx_maxPriorityFeePerGas = tp_maxPriorityFeePerGas p\<rparr>"
    have "write_contract C ?tx w1 = (x, w')"
      using run g Inr p(1) by (simp add: trigger_def trigger_gas_estimated)
    from send [unfolded may_accept_def, rule_format, OF _ _ this, of v]
    consider (refused) "is_Inl x" "node_runs X wr (N w1) (N w')"
      | (accepted) n h where "node_runs X wr (N w1) n" "h \<notin> fst ` set (ns_accepted n)"
          "node_runs X wr (n\<lparr>ns_accepted := ns_accepted n @ [(h, v)]\<rparr>) (N w')" "x = Inr h \<or> is_Inl x"
      using p(2) by auto
    then show ?thesis
    proof cases
      case refused
      then show ?thesis using advances_trans [OF w1 runs_advance [OF refused(2)]] that [of "[]"]
        by (cases x) simp_all
    next
      case accepted
      have "node_advances ([] @ [] @ [(h, v)] @ []) (N w) (N w')"
        by (intro advances_trans) (rule w1 runs_advance accepted accept_advances)+
      then show ?thesis using that [of "[(h, v)]"] accepted(4) by (cases x) auto
    qed
  qed
qed

lemma receipt_backs:
  assumes node: "faulty_node N X wr T V reg C" and sound: "node_sound (N w1)"
    and got: "wait_for_receipt C h k t w = (Inr receipt, w1)" "receipt_status receipt = js ''success''"
    and hv: "(h, v) \<in> set (ns_accepted (N w1))" and summary:
      "summary = summarizeVolume (decodeCycleEvents (parseEventLogs V) (receipt_logs receipt) reg) (text32 T v)"
  shows "backed X wr T (N w1) [(h, v)] (success_result (text32 T v) h receipt summary)"
proof -
  obtain u c s oc s' where m: "(h, u, c, s) \<in> set (ns_mined (N w1))" "triggerOne X wr c u s = Inr (oc, s')"
    and logs: "\<forall>es. st_events s' = st_events s @ es \<longrightarrow>
      parseEventLogs V (from_registry reg (receipt_logs receipt)) = List.map_filter (event_of T) es"
    using node got unfolding faulty_node_def truthful_receipts_def by blast
  have "(h, u) \<in> set (ns_accepted (N w1))" and inv: "active_set (st_registry s)"
    using sound m(1) by (auto simp: node_sound_def list_all_iff)
  then have u: "u = v" using sound hv by (auto simp: node_sound_def dest: eq_key_imp_eq_value)
  obtain es where es: "st_events s' = st_events s @ es" using triggerOne_effect [OF inv m(2)] by blast
  have "summary = verdict_summary (volumes (st_registry s) v) (decide X wr c v s)"
    unfolding summary u [symmetric]
    by (rule receipt_tells_verdict [where es = es, OF inv m(2) es]) (rule logs [rule_format, OF es])
  then show ?thesis using m(1) unfolding u
    by (auto simp: backed_def success_result_def tells_of_def)
qed

lemma turn_faulty:
  assumes node: "faulty_node N X wr T V (cp_registry P) C" and sound: "node_sound (N w)"
    and turn: "sendOne C V P (text32 T v) sending r w = (vr, sending', r', w')"
  obtains acc where "node_advances acc (N w) (N w')" "acc = [] \<or> (\<exists>h. acc = [(h, v)])"
    "backed X wr T (N w') acc vr"
proof (cases "nullish (cp_dryRun P) False")
  case True
  obtain x w1 where x: "simulate_trigger C (cp_registry P) (text32 T v) w = (x, w1)" by (metis surj_pair)
  have "w' = w1" "vr = (case x of Inl e \<Rightarrow> failed_result (text32 T v) None e | Inr _ \<Rightarrow> simulated_result (text32 T v))"
    using turn True x by (auto simp: sendOne_def split: sum.splits)
  moreover have "node_advances [] (N w) (N w1)"
    using faulty_requests(5) [OF _ x, of N X wr] node by (simp add: faulty_node_def)
  moreover have "backed X wr T n [] vr" for n
    using calculation(2) by (cases x) (simp_all add: failed_result_def simulated_result_def backed_hashless)
  ultimately show ?thesis using that [of "[]"] by simp
next
  case False
  have reads: "faulty_reads N X wr C" using node by (simp add: faulty_node_def)
  obtain x w1 where e: "ensure_sending C sending w = (x, w1)" by (metis surj_pair)
  note a1 = ensure_faulty [OF reads e]
  show ?thesis
  proof (cases x)
    case (Inl err)
    then have "w' = w1" "vr = failed_result (text32 T v) None err"
      using turn False e by (simp_all add: sendOne_def)
    then show ?thesis using a1 that [of "[]"] by (simp add: backed_unsent)
  next
    case (Inr s)
    let ?p = "trigger_args P (text32 T v) s"
    obtain y w2 where t: "trigger C ?p w1 = (y, w2)" by (metis surj_pair)
    obtain acc where acc: "node_advances acc (N w1) (N w2)"
      "case y of Inr h \<Rightarrow> acc = [(h, v)] | Inl _ \<Rightarrow> acc = [] \<or> (\<exists>h. acc = [(h, v)])"
      by (rule trigger_faulty [OF _ t, of N X wr T V v]) (use node in \<open>simp_all add: trigger_args_def\<close>)
    have a2: "node_advances acc (N w) (N w2)" using advances_trans [OF a1 acc(1)] by simp
    show ?thesis
    proof (cases y)
      case (Inl err)
      then have "w' = w2" "vr = failed_result (text32 T v) None err"
        using turn False e Inr t by (simp_all add: sendOne_def)
      then show ?thesis using Inl acc(2) a2 that [of acc] by (simp add: backed_unsent)
    next
      case hash: (Inr h)
      then have one: "acc = [(h, v)]" using acc(2) by simp
      obtain rc w3 where q: "wait_for_receipt C h (nullish (cp_confirmations P) 1)
          (nullish (cp_receiptTimeout P) 60000) w2 = (rc, w3)" by (metis surj_pair)
      have a3: "node_advances acc (N w) (N w3)"
        using advances_trans [OF a2 faulty_requests(7) [OF reads q]] by simp
      then have n3: "node_sound (N w3)" "(h, v) \<in> set (ns_accepted (N w3))"
        using sound by (simp_all add: node_advances_def one)
      have "w' = w3" and "backed X wr T (N w3) acc vr"
      proof -
        show "w' = w3" using turn False e Inr t hash q
          by (auto simp: sendOne_def Let_def split: sum.splits if_splits)
        have named: "backed X wr T (N w3) acc vr" if "vr_status vr \<noteq> StSuccess" "vr_volumeId vr = text32 T v"
          "vr_hash vr = None \<or> vr_hash vr = Some h" using that by (auto simp: backed_def one)
        show "backed X wr T (N w3) acc vr"
        proof (cases rc)
          case (Inl err)
          then have "vr = failed_result (text32 T v) (Some h) err"
            using turn False e Inr t hash q by (simp add: sendOne_def)
          then show ?thesis using named by (auto simp: failed_result_def truthy_def)
        next
          case rcpt: (Inr receipt)
          show ?thesis
          proof (cases "receipt_status receipt = js ''success''")
            case no: False
            then have "vr = reverted_result (text32 T v) h receipt"
              using turn False e Inr t hash q rcpt by (simp add: sendOne_def Let_def)
            then show ?thesis using named by (simp add: reverted_result_def)
          next
            case yes: True
            show ?thesis unfolding one
              using receipt_backs [OF node n3(1) _ yes n3(2) refl] turn False e Inr t hash q rcpt yes
              by (auto simp: sendOne_def Let_def)
          qed
        qed
      qed
      then show ?thesis using a3 that [of acc] one by blast
    qed
  qed
qed

section \<open>The cycle\<close>

lemma subseq_mset: "subseq xs ys \<Longrightarrow> mset xs \<subseteq># mset ys"
  by (induction rule: list_emb.induct) (auto intro: subset_mset.order_trans)

lemma attempts_mset: "mset (take n (rotate k xs)) \<subseteq># mset xs"
proof -
  have "mset (take n (rotate k xs)) \<subseteq># mset (take n (rotate k xs) @ drop n (rotate k xs))" by (simp only: mset_append mset_subset_eq_add_left)
  also have "\<dots> = mset (rotate k xs)" by (simp only: append_take_drop_id)
  also have "\<dots> = mset xs"
    unfolding rotate_drop_take by (metis append_take_drop_id mset_append union_commute)
  finally show ?thesis .
qed

lemma distinct_mset_mono:
  assumes "distinct xs" "set xs \<subseteq> set ys"
  shows "mset xs \<subseteq># mset ys"
proof (rule mset_subset_eqI)
  fix a
  show "count (mset xs) a \<le> count (mset ys) a"
    using assms by (cases "a \<in> set xs") (auto simp: distinct_count_atmost_1 count_mset_0_iff Suc_le_eq)
qed

lemma loop_faulty:
  assumes node: "faulty_node N X wr T V (cp_registry P) C"
    and loop: "cycle_loop (sendOne C V P) (date_now C) d i (map (text32 T) vs) sending r w = (r', w')"
    and sound: "node_sound (N w)"
  shows "\<exists>acc rs. node_advances acc (N w) (N w') \<and> subseq (map snd acc) vs \<and>
    cr_volumes r' = cr_volumes r @ rs \<and> list_all (backed X wr T (N w') acc) rs"
  using loop sound
proof (induction vs arbitrary: i sending r w)
  case Nil
  then show ?case by (intro exI [of _ "[]"]) (simp add: advances_refl)
next
  case (Cons v vs)
  have reads: "faulty_reads N X wr C" using node by (simp add: faulty_node_def)
  have clock: "node_advances [] (N u) (N (snd (date_now C u)))" for u
    using faulty_chain.reads_clock [OF reads] .
  from Cons.prems(1) have "cycle_loop (sendOne C V P) (date_now C) d i (text32 T v # map (text32 T) vs)
      sending r w = (r', w')" by simp
  then show ?case
  proof (cases rule: cycle_loop_cases)
    case late
    then show ?thesis using clock [of w] by (intro exI [of _ "[]"]) simp
  next
    case (turn w1 vr s1 r1 w2)
    have a1: "node_advances [] (N w) (N w1)"
      using clock [of w] turn(1) by (cases "0 < i") (simp_all add: advances_refl)
    then have "node_sound (N w1)" using Cons.prems(2) by (simp add: node_advances_def)
    then obtain acc where acc: "node_advances acc (N w1) (N w2)" "acc = [] \<or> (\<exists>h. acc = [(h, v)])"
      "backed X wr T (N w2) acc vr" by (rule turn_faulty [OF node _ turn(3)])
    have a2: "node_advances acc (N w) (N w2)" using advances_trans [OF a1 acc(1)] by simp
    then have n2: "node_sound (N w2)" using Cons.prems(2) by (simp add: node_advances_def)
    obtain acc' rs where rest: "node_advances acc' (N w2) (N w')" "subseq (map snd acc') vs"
      "cr_volumes r' = cr_volumes (push_volume (text32 T v) vr r1) @ rs"
      "list_all (backed X wr T (N w') acc') rs"
      using Cons.IH [OF turn(4) n2] by blast
    have pre: "prefix (ns_mined (N w2)) (ns_mined (N w'))"
      using rest(1) n2 by (simp add: node_advances_def)
    have "backed X wr T (N w') (acc @ acc') vr" by (rule backed_mono [OF acc(3) pre]) simp
    moreover have "list_all (backed X wr T (N w') (acc @ acc')) rs"
      using rest(4) by (auto simp: list_all_iff intro: backed_mono)
    moreover have "cr_volumes r' = cr_volumes r @ vr # rs"
      using rest(3) keeper_turn.turn_frame(2) [OF turn(3)] by simp
    moreover have "subseq (map snd (acc @ acc')) (v # vs)" using acc(2) rest(2) by auto
    ultimately show ?thesis using advances_trans [OF a2 rest(1)]
      by (intro exI [of _ "acc @ acc'"] exI [of _ "vr # rs"]) simp
  qed
qed

lemma cycle_faulty:
  assumes node: "faulty_node N X wr T V (cp_registry P) C" and sound: "node_sound (N w)"
    and enum: "enumeration C P w = Some (b, map (text32 T) vs)"
  shows "\<exists>acc. node_advances acc (N w) (N (snd (runKeeperCycle C V P w))) \<and>
    subseq (map snd acc) (take (nullish (cp_maxVolumesPerCycle P) 50)
      (rotate (hexToBigInt V (keccak256 V (numberToHex32 V b))) vs)) \<and>
    list_all (backed X wr T (N (snd (runKeeperCycle C V P w))) acc) (cr_volumes (fst (runKeeperCycle C V P w)))"
proof -
  let ?vs = "take (nullish (cp_maxVolumesPerCycle P) 50)
    (rotate (hexToBigInt V (keccak256 V (numberToHex32 V b))) vs)"
  let ?n = "N (snd (runKeeperCycle C V P w))"
  have reads: "faulty_reads N X wr C" using node by (simp add: faulty_node_def)
  obtain r2 w2 d r w3 where
    loop: "cycle_loop (sendOne C V P) (date_now C) d 0 (map (text32 T) ?vs) None r2 w2 = (r, w3)"
    and first: "node_advances [] (N w) (N w2)" and r2: "cr_volumes r2 = []"
    and res: "cr_volumes (fst (runKeeperCycle C V P w)) = cr_volumes r"
    and last: "node_advances [] (N w3) ?n"
    by (rule faulty_chain.run_moves [OF reads enum, of V, unfolded attempt_list_map])
  have n2: "node_sound (N w2)" using first sound by (simp add: node_advances_def)
  obtain acc rs where l: "node_advances acc (N w2) (N w3)" "subseq (map snd acc) ?vs"
    "cr_volumes r = cr_volumes r2 @ rs" "list_all (backed X wr T (N w3) acc) rs"
    using loop_faulty [OF node loop n2] by blast
  have "node_sound (N w3)" using l(1) n2 by (simp add: node_advances_def)
  then have "prefix (ns_mined (N w3)) (ns_mined ?n)" using last by (simp add: node_advances_def)
  then have "list_all (backed X wr T ?n acc) rs" using l(4) by (auto simp: list_all_iff intro: backed_mono)
  moreover have "node_advances ([] @ acc @ []) (N w) ?n"
    by (intro advances_trans) (rule first l last)+
  ultimately show ?thesis using l(2,3) r2 res by (intro exI [of _ acc]) simp
qed

text \<open>
  However the node goes on, each of the accepted transactions is mined once at most, for its own volume.
\<close>

definition mined_for :: "(hex \<times> bytes32) list \<Rightarrow> 'x node_state \<Rightarrow> 'x mined list" where
  "mined_for acc n = filter (\<lambda>(h, v, c, s). h \<in> fst ` set acc) (ns_mined n)"

lemma mined_once:
  assumes sound: "node_sound n" and acc: "set acc \<subseteq> set (ns_accepted n)"
  shows "mset (map (\<lambda>(h, v, c, s). v) (mined_for acc n)) \<subseteq># mset (map snd acc)"
proof -
  let ?pairs = "map (\<lambda>(h, v, c, s). (h, v)) (mined_for acc n)"
  have named: "(h, v) \<in> set acc" if m: "(h, v, c, s) \<in> set (mined_for acc n)" for h v c s
  proof -
    obtain u where u: "(h, u) \<in> set acc" using m by (auto simp: mined_for_def)
    have "(h, v) \<in> set (ns_accepted n)" using m sound by (auto simp: mined_for_def node_sound_def list_all_iff)
    then have "u = v" using u acc(1) sound by (auto simp: node_sound_def dest: eq_key_imp_eq_value)
    then show ?thesis using u by simp
  qed
  have "distinct (map fst (mined_for acc n))"
    using sound by (simp add: mined_for_def node_sound_def distinct_map_filter)
  moreover have "map fst ?pairs = map fst (mined_for acc n)" by (simp add: case_prod_beta)
  ultimately have "distinct ?pairs" by (metis distinct_map)
  moreover have "set ?pairs \<subseteq> set acc" using named by auto
  ultimately have "image_mset snd (mset ?pairs) \<subseteq># image_mset snd (mset acc)"
    by (intro image_mset_subseteq_mono distinct_mset_mono)
  moreover have "map (\<lambda>(h, v, c, s). v) (mined_for acc n) = map snd ?pairs" by (simp add: case_prod_beta)
  ultimately show ?thesis by (simp only: mset_map)
qed

end
