(* ===== verification/SampleNodes.thy ===== *)
theory SampleNodes
  imports KeeperFaults
begin

text \<open>
  Concrete nodes for the witnesses: one that is honest, and one that another user, a lost answer and a
  late block disturb. Both run the sample registry, and their receipts spell the events of a call out.
\<close>

section \<open>An honest node\<close>

definition sample_text :: abi_text where
  "sample_text = \<lparr>text32 = (\<lambda>w. dec (unat w)), text20 = (\<lambda>w. dec (unat w))\<rparr>"

text \<open>
  A node with one chain: its blocks hold one transaction each, and the receipt of the last one spells its
  events out, which the parser of \<open>node_viem\<close> reads back; a reverted one has none.
\<close>

type_synonym 'x node_world = "'x chain_state \<times> nat \<times> sol_event list option"

definition spell :: "sol_event \<Rightarrow> hex list" where
  "spell e = (case event_of sample_text e of
     None \<Rightarrow> []
   | Some (Toppedup v a n) \<Rightarrow> [js ''T'', v, dec a, dec n]
   | Some (VolumeRetired v x) \<Rightarrow> [js ''R'', v, dec x]
   | Some (TopupSkipped v x) \<Rightarrow> [js ''S'', v, dec x])"

fun unspell :: "hex list \<Rightarrow> registry_event option" where
  "unspell [k, v, a, n] = Some (Toppedup v (dec_value a) (dec_value n))"
| "unspell [k, v, x] =
     Some (if k = js ''R'' then VolumeRetired v (dec_value x) else TopupSkipped v (dec_value x))"
| "unspell _ = None"

lemma unspell_spell: "unspell (spell e) = event_of sample_text e"
  by (cases e) (simp_all add: spell_def js_def)

definition node_viem :: viem where
  "node_viem = sample_viem\<lparr>parseEventLogs := (\<lambda>logs. List.map_filter unspell (map log_topics logs))\<rparr>"

text \<open>The logs of a receipt for the events of a call, and that they are read back.\<close>

definition spelled :: "sol_event list \<Rightarrow> log_entry list" where
  "spelled es = map (\<lambda>e. \<lparr>log_address = js ''0xr'', log_topics = spell e, log_data = []\<rparr>) es"

lemma parse_spelled:
  "parseEventLogs node_viem (from_registry (js ''0xr'') (spelled es)) = List.map_filter (event_of sample_text) es"
  by (induction es) (simp_all add: spelled_def node_viem_def from_registry_def map_filter_simps unspell_spell
      split: option.splits)

definition node_send :: "'x externals \<Rightarrow> tx_request \<Rightarrow> ('x node_world, hex) effect" where
  "node_send X tx = (\<lambda>(s, n, es).
     if tx_nonce tx \<noteq> Some n then (Inl (ErrorObject (js ''nonce'')), (s, n, es))
     else
       (case triggerOne X sample_wiring sample_call (of_nat (dec_value (tx_volumeId tx))) s of
          Inl _ \<Rightarrow> (Inr (js ''0xh''), (s, Suc n, None))
        | Inr (_, s') \<Rightarrow>
            (Inr (js ''0xh''), (s', Suc n, Some (drop (length (st_events s)) (st_events s'))))))"

definition node_estimate :: "'x externals \<Rightarrow> hex \<Rightarrow> ('x node_world, nat) effect" where
  "node_estimate X v = (\<lambda>(s, n, es).
     (case triggerOne X sample_wiring sample_call (of_nat (dec_value v)) s of
        Inl _ \<Rightarrow> Inl (ErrorObject (js ''execution reverted''))
      | Inr _ \<Rightarrow> Inr 21000, (s, n, es)))"

definition node_receipt :: "'x node_world \<Rightarrow> tx_receipt" where
  "node_receipt = (\<lambda>(s, n, es).
     \<lparr>receipt_status = (if es = None then js ''reverted'' else js ''success''), receipt_blockNumber = 8,
      receipt_gasUsed = 21000, receipt_logs = spelled (nullish es [])\<rparr>)"

definition node_client :: "'x externals \<Rightarrow> 'x node_world client" where
  "node_client X =
     \<lparr>client_address = js ''0xk'', client_chainId = Some 100, date_now = (\<lambda>w. (0, w)),
      get_block_number = (\<lambda>w. (Inr 7, w)),
      read_active_count = (\<lambda>_ _ w. (Inr (unat (activeVolumeCount sample_registry)), w)),
      multicall_active_pages = (\<lambda>_ _ calls w.
        (Inr (map (\<lambda>(off, len). registry_page sample_text sample_registry off len) calls), w)),
      multicall_volumes = (\<lambda>_ _ _ w. (Inr [], w)),
      get_transaction_count = (\<lambda>_ w. (Inr (fst (snd w)), w)),
      get_block = (\<lambda>w. (Inr \<lparr>baseFeePerGas = Some 1\<rparr>, w)),
      estimate_priority_fee = (\<lambda>w. (Inr 1, w)),
      simulate_trigger = (\<lambda>_ _ w. (Inr (), w)),
      estimate_trigger_gas = (\<lambda>_. node_estimate X),
      write_contract = node_send X,
      wait_for_receipt = (\<lambda>_ _ _ w. (Inr (node_receipt w), w)),
      get_balance = (\<lambda>_ w. (Inr 0, w))\<rparr>"

definition sample_node :: "('x node_world, 'x) node" where
  "sample_node = \<lparr>nd_chain = fst, nd_nonce = (\<lambda>w. fst (snd w)), nd_context = (\<lambda>_. sample_call),
     nd_gas = (\<lambda>_ _. 21000)\<rparr>"

lemma volume_text: "of_nat (dec_value (text32 sample_text v)) = v"
  by (simp add: sample_text_def)

lemma node_mines:
  "mines sample_node X sample_wiring sample_text node_viem (js ''0xr'') (node_client X)"
  using parse_spelled
  by (auto simp: mines_def sample_node_def node_client_def node_send_def node_receipt_def same_chain_def
      volume_text js_def split: sum.split)

lemma sample_honest:
  "honest_node sample_node X sample_wiring sample_text node_viem (js ''0xr'') (node_client X)"
proof -
  have "reads_only sample_node (node_client X)"
    by (simp add: reads_only_def node_client_def)
  moreover have "serves_sender sample_node X sample_wiring sample_text (js ''0xr'') (node_client X)"
    by (auto simp: serves_sender_def node_client_def sample_node_def node_estimate_def volume_text
        split: sum.split)
  ultimately show ?thesis using node_mines by (simp add: honest_node_def)
qed

section \<open>A disturbed node\<close>

text \<open>
  A stranger's call comes between the estimate and the send; the transaction is accepted at once but mined
  only while its receipt is waited for; whatever else is sent is refused.
\<close>

definition stranger :: "unit node_state \<Rightarrow> unit node_state" where
  "stranger n =
     (if length (activeVolumeIds (st_registry (ns_chain n))) < 2 ^ 32 then
        (case run_call sample_externals sample_wiring payer_call (Designate 9) (ns_chain n) of
           Inl _ \<Rightarrow> n
         | Inr s' \<Rightarrow> n\<lparr>ns_chain := s'\<rparr>)
      else n)"

definition disturbed_send :: "tx_request \<Rightarrow> (unit node_state, hex) effect" where
  "disturbed_send tx n =
     (if tx_volumeId tx = text32 sample_text 11 \<and> js ''0xh'' \<notin> fst ` set (ns_accepted n)
      then (Inr (js ''0xh''), n\<lparr>ns_accepted := ns_accepted n @ [(js ''0xh'', 11)]\<rparr>)
      else (Inl (ErrorObject (js ''refused'')), n))"

definition disturbed_wait :: "hex \<Rightarrow> (unit node_state, tx_receipt) effect" where
  "disturbed_wait h n =
     (if h = js ''0xh'' \<and> (h, 11) \<in> set (ns_accepted n) \<and> h \<notin> fst ` set (ns_mined n) then
        (case triggerOne sample_externals sample_wiring sample_call 11 (ns_chain n) of
           Inl _ \<Rightarrow> (Inl (ErrorObject (js ''timed out'')), n)
         | Inr (oc, s') \<Rightarrow>
             (Inr \<lparr>receipt_status = js ''success'', receipt_blockNumber = 9, receipt_gasUsed = 21000,
                receipt_logs = spelled (drop (length (st_events (ns_chain n))) (st_events s'))\<rparr>,
              n\<lparr>ns_chain := s', ns_mined := ns_mined n @ [(h, 11, sample_call, ns_chain n)]\<rparr>))
      else (Inl (ErrorObject (js ''timed out'')), n))"

definition disturbed_client :: "unit node_state client" where
  "disturbed_client =
     \<lparr>client_address = js ''0xk'', client_chainId = Some 100, date_now = (\<lambda>n. (0, n)),
      get_block_number = (\<lambda>n. (Inr 7, n)),
      read_active_count = (\<lambda>_ _ n. (Inr (unat (activeVolumeCount sample_registry)), n)),
      multicall_active_pages = (\<lambda>_ _ calls n.
        (Inr (map (\<lambda>(off, len). registry_page sample_text sample_registry off len) calls), n)),
      multicall_volumes = (\<lambda>_ _ _ n. (Inr [], n)),
      get_transaction_count = (\<lambda>_ n. (Inr (length (ns_accepted n)), n)),
      get_block = (\<lambda>n. (Inr \<lparr>baseFeePerGas = None\<rparr>, n)),
      estimate_priority_fee = (\<lambda>n. (Inr 1, n)),
      simulate_trigger = (\<lambda>_ _ n. (Inr (), n)),
      estimate_trigger_gas = (\<lambda>_ _ n. (Inr 21000, stranger n)),
      write_contract = disturbed_send,
      wait_for_receipt = (\<lambda>h _ _. disturbed_wait h),
      get_balance = (\<lambda>_ n. (Inl (ErrorObject (js ''down'')), n))\<rparr>"

lemma stranger_runs: "node_runs sample_externals sample_wiring n (stranger n)"
  unfolding stranger_def
  by (auto split: sum.split intro!: r_into_rtranclp node_step.others registry_step.call simp del: run_call.simps)

lemma wait_runs: "node_runs sample_externals sample_wiring n (snd (disturbed_wait h n))"
  by (auto simp: disturbed_wait_def split: sum.split intro!: r_into_rtranclp node_step.mined)

lemma disturbed_truth:
  "truthful_receipts (\<lambda>n. n) sample_externals sample_wiring sample_text node_viem (js ''0xr'') disturbed_client"
proof -
  have "\<exists>v c s oc s'. (h, v, c, s) \<in> set (ns_mined w1) \<and>
      triggerOne sample_externals sample_wiring c v s = Inr (oc, s') \<and>
      (\<forall>es. st_events s' = st_events s @ es \<longrightarrow>
         parseEventLogs node_viem (from_registry (js ''0xr'') (receipt_logs receipt)) =
           List.map_filter (event_of sample_text) es)"
    if wait: "disturbed_wait h w = (Inr receipt, w1)" for h w receipt w1
  proof -
    obtain oc s' where t: "triggerOne sample_externals sample_wiring sample_call 11 (ns_chain w) = Inr (oc, s')"
      "receipt_logs receipt = spelled (drop (length (st_events (ns_chain w))) (st_events s'))"
      "(h, 11, sample_call, ns_chain w) \<in> set (ns_mined w1)"
      using wait by (auto simp: disturbed_wait_def split: if_splits sum.splits prod.splits)
    then show ?thesis by (intro exI conjI allI impI) (rule t, rule t, simp add: t(2) parse_spelled)
  qed
  then show ?thesis unfolding truthful_receipts_def disturbed_client_def by simp
qed

lemma disturbed_faulty:
  "faulty_node (\<lambda>n. n) sample_externals sample_wiring sample_text node_viem (js ''0xr'') disturbed_client"
proof -
  have "may_accept (\<lambda>n. n) sample_externals sample_wiring sample_text (js ''0xr'') disturbed_client"
    unfolding may_accept_def
  proof (intro allI impI)
    fix tx v w x w1
    assume tx: "tx_volumeId tx = text32 sample_text v"
      and sent: "write_contract disturbed_client tx w = (x, w1)"
    show "(is_Inl x \<and> node_runs sample_externals sample_wiring w w1) \<or>
      (\<exists>n h. node_runs sample_externals sample_wiring w n \<and> h \<notin> fst ` set (ns_accepted n) \<and>
         node_runs sample_externals sample_wiring (n\<lparr>ns_accepted := ns_accepted n @ [(h, v)]\<rparr>) w1 \<and>
         (x = Inr h \<or> is_Inl x))"
    proof (cases "tx_volumeId tx = text32 sample_text 11 \<and> js ''0xh'' \<notin> fst ` set (ns_accepted w)")
      case True
      then have "unat v = unat (11 :: bytes32)" using tx by (simp add: sample_text_def)
      then have "v = 11" by (rule unsigned_word_eqI)
      then show ?thesis using True sent
        by (intro disjI2 exI [of _ w] exI [of _ "js ''0xh''"])
          (auto simp: disturbed_client_def disturbed_send_def)
    next
      case False
      then have "disturbed_send tx w = (Inl (ErrorObject (js ''refused'')), w)"
        unfolding disturbed_send_def by (rule if_not_P)
      then show ?thesis using sent by (auto simp: disturbed_client_def)
    qed
  qed
  moreover have "faulty_reads (\<lambda>n. n) sample_externals sample_wiring disturbed_client"
    by (simp add: faulty_reads_def lets_run_def disturbed_client_def stranger_runs wait_runs)
  ultimately show ?thesis using disturbed_truth by (simp add: faulty_node_def)
qed

definition sample_node_state :: "unit node_state" where
  "sample_node_state = \<lparr>ns_chain = sample_chain, ns_accepted = [], ns_mined = []\<rparr>"

lemma sample_node_sound: "node_sound sample_node_state"
  using sample_active_set by (simp add: node_sound_def sample_node_state_def)

end
