(* ===== verification/IndexerLog.thy ===== *)
theory IndexerLog
  imports KeeperPrelude "HOL-Library.Product_Lexorder" "HOL-Library.Multiset" "HOL-Library.AList"
begin

text \<open>
  \<open>services/indexer/src/ethswarm_volumes/model.py\<close>: the event log of the Python indexer. A row is one decoded
  log of the chain; the log keeps one list per event type, each in chain order, and a reader merges the
  types it wants. A \<open>dict\<close> is an association list in insertion order, a \<open>datetime\<close> its whole UTC seconds,
  and a \<open>str\<close> a \<open>string\<close>. Python's \<open>sorted\<close> is stable, as \<open>sort_key\<close> is.
\<close>

section \<open>Rows\<close>

type_synonym deployment_id = "int \<times> string"

datatype arg = ArgInt int | ArgText string

record event_row =
  row_deployment :: deployment_id
  row_block :: nat
  row_ts :: nat
  row_tx :: string
  row_tx_index :: nat
  row_log_index :: nat
  row_emitter :: string
  row_event :: string
  row_args :: "string \<rightharpoonup> arg"

text \<open>The place of a log in its chain.\<close>

definition position :: "event_row \<Rightarrow> nat \<times> nat" where
  "position r = (row_block r, row_log_index r)"

section \<open>The log\<close>

type_synonym event_log = "(string \<times> event_row list) list"

text \<open>\<open>buckets.setdefault(name, []).append(row)\<close>.\<close>

fun bucket_append :: "string \<Rightarrow> 'a \<Rightarrow> (string \<times> 'a list) list \<Rightarrow> (string \<times> 'a list) list" where
  "bucket_append n r [] = [(n, [r])]"
| "bucket_append n r ((k, rs) # rest) =
     (if k = n then (k, rs @ [r]) # rest else (k, rs) # bucket_append n r rest)"

definition buckets :: "event_row list \<Rightarrow> event_log" where
  "buckets rows = foldl (\<lambda>b r. bucket_append (row_event r) r b) [] rows"

definition from_rows :: "event_row list \<Rightarrow> event_log" where
  "from_rows rows = map (\<lambda>(n, rs). (n, sort_key position rs)) (buckets rows)"

text \<open>\<open>by_event.get(name, ())\<close>.\<close>

definition rows_named :: "(string \<times> 'a list) list \<Rightarrow> string \<Rightarrow> 'a list" where
  "rows_named l n = (case map_of l n of None \<Rightarrow> [] | Some rs \<Rightarrow> rs)"

definition log_of :: "event_log \<Rightarrow> string list \<Rightarrow> event_row list" where
  "log_of l names = sort_key position (concat (map (rows_named l) names))"

definition log_merged :: "event_log \<Rightarrow> event_row list" where
  "log_merged l = log_of l (map fst l)"

definition for_deployment :: "deployment_id \<Rightarrow> event_log \<Rightarrow> event_log" where
  "for_deployment d l = map (\<lambda>(n, rs). (n, filter (\<lambda>r. row_deployment r = d) rs)) l"

section \<open>What the buckets hold\<close>

lemma rows_named_append:
  "rows_named (bucket_append k r b) n = rows_named b n @ (if k = n then [r] else [])"
  by (induction b) (auto simp: rows_named_def)

lemma keys_bucket_append:
  "map fst (bucket_append k r b) = map fst b @ (if k \<in> set (map fst b) then [] else [k])"
proof (induction b)
  case (Cons x b)
  then show ?case by (cases x) simp
qed simp

lemma buckets_snoc: "buckets (rows @ [r]) = bucket_append (row_event r) r (buckets rows)"
  by (simp add: buckets_def)

lemma rows_named_buckets: "rows_named (buckets rows) n = filter (\<lambda>r. row_event r = n) rows"
proof (induction rows rule: rev_induct)
  case Nil
  then show ?case by (simp add: buckets_def rows_named_def)
next
  case (snoc r rows)
  then show ?case by (simp add: buckets_snoc rows_named_append)
qed

lemma buckets_keys: "distinct (map fst (buckets rows)) \<and> set (map fst (buckets rows)) = row_event ` set rows"
proof (induction rows rule: rev_induct)
  case Nil
  then show ?case by (simp add: buckets_def)
next
  case (snoc r rows)
  then show ?case unfolding buckets_snoc keys_bucket_append by auto
qed

lemma rows_named_map:
  "f [] = [] \<Longrightarrow> rows_named (map (\<lambda>(n, rs). (n, f rs)) l) n = f (rows_named l n)"
  by (induction l) (auto simp: rows_named_def)

lemma rows_named_from_rows:
  "rows_named (from_rows rows) n = sort_key position (filter (\<lambda>r. row_event r = n) rows)"
  unfolding from_rows_def by (subst rows_named_map) (simp_all add: rows_named_buckets)

lemma rows_named_for_deployment:
  "rows_named (for_deployment d l) n = filter (\<lambda>r. row_deployment r = d) (rows_named l n)"
  unfolding for_deployment_def by (rule rows_named_map) simp

lemma keys_for_deployment [simp]: "map fst (for_deployment d l) = map fst l"
  by (simp add: for_deployment_def case_prod_unfold)

lemma from_rows_keys:
  "distinct (map fst (from_rows rows))" "set (map fst (from_rows rows)) = row_event ` set rows"
  using buckets_keys [of rows] by (simp_all add: from_rows_def comp_def case_prod_beta flip: set_map)

section \<open>Chain order\<close>

text \<open>Rows at different places have one chain order, whatever order they came in.\<close>

lemma chain_order_unique:
  "inj_on position (set xs) \<Longrightarrow> mset xs = mset ys \<Longrightarrow> sort_key position xs = sort_key position ys"
  by (rule sort_key_inj_key_eq) auto

lemma mset_named:
  assumes "distinct names"
  shows "mset (concat (map (\<lambda>n. filter (\<lambda>r. P r \<and> row_event r = n) rows) names)) =
    mset (filter (\<lambda>r. P r \<and> row_event r \<in> set names) rows)"
  using assms
proof (induction names)
  case Nil
  then show ?case by simp
next
  case (Cons n names)
  have "filter_mset (\<lambda>r. P r \<and> row_event r \<in> set (n # names)) (mset rows) =
      filter_mset (\<lambda>r. P r \<and> row_event r = n) (mset rows) +
      filter_mset (\<lambda>r. P r \<and> row_event r \<in> set names) (mset rows)"
    by (rule multiset_eqI) (use Cons.prems in auto)
  then show ?case using Cons by simp
qed

lemma log_of_deployment:
  assumes "inj_on position (set rows)" "distinct names"
  shows "log_of (for_deployment d (from_rows rows)) names =
    sort_key position (filter (\<lambda>r. row_deployment r = d \<and> row_event r \<in> set names) rows)"
proof -
  have "mset (concat (map (rows_named (for_deployment d (from_rows rows))) names)) =
      mset (concat (map (\<lambda>n. filter (\<lambda>r. row_deployment r = d \<and> row_event r = n) rows) names))"
    by (induction names) (simp_all add: rows_named_for_deployment rows_named_from_rows filter_filter_mset conj_commute)
  also have "\<dots> = mset (filter (\<lambda>r. row_deployment r = d \<and> row_event r \<in> set names) rows)"
    by (rule mset_named [OF assms(2)])
  finally have m: "mset (concat (map (rows_named (for_deployment d (from_rows rows))) names)) =
      mset (filter (\<lambda>r. row_deployment r = d \<and> row_event r \<in> set names) rows)" .
  then have "set (concat (map (rows_named (for_deployment d (from_rows rows))) names)) \<subseteq> set rows"
    by (metis filter_is_subset set_mset_mset)
  then show ?thesis unfolding log_of_def
    by (rule chain_order_unique [OF inj_on_subset [OF assms(1)] m])
qed

lemma log_of_from_rows:
  assumes "inj_on position (set rows)" "distinct names"
  shows "log_of (from_rows rows) names = sort_key position (filter (\<lambda>r. row_event r \<in> set names) rows)"
proof -
  have "mset (concat (map (rows_named (from_rows rows)) names)) =
      mset (concat (map (\<lambda>n. filter (\<lambda>r. True \<and> row_event r = n) rows) names))"
    by (induction names) (simp_all add: rows_named_from_rows)
  also have "\<dots> = mset (filter (\<lambda>r. True \<and> row_event r \<in> set names) rows)"
    by (rule mset_named [OF assms(2)])
  finally have m: "mset (concat (map (rows_named (from_rows rows)) names)) =
      mset (filter (\<lambda>r. row_event r \<in> set names) rows)" by simp
  then have "set (concat (map (rows_named (from_rows rows)) names)) \<subseteq> set rows"
    by (metis filter_is_subset set_mset_mset)
  then show ?thesis unfolding log_of_def
    by (rule chain_order_unique [OF inj_on_subset [OF assms(1)] m])
qed

lemma log_merged_from_rows:
  assumes "inj_on position (set rows)"
  shows "log_merged (from_rows rows) = sort_key position rows"
proof -
  have "filter (\<lambda>r. row_event r \<in> set (map fst (from_rows rows))) rows = rows"
    unfolding from_rows_keys(2) by (rule filter_True) auto
  then show ?thesis unfolding log_merged_def by (subst log_of_from_rows [OF assms from_rows_keys(1)]) simp
qed

text \<open>A merge keeps every row, whatever their places.\<close>

lemma mset_log_merged: "mset (log_merged (from_rows rows)) = mset rows"
proof -
  define names where "names = map fst (from_rows rows)"
  have all: "filter (\<lambda>r. True \<and> row_event r \<in> set names) rows = rows"
    unfolding names_def from_rows_keys(2) by (rule filter_True) auto
  have "mset (concat (map (rows_named (from_rows rows)) names)) =
      mset (concat (map (\<lambda>n. filter (\<lambda>r. True \<and> row_event r = n) rows) names))"
    by (induction names) (simp_all add: rows_named_from_rows)
  also have "\<dots> = mset rows"
    using mset_named [OF from_rows_keys(1), of "\<lambda>_. True" rows rows] all unfolding names_def by argo
  finally show ?thesis unfolding log_merged_def log_of_def mset_sort names_def .
qed

lemma log_merged_sorted: "sorted (map position (log_merged l))"
  by (simp add: log_merged_def log_of_def)

end
