(* ===== verification/IndexerProject.thy ===== *)
theory IndexerProject
  imports IndexerLog
begin

text \<open>
  \<open>services/indexer/src/ethswarm_volumes/project.py\<close> and \<open>capacity.py\<close>: the rows of a deployment's log folded into
  its entry of the published file. A raised \<open>KeyError\<close> or \<open>IndexError\<close> is \<open>None\<close>, and so is an argument that is not of
  the type the code uses it at. A date is the index of its UTC day, a \<open>dict\<close> an association list in insertion
  order. Floats are the parameters \<open>bzz\<close>, the division by \<open>PLUR_PER_BZZ\<close>, \<open>fsum\<close>, the built-in \<open>sum\<close>, and
  \<open>fzero\<close>, the literal 0.0.
\<close>

section \<open>Capacity of a depth\<close>

definition nominal_bytes :: "int \<Rightarrow> int option" where
  "nominal_bytes depth = (if depth < 0 then None else Some (push_bit (nat depth) 1 * 4096))"

definition EFFECTIVE_BYTES :: "(int \<times> int) list" where
  "EFFECTIVE_BYTES =
     [(17, 44700), (18, 6660000), (19, 112060000), (20, 687620000), (21, 2600000000), (22, 7730000000),
      (23, 19940000000), (24, 47060000000), (25, 105510000000), (26, 227980000000), (27, 476680000000),
      (28, 993650000000), (29, 2040000000000), (30, 4170000000000), (31, 8450000000000),
      (32, 17070000000000), (33, 34360000000000), (34, 69040000000000), (35, 138540000000000),
      (36, 277720000000000), (37, 556350000000000), (38, 1110000000000000), (39, 2230000000000000),
      (40, 4460000000000000), (41, 8930000000000000)]"

definition effective_bytes :: "int \<Rightarrow> int option" where
  "effective_bytes depth = map_of EFFECTIVE_BYTES depth"

section \<open>Days\<close>

abbreviation ONE_DAY :: nat where
  "ONE_DAY \<equiv> 86400"

definition day_end :: "nat \<Rightarrow> nat \<Rightarrow> nat" where
  "day_end day_index as_of_ts =
     (if day_index = as_of_ts div ONE_DAY then as_of_ts else (day_index + 1) * ONE_DAY - 1)"

definition text_arg :: "event_row \<Rightarrow> string \<Rightarrow> string option" where
  "text_arg r k = (case row_args r k of Some (ArgText t) \<Rightarrow> Some t | _ \<Rightarrow> None)"

definition int_arg :: "event_row \<Rightarrow> string \<Rightarrow> int option" where
  "int_arg r k = (case row_args r k of Some (ArgInt i) \<Rightarrow> Some i | _ \<Rightarrow> None)"

section \<open>Fee volume\<close>

record 'f daily_fee =
  fee_date :: nat
  fee_bzz :: 'f

fun fee_days ::
  "nat \<Rightarrow> event_row list \<Rightarrow> (nat \<rightharpoonup> int) \<Rightarrow> nat option \<Rightarrow> ((nat \<rightharpoonup> int) \<times> nat option) option" where
  "fee_days as_of [] per_day first_day = Some (per_day, first_day)"
| "fee_days as_of (row # rows) per_day first_day =
     (if as_of < row_ts row then fee_days as_of rows per_day first_day
      else
        (let day = row_ts row div ONE_DAY in
         case int_arg row ''value'' of
           None \<Rightarrow> None
         | Some v \<Rightarrow>
             fee_days as_of rows
               (per_day(day \<mapsto> (case per_day day of None \<Rightarrow> 0 | Some x \<Rightarrow> x) + v))
               (Some (case first_day of None \<Rightarrow> day | Some f \<Rightarrow> min f day))))"

definition fee_volume_daily :: "(int \<Rightarrow> 'f) \<Rightarrow> event_log \<Rightarrow> nat \<Rightarrow> 'f daily_fee list option" where
  "fee_volume_daily bzz events as_of =
     (case fee_days as_of (log_of events [''Transfer'']) Map.empty None of
        None \<Rightarrow> None
      | Some (per_day, first_day) \<Rightarrow>
          (let as_of_day = as_of div ONE_DAY;
               start = (case first_day of None \<Rightarrow> as_of_day | Some f \<Rightarrow> f)
           in Some (map (\<lambda>d. \<lparr>fee_date = d, fee_bzz = bzz (case per_day d of None \<Rightarrow> 0 | Some x \<Rightarrow> x)\<rparr>)
                [start..<as_of_day + 1])))"

section \<open>Capacity\<close>

definition ADMIT_EVENTS :: "string list" where
  "ADMIT_EVENTS = [''VolumeCreated'', ''VolumeImported'']"

fun replay_active :: "nat \<Rightarrow> event_row list \<Rightarrow> (string \<times> int) list \<Rightarrow> (string \<times> int) list option" where
  "replay_active cutoff [] active = Some active"
| "replay_active cutoff (row # rows) active =
     (if cutoff < row_ts row then Some active
      else
        (case text_arg row ''volume_id'' of
           None \<Rightarrow> None
         | Some v \<Rightarrow>
             if row_event row \<in> set ADMIT_EVENTS then
               (case int_arg row ''depth'' of
                  None \<Rightarrow> None
                | Some d \<Rightarrow> replay_active cutoff rows (AList.update v d active))
             else replay_active cutoff rows (AList.delete v active)))"

definition active_set_at :: "event_log \<Rightarrow> nat \<Rightarrow> (string \<times> int) list option" where
  "active_set_at events cutoff = replay_active cutoff (log_of events (ADMIT_EVENTS @ [''VolumeRetired''])) []"

record daily_capacity =
  cap_date :: nat
  cap_volumes :: nat
  cap_nominal :: int
  cap_effective :: int

definition capacity_day :: "event_log \<Rightarrow> nat \<Rightarrow> nat \<Rightarrow> daily_capacity option" where
  "capacity_day events as_of day =
     (case active_set_at events (day_end day as_of) of
        None \<Rightarrow> None
      | Some active \<Rightarrow>
     (case those (map (\<lambda>(_, d). nominal_bytes d) active) of
        None \<Rightarrow> None
      | Some nominal \<Rightarrow>
     (case those (map (\<lambda>(_, d). effective_bytes d) active) of
        None \<Rightarrow> None
      | Some effective \<Rightarrow>
          Some \<lparr>cap_date = day, cap_volumes = length active, cap_nominal = sum_list nominal,
                cap_effective = sum_list effective\<rparr>)))"

text \<open>The day of the earliest of some rows that are not behind \<open>as_of\<close>.\<close>

definition first_day_of :: "event_row list \<Rightarrow> nat \<Rightarrow> nat" where
  "first_day_of rows as_of =
     (case map (\<lambda>r. row_ts r div ONE_DAY) (filter (\<lambda>r. row_ts r \<le> as_of) rows) of
        [] \<Rightarrow> as_of div ONE_DAY
      | d # ds \<Rightarrow> foldl min d ds)"

definition capacity_daily :: "event_log \<Rightarrow> nat \<Rightarrow> daily_capacity list option" where
  "capacity_daily events as_of =
     those (map (capacity_day events as_of)
       [first_day_of (log_of events ADMIT_EVENTS) as_of..<as_of div ONE_DAY + 1])"

section \<open>Accounts\<close>

fun replay_accounts :: "nat \<Rightarrow> event_row list \<Rightarrow> string set \<Rightarrow> string set option" where
  "replay_accounts cutoff [] active = Some active"
| "replay_accounts cutoff (row # rows) active =
     (if cutoff < row_ts row then Some active
      else
        (case text_arg row ''owner'' of
           None \<Rightarrow> None
         | Some owner \<Rightarrow>
             replay_accounts cutoff rows
               (if row_event row = ''AccountActivated'' then insert owner active else active - {owner})))"

definition authorized_at :: "event_log \<Rightarrow> nat \<Rightarrow> nat option" where
  "authorized_at events cutoff =
     map_option card (replay_accounts cutoff (log_of events [''AccountActivated'', ''AccountRevoked'']) {})"

record daily_accounts =
  acc_date :: nat
  acc_authorized :: nat

definition accounts_daily :: "event_log \<Rightarrow> nat \<Rightarrow> daily_accounts list option" where
  "accounts_daily events as_of =
     those (map (\<lambda>day. map_option (\<lambda>n. \<lparr>acc_date = day, acc_authorized = n\<rparr>)
         (authorized_at events (day_end day as_of)))
       [first_day_of (log_of events [''AccountActivated'', ''AccountRevoked'']) as_of..<as_of div ONE_DAY + 1])"

section \<open>Paying accounts\<close>

fun timeline_rows ::
  "event_row list \<Rightarrow> (string \<times> (nat \<times> string) list) list \<Rightarrow> (string \<times> (nat \<times> string) list) list option" where
  "timeline_rows [] timeline = Some timeline"
| "timeline_rows (row # rows) timeline =
     (case text_arg row (if row_event row \<in> set ADMIT_EVENTS then ''owner'' else ''to'') of
        None \<Rightarrow> None
      | Some owner \<Rightarrow>
     (case text_arg row ''volume_id'' of
        None \<Rightarrow> None
      | Some v \<Rightarrow> timeline_rows rows (bucket_append v (row_block row, owner) timeline)))"

definition owner_timeline :: "event_log \<Rightarrow> (string \<times> (nat \<times> string) list) list option" where
  "owner_timeline events = timeline_rows (log_of events (ADMIT_EVENTS @ [''VolumeOwnershipTransferred''])) []"

fun last_owner :: "nat \<Rightarrow> (nat \<times> string) list \<Rightarrow> string option \<Rightarrow> string option" where
  "last_owner block [] owner = owner"
| "last_owner block ((b, n) # rest) owner = (if b \<le> block then last_owner block rest (Some n) else owner)"

definition owner_at :: "(string \<times> (nat \<times> string) list) list \<Rightarrow> string \<Rightarrow> nat \<Rightarrow> string option" where
  "owner_at timeline v block = last_owner block (rows_named timeline v) None"

definition by_tx :: "event_row list \<Rightarrow> (string \<times> event_row list) list" where
  "by_tx rows = foldl (\<lambda>b r. bucket_append (row_tx r) r b) [] rows"

definition payments :: "event_log \<Rightarrow> (nat \<times> string \<times> nat) list option" where
  "payments events =
     (let rows = log_of events [''Transfer'', ''Toppedup'', ''VolumeCreated''];
          transfers = by_tx (filter (\<lambda>r. row_event r = ''Transfer'') rows);
          siblings = by_tx (filter (\<lambda>r. row_event r \<noteq> ''Transfer'') rows)
      in those (concat (map (\<lambda>(tx, ts).
           map (\<lambda>(t, sib). map_option (\<lambda>v. (row_ts t, v, row_block t)) (text_arg sib ''volume_id''))
             (zip ts (rows_named siblings tx))) transfers)))"

definition PAID_IN_WINDOW_DAYS :: "nat list" where
  "PAID_IN_WINDOW_DAYS = [1, 7, 30]"

definition paid_in_window :: "event_log \<Rightarrow> nat \<Rightarrow> nat list \<Rightarrow> (nat \<times> nat) list option" where
  "paid_in_window events as_of windows =
     (case owner_timeline events of
        None \<Rightarrow> None
      | Some timeline \<Rightarrow>
     (case payments events of
        None \<Rightarrow> None
      | Some ps \<Rightarrow>
          Some (map (\<lambda>n. (n, card (set (List.map_filter (\<lambda>(ts, v, block).
              if int as_of - int (n * ONE_DAY) \<le> int ts \<and> ts \<le> as_of then owner_at timeline v block
              else None) ps)))) windows)))"

section \<open>The entry\<close>

text \<open>\<open>_pad_front\<close>, over a series whose items have a date.\<close>

definition pad_front :: "('d \<Rightarrow> nat) \<Rightarrow> 'd list \<Rightarrow> nat \<Rightarrow> (nat \<Rightarrow> 'd) \<Rightarrow> 'd list" where
  "pad_front date series genesis_day make_zero =
     (case series of
        [] \<Rightarrow> series
      | x # _ \<Rightarrow>
          if date x \<le> genesis_day then series else map make_zero [genesis_day..<date x] @ series)"

record 'e deployment =
  dep_label :: string
  dep_chain_id :: int
  dep_registry :: string
  dep_version :: string
  dep_genesis_ts :: nat
  dep_fiat :: "string list"
  dep_extra :: 'e

record 'f snapshot =
  snap_fee_total :: 'f
  snap_volumes :: nat
  snap_nominal :: int
  snap_effective :: int
  snap_authorized :: nat
  snap_paid :: "(nat \<times> nat) list"

record ('e, 'f, 'p) artifact_entry =
  ent_deployment :: "'e deployment"
  ent_as_of_block :: int
  ent_as_of_ts :: nat
  ent_snapshot :: "'f snapshot"
  ent_fee :: "'f daily_fee list"
  ent_capacity :: "daily_capacity list"
  ent_accounts :: "daily_accounts list"
  ent_prices :: "'p list"

definition project_entry ::
  "(int \<Rightarrow> 'f) \<Rightarrow> ('f list \<Rightarrow> 'f) \<Rightarrow> 'f \<Rightarrow> 'e deployment \<Rightarrow> event_log \<Rightarrow> 'p list \<Rightarrow> int \<Rightarrow> nat \<Rightarrow>
     ('e, 'f, 'p) artifact_entry option" where
  "project_entry bzz fsum fzero d events price_daily as_of_block as_of =
     (let ev = for_deployment (dep_chain_id d, dep_registry d) events in
      case fee_volume_daily bzz ev as_of of
        None \<Rightarrow> None
      | Some fee0 \<Rightarrow>
     (case capacity_daily ev as_of of
        None \<Rightarrow> None
      | Some cap0 \<Rightarrow>
     (case accounts_daily ev as_of of
        None \<Rightarrow> None
      | Some acc0 \<Rightarrow>
     (case paid_in_window ev as_of PAID_IN_WINDOW_DAYS of
        None \<Rightarrow> None
      | Some piw \<Rightarrow>
          (let genesis_day = dep_genesis_ts d div ONE_DAY;
               fee = pad_front fee_date fee0 genesis_day (\<lambda>x. \<lparr>fee_date = x, fee_bzz = fzero\<rparr>);
               cap = pad_front cap_date cap0 genesis_day
                 (\<lambda>x. \<lparr>cap_date = x, cap_volumes = 0, cap_nominal = 0, cap_effective = 0\<rparr>);
               acc = pad_front acc_date acc0 genesis_day (\<lambda>x. \<lparr>acc_date = x, acc_authorized = 0\<rparr>)
           in if cap = [] \<or> acc = [] then None
              else
                Some \<lparr>ent_deployment = d, ent_as_of_block = as_of_block, ent_as_of_ts = as_of,
                  ent_snapshot =
                    \<lparr>snap_fee_total = fsum (map fee_bzz fee), snap_volumes = cap_volumes (last cap),
                     snap_nominal = cap_nominal (last cap), snap_effective = cap_effective (last cap),
                     snap_authorized = acc_authorized (last acc), snap_paid = piw\<rparr>,
                  ent_fee = fee, ent_capacity = cap, ent_accounts = acc, ent_prices = price_daily\<rparr>)))))"

section \<open>What a selection of the log holds\<close>

lemma set_log_of: "set (log_of l names) = (\<Union>n \<in> set names. set (rows_named l n))"
  by (simp add: log_of_def)

lemma deployment_rows:
  "set (log_of (for_deployment d (from_rows rows)) names) =
     {r \<in> set rows. row_deployment r = d \<and> row_event r \<in> set names}"
  by (auto simp: set_log_of rows_named_for_deployment rows_named_from_rows)

lemma those_map:
  "list_all (\<lambda>x. f x \<noteq> None) xs \<Longrightarrow> those (map f xs) = Some (map (\<lambda>x. the (f x)) xs)"
  by (induction xs) auto

lemma those_None: "None \<in> set xs \<Longrightarrow> those xs = None"
  by (induction xs) (auto split: option.splits)

section \<open>Typed rows\<close>

text \<open>
  The arguments the projector reads, at their types, and a depth the tables know. The decoder gives every
  row its arguments.
\<close>

definition known_depth :: "int \<Rightarrow> bool" where
  "known_depth d \<longleftrightarrow> 17 \<le> d \<and> d \<le> 41"

definition typed_row :: "event_row \<Rightarrow> bool" where
  "typed_row r \<longleftrightarrow>
     (row_event r = ''Transfer'' \<longrightarrow> int_arg r ''value'' \<noteq> None) \<and>
     (row_event r \<in> set ADMIT_EVENTS \<longrightarrow>
        text_arg r ''owner'' \<noteq> None \<and> int_arg r ''depth'' \<noteq> None \<and> known_depth (the (int_arg r ''depth''))) \<and>
     (row_event r \<in> set (ADMIT_EVENTS @ [''VolumeRetired'', ''Toppedup'', ''VolumeOwnershipTransferred'']) \<longrightarrow>
        text_arg r ''volume_id'' \<noteq> None) \<and>
     (row_event r \<in> {''AccountActivated'', ''AccountRevoked''} \<longrightarrow> text_arg r ''owner'' \<noteq> None) \<and>
     (row_event r = ''VolumeOwnershipTransferred'' \<longrightarrow> text_arg r ''to'' \<noteq> None)"

lemma effective_known: "effective_bytes d \<noteq> None \<longleftrightarrow> known_depth d"
proof -
  have "effective_bytes d \<noteq> None \<longleftrightarrow> d \<in> set [17..41]"
    unfolding effective_bytes_def map_of_eq_None_iff not_not
    by (simp add: EFFECTIVE_BYTES_def upto.simps)
  then show ?thesis by (simp only: known_depth_def set_upto atLeastAtMost_iff)
qed

lemma nominal_known: "known_depth d \<Longrightarrow> nominal_bytes d = Some (2 ^ nat d * 4096)"
  by (simp add: known_depth_def nominal_bytes_def push_bit_eq_mult)

section \<open>Fees\<close>

definition fee_of :: "event_row \<Rightarrow> int" where
  "fee_of r = (case int_arg r ''value'' of None \<Rightarrow> 0 | Some v \<Rightarrow> v)"

definition fees_on :: "event_row list \<Rightarrow> nat \<Rightarrow> nat \<Rightarrow> int" where
  "fees_on rows as_of d = sum_list (map fee_of (filter (\<lambda>r. row_ts r \<le> as_of \<and> row_ts r div ONE_DAY = d) rows))"

abbreviation or_zero :: "int option \<Rightarrow> int" where
  "or_zero x \<equiv> (case x of None \<Rightarrow> 0 | Some n \<Rightarrow> n)"

definition days_upto :: "event_row list \<Rightarrow> nat \<Rightarrow> nat list" where
  "days_upto rows as_of = map (\<lambda>r. row_ts r div ONE_DAY) (filter (\<lambda>r. row_ts r \<le> as_of) rows)"

lemma fee_days_result:
  assumes "list_all (\<lambda>r. int_arg r ''value'' \<noteq> None) rows"
  shows "\<exists>per_day'. fee_days as_of rows per_day first_day = Some (per_day',
      case first_day of None \<Rightarrow> (case days_upto rows as_of of [] \<Rightarrow> None | d # ds \<Rightarrow> Some (foldl min d ds))
      | Some f \<Rightarrow> Some (foldl min f (days_upto rows as_of))) \<and>
    (\<forall>d. or_zero (per_day' d) = or_zero (per_day d) + fees_on rows as_of d)"
  using assms
proof (induction as_of rows per_day first_day rule: fee_days.induct)
  case (1 as_of per_day first_day)
  then show ?case by (auto simp: fees_on_def days_upto_def split: option.splits)
next
  case (2 as_of row rows per_day first_day)
  show ?case
  proof (cases "as_of < row_ts row")
    case True
    then have same: "days_upto (row # rows) as_of = days_upto rows as_of"
      "\<And>d. fees_on (row # rows) as_of d = fees_on rows as_of d" by (auto simp: days_upto_def fees_on_def)
    show ?thesis using 2 True unfolding same by simp
  next
    case False
    let ?day = "row_ts row div ONE_DAY"
    obtain v where v: "int_arg row ''value'' = Some v" using 2(3) by auto
    have days: "days_upto (row # rows) as_of = ?day # days_upto rows as_of"
      and fees: "\<And>d. fees_on (row # rows) as_of d = (if ?day = d then v else 0) + fees_on rows as_of d"
      using False v by (auto simp: days_upto_def fees_on_def fee_of_def)
    have rows: "list_all (\<lambda>r. int_arg r ''value'' \<noteq> None) rows" using 2(3) by simp
    from 2(2) [OF False refl v rows] obtain p where p:
      "fee_days as_of rows (per_day(?day \<mapsto> or_zero (per_day ?day) + v))
         (Some (case first_day of None \<Rightarrow> ?day | Some f \<Rightarrow> min f ?day)) =
       Some (p, Some (foldl min (case first_day of None \<Rightarrow> ?day | Some f \<Rightarrow> min f ?day) (days_upto rows as_of)))"
      "\<And>d. or_zero (p d) = or_zero ((per_day(?day \<mapsto> or_zero (per_day ?day) + v)) d) + fees_on rows as_of d"
      by (auto simp del: fun_upd_apply)
    show ?thesis using False v p days fees by (cases first_day) (auto simp: Let_def)
  qed
qed

lemma first_day_days:
  "first_day_of rows as_of = (case days_upto rows as_of of [] \<Rightarrow> as_of div ONE_DAY | d # ds \<Rightarrow> foldl min d ds)"
  by (simp add: first_day_of_def days_upto_def)

lemma fee_series:
  assumes "list_all (\<lambda>r. int_arg r ''value'' \<noteq> None) (log_of events [''Transfer''])"
  shows "fee_volume_daily bzz events as_of =
    Some (map (\<lambda>d. \<lparr>fee_date = d, fee_bzz = bzz (fees_on (log_of events [''Transfer'']) as_of d)\<rparr>)
      [first_day_of (log_of events [''Transfer'']) as_of..<as_of div ONE_DAY + 1])"
proof -
  obtain p where "fee_days as_of (log_of events [''Transfer'']) Map.empty None = Some (p,
      case days_upto (log_of events [''Transfer'']) as_of of [] \<Rightarrow> None | d # ds \<Rightarrow> Some (foldl min d ds))"
    "\<And>d. or_zero (p d) = fees_on (log_of events [''Transfer'']) as_of d"
    using fee_days_result [OF assms, of as_of Map.empty None] by auto
  then show ?thesis
    by (simp add: fee_volume_daily_def Let_def first_day_days split: list.splits)
qed

lemma foldl_min_le:
  "foldl min a ds \<le> (a :: nat)" "d \<in> set ds \<Longrightarrow> foldl min a ds \<le> d" "foldl min a ds \<in> insert a (set ds)"
proof (induction ds arbitrary: a)
  case (Cons x ds)
  { case 1 show ?case using Cons(1) [of "min a x"] by simp }
  { case 2 then show ?case using Cons(1) [of "min a x"] Cons(2) [of "min a x"] by auto }
  { case 3 show ?case using Cons(3) [of "min a x"] by (auto simp: min_def) }
qed auto

lemma first_day_bounds:
  "first_day_of rows as_of \<le> as_of div ONE_DAY"
  "r \<in> set rows \<Longrightarrow> row_ts r \<le> as_of \<Longrightarrow> first_day_of rows as_of \<le> row_ts r div ONE_DAY"
  "\<forall>r \<in> set rows. g \<le> row_ts r div ONE_DAY \<Longrightarrow> g \<le> as_of div ONE_DAY \<Longrightarrow> g \<le> first_day_of rows as_of"
proof -
  have d: "d \<in> set (days_upto rows as_of) \<Longrightarrow> d \<le> as_of div ONE_DAY" for d
    by (auto simp: days_upto_def intro: div_le_mono)
  have m: "first_day_of rows as_of \<in> set (days_upto rows as_of) \<or>
      days_upto rows as_of = [] \<and> first_day_of rows as_of = as_of div ONE_DAY"
    using foldl_min_le(3) by (cases "days_upto rows as_of") (auto simp: first_day_days)
  then show "first_day_of rows as_of \<le> as_of div ONE_DAY" using d by auto
  show "\<forall>r \<in> set rows. g \<le> row_ts r div ONE_DAY \<Longrightarrow> g \<le> as_of div ONE_DAY \<Longrightarrow> g \<le> first_day_of rows as_of"
    using m by (auto simp: days_upto_def)
  assume "r \<in> set rows" "row_ts r \<le> as_of"
  then have "row_ts r div ONE_DAY \<in> set (days_upto rows as_of)" by (auto simp: days_upto_def)
  then show "first_day_of rows as_of \<le> row_ts r div ONE_DAY"
    using foldl_min_le by (cases "days_upto rows as_of") (auto simp: first_day_days)
qed

text \<open>Over days that hold every fee, nothing is lost or counted twice.\<close>

lemma fees_over_days:
  assumes "\<forall>r \<in> set rows. row_ts r \<le> as_of \<longrightarrow> a \<le> row_ts r div ONE_DAY \<and> row_ts r div ONE_DAY < b"
  shows "(\<Sum>d\<leftarrow>[a..<b]. fees_on rows as_of d) = sum_list (map fee_of (filter (\<lambda>r. row_ts r \<le> as_of) rows))"
  using assms
proof (induction rows)
  case Nil
  then show ?case by (simp add: fees_on_def)
next
  case (Cons r rows)
  let ?day = "row_ts r div ONE_DAY"
  have split: "fees_on (r # rows) as_of d =
      (if row_ts r \<le> as_of \<and> ?day = d then fee_of r else 0) + fees_on rows as_of d" for d
    by (simp add: fees_on_def)
  have "(\<Sum>d\<leftarrow>[a..<b]. if row_ts r \<le> as_of \<and> ?day = d then fee_of r else 0) =
      (if row_ts r \<le> as_of then fee_of r else 0)"
  proof (cases "row_ts r \<le> as_of")
    case True
    then have "?day \<in> {a..<b}" using Cons.prems by simp
    then show ?thesis using True by (simp add: sum_list_distinct_conv_sum_set)
  qed simp
  then show ?case using Cons by (simp add: split sum_list_addf)
qed

section \<open>Replays\<close>

text \<open>What one row does to the active volumes, and to the active accounts.\<close>

definition play_active :: "event_row \<Rightarrow> (string \<times> int) list \<Rightarrow> (string \<times> int) list" where
  "play_active r m =
     (if row_event r \<in> set ADMIT_EVENTS then AList.update (the (text_arg r ''volume_id'')) (the (int_arg r ''depth'')) m
      else AList.delete (the (text_arg r ''volume_id'')) m)"

definition play_account :: "event_row \<Rightarrow> string set \<Rightarrow> string set" where
  "play_account r A =
     (if row_event r = ''AccountActivated'' then insert (the (text_arg r ''owner'')) A
      else A - {the (text_arg r ''owner'')})"

abbreviation until :: "nat \<Rightarrow> event_row list \<Rightarrow> event_row list" where
  "until cutoff rows \<equiv> takeWhile (\<lambda>r. row_ts r \<le> cutoff) rows"

definition replayable :: "event_row \<Rightarrow> bool" where
  "replayable r \<longleftrightarrow> text_arg r ''volume_id'' \<noteq> None \<and> (row_event r \<in> set ADMIT_EVENTS \<longrightarrow> int_arg r ''depth'' \<noteq> None)"

lemma replay_active_fold:
  "list_all replayable rows \<Longrightarrow> replay_active cutoff rows active = Some (fold play_active (until cutoff rows) active)"
  by (induction cutoff rows active rule: replay_active.induct) (auto simp: replayable_def play_active_def)

lemma replay_accounts_fold:
  "list_all (\<lambda>r. text_arg r ''owner'' \<noteq> None) rows \<Longrightarrow>
   replay_accounts cutoff rows A = Some (fold play_account (until cutoff rows) A)"
  by (induction cutoff rows A rule: replay_accounts.induct) (auto simp: play_account_def)

lemma played_depths:
  assumes "\<And>r. r \<in> set rows \<Longrightarrow> row_event r \<in> set ADMIT_EVENTS \<Longrightarrow> known_depth (the (int_arg r ''depth''))"
    "\<forall>(v, d) \<in> set m. known_depth d"
  shows "\<forall>(v, d) \<in> set (fold play_active rows m). known_depth d"
  using assms
proof (induction rows arbitrary: m)
  case (Cons r rows)
  have "\<forall>(v, d) \<in> set (play_active r m). known_depth d"
  proof (cases "row_event r \<in> set ADMIT_EVENTS")
    case True
    have upd: "set (AList.update k x m) \<subseteq> insert (k, x) (set m)" for k and x :: int
      by (induction m) auto
    show ?thesis using True Cons.prems upd by (fastforce simp: play_active_def)
  next
    case False
    then show ?thesis using Cons.prems(2) by (auto simp: play_active_def AList.delete_eq)
  qed
  then show ?case using Cons by simp
qed simp

section \<open>An entry\<close>

abbreviation dated :: "('d \<Rightarrow> nat) \<Rightarrow> 'd list \<Rightarrow> nat \<Rightarrow> nat \<Rightarrow> bool" where
  "dated date series a b \<equiv> map date series = [a..<b]"

lemma pad_front_dates:
  assumes "dated date series a b" "a < b" "g \<le> a" "\<And>d. date (make_zero d) = d"
  shows "dated date (pad_front date series g make_zero) g b"
proof -
  obtain x xs where series: "series = x # xs" using assms(1,2)
    by (cases series) (auto simp: upt_eq_Nil_conv dest: sym)
  then have x: "date x = a" using assms(1,2) upt_conv_Cons [OF assms(2)] by simp
  show ?thesis
  proof (cases "g = a")
    case True
    then show ?thesis using assms(1) series x by (simp add: pad_front_def)
  next
    case False
    have "[g..<a] @ [a..<b] = [g..<b]" using assms(2,3) by (metis upt_add_eq_append le_add_diff_inverse less_imp_le_nat)
    then show ?thesis using False assms series x by (simp add: pad_front_def comp_def)
  qed
qed

lemma pad_front_last:
  "series \<noteq> [] \<Longrightarrow> last (pad_front date series g make_zero) = last series"
  by (auto simp: pad_front_def split: list.splits)

text \<open>The rows a deployment's folds read, when every row of the log is typed.\<close>

lemma typed_selection:
  assumes "list_all typed_row rows" and ev: "ev = for_deployment d (from_rows rows)"
  shows "list_all (\<lambda>r. int_arg r ''value'' \<noteq> None) (log_of ev [''Transfer''])"
    "list_all replayable (log_of ev (ADMIT_EVENTS @ [''VolumeRetired'']))"
    "r \<in> set (log_of ev (ADMIT_EVENTS @ [''VolumeRetired''])) \<Longrightarrow> row_event r \<in> set ADMIT_EVENTS \<Longrightarrow>
       known_depth (the (int_arg r ''depth''))"
    "list_all (\<lambda>r. text_arg r ''owner'' \<noteq> None) (log_of ev [''AccountActivated'', ''AccountRevoked''])"
    "list_all (\<lambda>r. text_arg r (if row_event r \<in> set ADMIT_EVENTS then ''owner'' else ''to'') \<noteq> None \<and>
       text_arg r ''volume_id'' \<noteq> None) (log_of ev (ADMIT_EVENTS @ [''VolumeOwnershipTransferred'']))"
    "list_all (\<lambda>r. row_event r \<noteq> ''Transfer'' \<longrightarrow> text_arg r ''volume_id'' \<noteq> None)
       (log_of ev [''Transfer'', ''Toppedup'', ''VolumeCreated''])"
proof -
  note sel = deployment_rows [of d rows, folded ev]
  have t: "r \<in> set rows \<Longrightarrow> typed_row r" for r using assms(1) by (simp add: list_all_iff)
  show "list_all (\<lambda>r. int_arg r ''value'' \<noteq> None) (log_of ev [''Transfer''])"
    "list_all (\<lambda>r. text_arg r ''owner'' \<noteq> None) (log_of ev [''AccountActivated'', ''AccountRevoked''])"
    "list_all (\<lambda>r. row_event r \<noteq> ''Transfer'' \<longrightarrow> text_arg r ''volume_id'' \<noteq> None)
       (log_of ev [''Transfer'', ''Toppedup'', ''VolumeCreated''])"
    unfolding list_all_iff sel using t by (auto simp: typed_row_def ADMIT_EVENTS_def)
  show "list_all replayable (log_of ev (ADMIT_EVENTS @ [''VolumeRetired'']))"
    unfolding list_all_iff sel replayable_def using t by (auto simp: typed_row_def ADMIT_EVENTS_def)
  show "list_all (\<lambda>r. text_arg r (if row_event r \<in> set ADMIT_EVENTS then ''owner'' else ''to'') \<noteq> None \<and>
       text_arg r ''volume_id'' \<noteq> None) (log_of ev (ADMIT_EVENTS @ [''VolumeOwnershipTransferred'']))"
    unfolding list_all_iff sel using t by (auto simp: typed_row_def ADMIT_EVENTS_def)
  show "r \<in> set (log_of ev (ADMIT_EVENTS @ [''VolumeRetired''])) \<Longrightarrow> row_event r \<in> set ADMIT_EVENTS \<Longrightarrow>
       known_depth (the (int_arg r ''depth''))"
    unfolding sel using t by (auto simp: typed_row_def)
qed

lemma capacity_days:
  assumes "list_all typed_row rows" and ev: "ev = for_deployment d (from_rows rows)"
  shows "\<exists>c. capacity_day ev as_of day = Some c \<and> cap_date c = day"
proof -
  note typed = typed_selection(2,3) [OF assms]
  let ?active = "fold play_active (until (day_end day as_of) (log_of ev (ADMIT_EVENTS @ [''VolumeRetired'']))) []"
  have a: "active_set_at ev (day_end day as_of) = Some ?active"
    unfolding active_set_at_def by (rule replay_active_fold [OF typed(1)])
  have "\<forall>(v, d) \<in> set ?active. known_depth d"
    by (rule played_depths) (auto dest: set_takeWhileD intro: typed(2))
  then have known: "list_all (\<lambda>x. known_depth (snd x)) ?active" by (auto simp: list_all_iff)
  have n: "those (map (\<lambda>(_, d). nominal_bytes d) ?active) =
      Some (map (\<lambda>x. the (case x of (_, d) \<Rightarrow> nominal_bytes d)) ?active)"
    by (rule those_map) (use known in \<open>auto simp: list_all_iff nominal_known\<close>)
  have e: "those (map (\<lambda>(_, d). effective_bytes d) ?active) =
      Some (map (\<lambda>x. the (case x of (_, d) \<Rightarrow> effective_bytes d)) ?active)"
    by (rule those_map) (use known effective_known in \<open>auto simp: list_all_iff case_prod_unfold simp del: not_None_eq\<close>)
  show ?thesis by (simp add: capacity_day_def a n e)
qed

lemma dated_those:
  assumes "\<And>day. \<exists>c. f day = Some c \<and> date c = day"
  shows "\<exists>cs. those (map f [a..<b]) = Some cs \<and> dated date cs a b"
proof -
  have "those (map f [a..<b]) = Some (map (\<lambda>x. the (f x)) [a..<b])"
    by (rule those_map) (use assms in \<open>auto simp: list_all_iff\<close>)
  moreover have "date (the (f day)) = day" for day using assms [of day] by auto
  ultimately show ?thesis by (simp add: comp_def)
qed

lemma accounts_day:
  assumes "list_all typed_row rows"
  shows "\<exists>c. map_option (\<lambda>n. \<lparr>acc_date = day, acc_authorized = n\<rparr>)
      (authorized_at (for_deployment d (from_rows rows)) (day_end day as_of)) = Some c \<and> acc_date c = day"
  using replay_accounts_fold [OF typed_selection(4) [OF assms refl, of d]] by (simp add: authorized_at_def)

lemma timeline_total:
  "list_all (\<lambda>r. text_arg r (if row_event r \<in> set ADMIT_EVENTS then ''owner'' else ''to'') \<noteq> None \<and>
       text_arg r ''volume_id'' \<noteq> None) rows \<Longrightarrow> timeline_rows rows timeline \<noteq> None"
  by (induction rows timeline rule: timeline_rows.induct) auto

lemma set_by_tx: "r \<in> set (rows_named (by_tx rows) tx) \<Longrightarrow> r \<in> set rows"
proof -
  have "rows_named (foldl (\<lambda>b r. bucket_append (row_tx r) r b) b rows) tx =
      rows_named b tx @ filter (\<lambda>r. row_tx r = tx) rows" for b
    by (induction rows arbitrary: b) (simp_all add: rows_named_append)
  from this [of "[]"] show "r \<in> set (rows_named (by_tx rows) tx) \<Longrightarrow> r \<in> set rows"
    by (simp add: by_tx_def rows_named_def [of "[]"])
qed

lemma those_some: "(\<And>x. x \<in> set xs \<Longrightarrow> x \<noteq> None) \<Longrightarrow> those xs \<noteq> None"
  using those_map [of "\<lambda>x. x" xs] by (simp add: list_all_iff)

lemma payments_total:
  assumes "list_all (\<lambda>r. row_event r \<noteq> ''Transfer'' \<longrightarrow> text_arg r ''volume_id'' \<noteq> None)
       (log_of ev [''Transfer'', ''Toppedup'', ''VolumeCreated''])"
  shows "payments ev \<noteq> None"
  unfolding payments_def Let_def
  by (rule those_some) (use assms in \<open>auto simp: list_all_iff dest!: set_zip_rightD set_by_tx\<close>)

lemma day_end_last: "day_end (as_of div ONE_DAY) as_of = as_of"
  by (simp add: day_end_def)

lemma capacity_series:
  assumes "list_all typed_row rows" "ev = for_deployment d (from_rows rows)"
  obtains cs where "capacity_daily ev as_of = Some cs"
    "dated cap_date cs (first_day_of (log_of ev ADMIT_EVENTS) as_of) (as_of div ONE_DAY + 1)"
    "active_set_at ev as_of \<noteq> None" "cs \<noteq> []"
    "cap_volumes (last cs) = length (the (active_set_at ev as_of))"
proof -
  let ?a = "first_day_of (log_of ev ADMIT_EVENTS) as_of" and ?t = "as_of div ONE_DAY"
  obtain cs where cs: "capacity_daily ev as_of = Some cs" "dated cap_date cs ?a (?t + 1)"
    using dated_those [of "capacity_day ev as_of" cap_date ?a "?t + 1"] capacity_days [OF assms]
    unfolding capacity_daily_def by blast
  have le: "?a \<le> ?t" by (rule first_day_bounds)
  have all: "those (map (capacity_day ev as_of) [?a..<?t + 1]) = Some (map (\<lambda>x. the (capacity_day ev as_of x)) [?a..<?t + 1])"
    by (rule those_map) (use capacity_days [OF assms] in \<open>auto simp: list_all_iff\<close>)
  then have "cs = map (\<lambda>x. the (capacity_day ev as_of x)) [?a..<?t + 1]"
    using cs(1) by (simp add: capacity_daily_def)
  moreover have "[?a..<?t + 1] = [?a..<?t] @ [?t]" using le by simp
  ultimately have last: "last cs = the (capacity_day ev as_of ?t)" "cs \<noteq> []" by simp_all
  obtain c where "capacity_day ev as_of ?t = Some c" using capacity_days [OF assms] by blast
  then have "active_set_at ev as_of \<noteq> None" "cap_volumes c = length (the (active_set_at ev as_of))"
    by (auto simp: capacity_day_def day_end_last split: option.splits)
  then show ?thesis using that [OF cs] last \<open>capacity_day ev as_of ?t = Some c\<close> by simp
qed

lemma accounts_series:
  assumes "list_all typed_row rows" "ev = for_deployment d (from_rows rows)"
  obtains cs where "accounts_daily ev as_of = Some cs"
    "dated acc_date cs (first_day_of (log_of ev [''AccountActivated'', ''AccountRevoked'']) as_of) (as_of div ONE_DAY + 1)"
    "authorized_at ev as_of = Some (acc_authorized (last cs))" "cs \<noteq> []"
proof -
  let ?a = "first_day_of (log_of ev [''AccountActivated'', ''AccountRevoked'']) as_of" and ?t = "as_of div ONE_DAY"
  let ?f = "\<lambda>day. map_option (\<lambda>n. \<lparr>acc_date = day, acc_authorized = n\<rparr>) (authorized_at ev (day_end day as_of))"
  note one = accounts_day [OF assms(1), of _ d as_of, folded assms(2)]
  obtain cs where cs: "accounts_daily ev as_of = Some cs" "dated acc_date cs ?a (?t + 1)"
    using dated_those [of ?f acc_date ?a "?t + 1"] one unfolding accounts_daily_def by blast
  have all: "those (map ?f [?a..<?t + 1]) = Some (map (\<lambda>x. the (?f x)) [?a..<?t + 1])"
    by (rule those_map) (use one in \<open>auto simp: list_all_iff\<close>)
  then have "cs = map (\<lambda>x. the (?f x)) [?a..<?t + 1]" using cs(1) by (simp add: accounts_daily_def)
  moreover have "[?a..<?t + 1] = [?a..<?t] @ [?t]" using first_day_bounds(1) by simp
  ultimately have last: "last cs = the (?f ?t)" "cs \<noteq> []" by simp_all
  obtain c where "?f ?t = Some c" using one by blast
  then show ?thesis using that cs last by (auto simp: day_end_last)
qed

lemma project_some:
  assumes typed: "list_all typed_row rows"
    and ev: "ev = for_deployment (dep_chain_id d, dep_registry d) (from_rows rows)"
    and history: "\<forall>r \<in> set rows. dep_genesis_ts d div ONE_DAY \<le> row_ts r div ONE_DAY" "dep_genesis_ts d \<le> as_of"
  obtains e where "project_entry bzz fsum fzero d (from_rows rows) prices block as_of = Some e"
    "dated fee_date (ent_fee e) (dep_genesis_ts d div ONE_DAY) (as_of div ONE_DAY + 1)"
    "dated cap_date (ent_capacity e) (dep_genesis_ts d div ONE_DAY) (as_of div ONE_DAY + 1)"
    "dated acc_date (ent_accounts e) (dep_genesis_ts d div ONE_DAY) (as_of div ONE_DAY + 1)"
    "active_set_at ev as_of \<noteq> None"
    "snap_volumes (ent_snapshot e) = length (the (active_set_at ev as_of))"
    "authorized_at ev as_of = Some (snap_authorized (ent_snapshot e))"
proof -
  let ?g = "dep_genesis_ts d div ONE_DAY" and ?t = "as_of div ONE_DAY"
  have gt: "?g \<le> ?t" by (rule div_le_mono [OF history(2)])
  have sel: "?g \<le> first_day_of (log_of ev names) as_of" "first_day_of (log_of ev names) as_of < ?t + 1" for names
    using history(1) gt first_day_bounds(1) [of "log_of ev names" as_of]
    by (auto simp: ev deployment_rows intro!: first_day_bounds(3))
  let ?fee = "map (\<lambda>x. \<lparr>fee_date = x, fee_bzz = bzz (fees_on (log_of ev [''Transfer'']) as_of x)\<rparr>)
      [first_day_of (log_of ev [''Transfer'']) as_of..<?t + 1]"
  have "dated fee_date ?fee (first_day_of (log_of ev [''Transfer'']) as_of) (?t + 1)"
    by (simp only: map_map comp_def daily_fee.simps map_ident)
  then obtain fee where fee: "fee_volume_daily bzz ev as_of = Some fee"
    "dated fee_date fee (first_day_of (log_of ev [''Transfer'']) as_of) (?t + 1)"
    using fee_series [OF typed_selection(1) [OF typed ev], of bzz as_of] by blast
  obtain cap where cap: "capacity_daily ev as_of = Some cap"
    "dated cap_date cap (first_day_of (log_of ev ADMIT_EVENTS) as_of) (?t + 1)"
    "active_set_at ev as_of \<noteq> None" "cap \<noteq> []" "cap_volumes (last cap) = length (the (active_set_at ev as_of))"
    by (rule capacity_series [OF typed ev])
  obtain acc where acc: "accounts_daily ev as_of = Some acc"
    "dated acc_date acc (first_day_of (log_of ev [''AccountActivated'', ''AccountRevoked'']) as_of) (?t + 1)"
    "authorized_at ev as_of = Some (acc_authorized (last acc))" "acc \<noteq> []"
    by (rule accounts_series [OF typed ev])
  obtain piw where piw: "paid_in_window ev as_of PAID_IN_WINDOW_DAYS = Some piw"
    using timeline_total [OF typed_selection(5) [OF typed ev], of "[]"] payments_total [OF typed_selection(6) [OF typed ev]]
    by (auto simp: paid_in_window_def owner_timeline_def)
  note pads = pad_front_dates [OF fee(2) sel(2,1)] pad_front_dates [OF cap(2) sel(2,1)] pad_front_dates [OF acc(2) sel(2,1)]
  have ne: "pad_front cap_date cap ?g z \<noteq> []" "pad_front acc_date acc ?g z' \<noteq> []" for z z'
    using cap(4) acc(4) by (auto simp: pad_front_def split: list.splits)
  show ?thesis
    by (rule that) (simp add: project_entry_def Let_def ev [symmetric] fee(1) cap(1) acc(1) piw ne,
      simp_all add: fee cap acc pads pad_front_last del: upt_Suc Suc_eq_plus1)
qed

lemma sum_list_mset: "mset xs = mset ys \<Longrightarrow> sum_list (map f xs) = (sum_list (map f ys) :: int)"
  by (metis mset_map sum_mset_sum_list)

lemma transfers_mset:
  "mset (log_of (for_deployment d (from_rows rows)) [n]) =
     mset (filter (\<lambda>r. row_deployment r = d \<and> row_event r = n) rows)"
  by (simp add: log_of_def rows_named_for_deployment rows_named_from_rows filter_filter_mset conj_commute)

end
