(* ===== verification/IndexerStore.thy ===== *)
theory IndexerStore
  imports IndexerLog "HOL-Library.Sublist"
begin

text \<open>
  The indexer's write path: the block ranges of \<open>acquire.py\<close>, the cache of \<open>store.py\<close>, and the sync of
  \<open>cli.py\<close> (\<open>_sync_and_project\<close>) that joins them, up to the log it hands to the projector. A deployment's directory is its
  files, one per event type with one row per line, and its head marker. What a request to the node returns
  for a block range, both legs and decoded, is the parameter \<open>fetch\<close>. A row is the smallest thing written here: a process
  killed between two rows leaves what \<open>sync_life\<close> describes, and one killed inside a line of a file leaves a
  torn line, which is outside this theory and the subject of \<open>IndexerFiles\<close>.
\<close>

section \<open>Block ranges\<close>

text \<open>\<open>iter_log_chunks\<close>. A size below one never ends, which is the value \<open>None\<close>.\<close>

partial_function (option) log_chunks :: "int \<Rightarrow> int \<Rightarrow> int \<Rightarrow> (int \<times> int) list option" where
  "log_chunks chunk start to_block =
     (if start \<le> to_block then
        (let last = min (start + chunk - 1) to_block
         in Option.bind (log_chunks chunk (last + 1) to_block) (\<lambda>rest. Some ((start, last) # rest)))
      else Some [])"

definition acquire_logs ::
  "(int \<Rightarrow> int \<Rightarrow> event_row list) \<Rightarrow> int \<Rightarrow> int \<Rightarrow> int \<Rightarrow> event_row list option" where
  "acquire_logs fetch chunk from_block to_block =
     map_option (\<lambda>cs. concat (map (\<lambda>(a, e). fetch a e) cs)) (log_chunks chunk from_block to_block)"

section \<open>The store\<close>

record dep_dir =
  dir_files :: "(string \<times> event_row list) list"
  dir_head :: "int option"

definition empty_dir :: dep_dir where
  "empty_dir = \<lparr>dir_files = [], dir_head = None\<rparr>"

definition append_rows :: "event_row list \<Rightarrow> dep_dir \<Rightarrow> dep_dir" where
  "append_rows rows d =
     d\<lparr>dir_files := foldl (\<lambda>f r. bucket_append (row_event r) r f) (dir_files d) rows\<rparr>"

text \<open>\<open>rows.setdefault((block_number, log_index), row)\<close>: the first row at a place stays.\<close>

fun keep_first :: "(nat \<times> nat) set \<Rightarrow> event_row list \<Rightarrow> event_row list" where
  "keep_first seen [] = []"
| "keep_first seen (r # rs) =
     (if position r \<in> seen then keep_first seen rs else r # keep_first (insert (position r) seen) rs)"

definition file_rows :: "dep_dir \<Rightarrow> event_row list" where
  "file_rows d = concat (map snd (dir_files d))"

definition load_event_log :: "dep_dir \<Rightarrow> event_log" where
  "load_event_log d = from_rows (keep_first {} (file_rows d))"

definition save_head :: "int \<Rightarrow> dep_dir \<Rightarrow> dep_dir" where
  "save_head b d = d\<lparr>dir_head := Some b\<rparr>"

section \<open>A sync\<close>

definition sync_from :: "int \<Rightarrow> dep_dir \<Rightarrow> int" where
  "sync_from genesis d = (case dir_head d of None \<Rightarrow> genesis | Some h \<Rightarrow> h + 1)"

text \<open>One range: its rows first, then the head.\<close>

definition sync_chunk ::
  "(int \<Rightarrow> int \<Rightarrow> event_row list) \<Rightarrow> dep_dir \<Rightarrow> int \<times> int \<Rightarrow> dep_dir" where
  "sync_chunk fetch d = (\<lambda>(a, e). save_head e (append_rows (fetch a e) d))"

text \<open>The log handed to the projector, and the directory left.\<close>

definition sync_events ::
  "(int \<Rightarrow> int \<Rightarrow> event_row list) \<Rightarrow> int \<Rightarrow> int \<Rightarrow> int \<Rightarrow> dep_dir \<Rightarrow> (event_log \<times> dep_dir) option" where
  "sync_events fetch chunk genesis head_block d =
     (let prior = load_event_log d in
      case log_chunks chunk (sync_from genesis d) head_block of
        None \<Rightarrow> None
      | Some cs \<Rightarrow>
          (let fresh = concat (map (\<lambda>(a, e). fetch a e) cs)
           in Some (from_rows (log_merged prior @ fresh), foldl (sync_chunk fetch) d cs)))"

text \<open>
  The directories that syncs leave behind: finished ranges, and ranges killed between two rows, after some of
  their rows were written whole and before the head was.
\<close>

inductive sync_life :: "(int \<Rightarrow> int \<Rightarrow> event_row list) \<Rightarrow> int \<Rightarrow> dep_dir \<Rightarrow> bool" for fetch genesis where
  created: "sync_life fetch genesis empty_dir"
| finished: "sync_life fetch genesis d \<Longrightarrow> sync_from genesis d \<le> e \<Longrightarrow>
    sync_life fetch genesis (sync_chunk fetch d (sync_from genesis d, e))"
| killed: "sync_life fetch genesis d \<Longrightarrow> subseq written (fetch (sync_from genesis d) e) \<Longrightarrow>
    sync_life fetch genesis (append_rows written d)"

section \<open>Ranges cover\<close>

lemma log_chunks_simps:
  "to_block < start \<Longrightarrow> log_chunks chunk start to_block = Some []"
  "start \<le> to_block \<Longrightarrow> log_chunks chunk start to_block =
     map_option ((#) (start, min (start + chunk - 1) to_block))
       (log_chunks chunk (min (start + chunk - 1) to_block + 1) to_block)"
  by (simp_all add: log_chunks.simps [of chunk start to_block] Let_def map_conv_bind_option comp_def)

lemma upto_ranges: "a \<le> e + 1 \<Longrightarrow> e \<le> b \<Longrightarrow> [a..e] @ [e + 1..b] = [a..b]"
  by (metis add.commute add_diff_cancel_left' upto_split1 upto_split2 linorder_not_less
      append_Nil upto_empty zle_add1_eq_le order_le_less)

lemma log_chunks_cover:
  assumes "1 \<le> chunk"
  shows "\<exists>cs. log_chunks chunk start to_block = Some cs \<and>
    concat (map (\<lambda>(a, e). [a..e]) cs) = [start..to_block] \<and>
    list_all (\<lambda>(a, e). a \<le> e \<and> e < a + chunk) cs"
proof (induction "nat (to_block - start + 1)" arbitrary: start rule: less_induct)
  case less
  show ?case
  proof (cases "start \<le> to_block")
    case False
    then show ?thesis by (simp add: log_chunks_simps(1))
  next
    case True
    let ?e = "min (start + chunk - 1) to_block"
    have e: "start \<le> ?e" "?e \<le> to_block" "?e < start + chunk" using True assms by auto
    then have "nat (to_block - (?e + 1) + 1) < nat (to_block - start + 1)" by auto
    from less [OF this] obtain cs where cs: "log_chunks chunk (?e + 1) to_block = Some cs"
      "concat (map (\<lambda>(a, e). [a..e]) cs) = [?e + 1..to_block]"
      "list_all (\<lambda>(a, e). a \<le> e \<and> e < a + chunk) cs" by blast
    have "[start..?e] @ [?e + 1..to_block] = [start..to_block]" using e by (intro upto_ranges) auto
    then show ?thesis using cs e log_chunks_simps(2) [OF True, of chunk] by simp
  qed
qed

text \<open>Without progress there is no result.\<close>

lemma log_chunks_some:
  assumes "log_chunks chunk start to_block = Some cs"
  shows "chunk \<le> 0 \<longrightarrow> to_block < start"
proof (rule log_chunks.raw_induct [OF _ assms, where P = "\<lambda>chunk start to_block _. chunk \<le> 0 \<longrightarrow> to_block < start"])
  fix f :: "int \<Rightarrow> int \<Rightarrow> int \<Rightarrow> (int \<times> int) list option" and chunk start to_block cs
  assume ih: "\<And>c s t r. f c s t = Some r \<Longrightarrow> c \<le> 0 \<longrightarrow> t < s"
    and body: "(if start \<le> to_block then
        (let last = min (start + chunk - 1) to_block
         in Option.bind (f chunk (last + 1) to_block) (\<lambda>rest. Some ((start, last) # rest)))
      else Some []) = Some cs"
  show "chunk \<le> 0 \<longrightarrow> to_block < start"
  proof (intro impI, rule ccontr)
    assume "chunk \<le> 0" "\<not> to_block < start"
    then obtain rest where "f chunk (min (start + chunk - 1) to_block + 1) to_block = Some rest"
      using body by (auto simp: Let_def bind_eq_Some_conv)
    from ih [OF this] show False using \<open>chunk \<le> 0\<close> \<open>\<not> to_block < start\<close> by auto
  qed
qed

section \<open>What the files hold\<close>

lemma mset_bucket_append:
  "mset (concat (map snd (bucket_append n r b))) = add_mset r (mset (concat (map snd b)))"
  by (induction b rule: bucket_append.induct) simp_all

lemma file_rows_append: "mset (file_rows (append_rows rows d)) = mset (file_rows d) + mset rows"
proof -
  have "mset (concat (map snd (foldl (\<lambda>f r. bucket_append (row_event r) r f) b rows))) =
      mset (concat (map snd b)) + mset rows" for b
    by (induction rows arbitrary: b) (simp_all add: mset_bucket_append)
  then show ?thesis by (simp add: file_rows_def append_rows_def)
qed

lemma set_file_rows_append [simp]: "set (file_rows (append_rows rows d)) = set (file_rows d) \<union> set rows"
  using arg_cong [OF file_rows_append, of set_mset] by simp

lemma append_rows_head [simp]: "dir_head (append_rows rows d) = dir_head d"
  by (simp add: append_rows_def)

lemma save_head_simps [simp]: "dir_head (save_head b d) = Some b" "file_rows (save_head b d) = file_rows d"
  by (simp_all add: save_head_def file_rows_def)

lemma keep_first_facts:
  "distinct (map position (keep_first seen rs)) \<and> set (keep_first seen rs) \<subseteq> set rs \<and>
   position ` set (keep_first seen rs) = position ` set rs - seen"
  by (induction seen rs rule: keep_first.induct) auto

lemma keep_first_all:
  assumes "inj_on position (set rs)"
  shows "set (keep_first {} rs) = set rs" "distinct (keep_first {} rs)"
proof -
  have k: "set (keep_first {} rs) \<subseteq> set rs" "position ` set (keep_first {} rs) = position ` set rs"
    using keep_first_facts [of "{}" rs] by auto
  show "set (keep_first {} rs) = set rs"
    by (rule inj_on_image_eq_iff [OF assms k(1) subset_refl, THEN iffD1, OF k(2)])
  show "distinct (keep_first {} rs)" using keep_first_facts [of "{}" rs] by (auto simp: distinct_map)
qed

text \<open>The final chain, and a node that returns its logs for a range.\<close>

definition serves_chain :: "event_row list \<Rightarrow> (int \<Rightarrow> int \<Rightarrow> event_row list) \<Rightarrow> bool" where
  "serves_chain rows fetch \<longleftrightarrow> distinct rows \<and> inj_on position (set rows) \<and>
     (\<forall>a e. mset (fetch a e) = mset (filter (\<lambda>r. a \<le> int (row_block r) \<and> int (row_block r) \<le> e) rows))"

definition rows_upto :: "event_row list \<Rightarrow> int \<Rightarrow> event_row list" where
  "rows_upto rows h = sort_key position (filter (\<lambda>r. int (row_block r) \<le> h) rows)"

lemma serves_chainD:
  assumes "serves_chain rows fetch"
  shows "distinct rows" "inj_on position (set rows)"
    and "mset (fetch a e) = mset (filter (\<lambda>r. a \<le> int (row_block r) \<and> int (row_block r) \<le> e) rows)"
    and "set (fetch a e) = {r \<in> set rows. a \<le> int (row_block r) \<and> int (row_block r) \<le> e}"
proof -
  show m: "mset (fetch a e) = mset (filter (\<lambda>r. a \<le> int (row_block r) \<and> int (row_block r) \<le> e) rows)"
    and "distinct rows" "inj_on position (set rows)" using assms by (simp_all add: serves_chain_def)
  show "set (fetch a e) = {r \<in> set rows. a \<le> int (row_block r) \<and> int (row_block r) \<le> e}"
    using mset_eq_setD [OF m] by auto
qed

text \<open>What is loaded is each row of the files once, in chain order.\<close>

lemma load_rows:
  assumes "inj_on position (set (file_rows d))"
  shows "log_merged (load_event_log d) = sort_key position (keep_first {} (file_rows d))"
  unfolding load_event_log_def
  by (rule log_merged_from_rows) (simp add: keep_first_all [OF assms] assms)

lemma same_rows:
  assumes "inj_on position (set rows)" "distinct xs" "distinct ys" "set xs = set ys" "set xs \<subseteq> set rows"
  shows "sort_key position xs = sort_key position ys"
  by (rule chain_order_unique [OF inj_on_subset [OF assms(1,5)]])
    (use assms(2-4) set_eq_iff_mset_eq_distinct in blast)

section \<open>Every life of the store\<close>

lemma set_of_subseq: "subseq xs ys \<Longrightarrow> set xs \<subseteq> set ys"
  by (induction rule: list_emb.induct) auto

text \<open>The files hold rows of the chain only, and all of them up to the head.\<close>

definition store_ok :: "event_row list \<Rightarrow> dep_dir \<Rightarrow> bool" where
  "store_ok rows d \<longleftrightarrow> set (file_rows d) \<subseteq> set rows \<and>
     (\<forall>h. dir_head d = Some h \<longrightarrow> {r \<in> set rows. int (row_block r) \<le> h} \<subseteq> set (file_rows d))"

lemma chunk_ok:
  assumes "serves_chain rows fetch" "\<forall>r \<in> set rows. genesis \<le> int (row_block r)" "store_ok rows d"
  shows "store_ok rows (sync_chunk fetch d (sync_from genesis d, e))"
proof -
  note f = serves_chainD(4) [OF assms(1), of "sync_from genesis d" e]
  have "r \<in> set (file_rows d) \<union> set (fetch (sync_from genesis d) e)"
    if r: "r \<in> set rows" "int (row_block r) \<le> e" for r
  proof (cases "sync_from genesis d \<le> int (row_block r)")
    case True
    then show ?thesis using r f by simp
  next
    case False
    then obtain h where "dir_head d = Some h" "int (row_block r) \<le> h"
      using assms(2) r(1) by (auto simp: sync_from_def split: option.splits)
    then show ?thesis using assms(3) r(1) by (auto simp: store_ok_def)
  qed
  then show ?thesis using assms(3) f by (auto simp: store_ok_def sync_chunk_def)
qed

lemma sync_life_ok:
  assumes "serves_chain rows fetch" "\<forall>r \<in> set rows. genesis \<le> int (row_block r)"
  shows "sync_life fetch genesis d \<Longrightarrow> store_ok rows d"
proof (induction rule: sync_life.induct)
  case created
  then show ?case by (simp add: store_ok_def empty_dir_def file_rows_def)
next
  case (finished d e)
  then show ?case using chunk_ok [OF assms] by blast
next
  case (killed d written e)
  have "set written \<subseteq> set rows"
    using set_of_subseq [OF killed(2)] serves_chainD(4) [OF assms(1)] by blast
  then show ?case using killed.IH by (auto simp: store_ok_def)
qed

section \<open>One sync\<close>

lemma range_rows:
  assumes "serves_chain rows fetch" "distinct (concat (map (\<lambda>(a, e). [a..e]) cs))"
  shows "mset (concat (map (\<lambda>(a, e). fetch a e) cs)) =
    mset (filter (\<lambda>r. int (row_block r) \<in> set (concat (map (\<lambda>(a, e). [a..e]) cs))) rows)"
  using assms(2)
proof (induction cs)
  case Nil
  then show ?case by simp
next
  case (Cons c cs)
  obtain a e where c: "c = (a, e)" by (cases c)
  define later where "later = set (concat (map (\<lambda>(a, e). [a..e]) cs))"
  have "set [a..e] \<inter> later = {}" using Cons.prems unfolding later_def c by simp
  then have apart: "x \<notin> later" if "a \<le> x" "x \<le> e" for x using that by auto
  have "filter_mset (\<lambda>r. int (row_block r) \<in> {a..e} \<union> later) (mset rows) =
      filter_mset (\<lambda>r. a \<le> int (row_block r) \<and> int (row_block r) \<le> e) (mset rows) +
      filter_mset (\<lambda>r. int (row_block r) \<in> later) (mset rows)"
    by (rule multiset_eqI) (use apart in auto)
  moreover have "set (concat (map (\<lambda>(a, e). [a..e]) (c # cs))) = {a..e} \<union> later"
    by (simp add: later_def c)
  moreover have "mset (concat (map (\<lambda>(a, e). fetch a e) cs)) =
      filter_mset (\<lambda>r. int (row_block r) \<in> later) (mset rows)"
    using Cons by (simp add: later_def)
  ultimately show ?case using serves_chainD(3) [OF assms(1), of a e] by (simp add: c)
qed

text \<open>Ranges in a row, each from where the one before ended.\<close>

lemma chunks_life:
  assumes "log_chunks chunk (sync_from genesis d) to_block = Some cs" "1 \<le> chunk"
  shows "(sync_life fetch genesis d \<longrightarrow> sync_life fetch genesis (foldl (sync_chunk fetch) d cs)) \<and>
    (sync_from genesis d \<le> to_block \<longrightarrow> dir_head (foldl (sync_chunk fetch) d cs) = Some to_block)"
  using assms(1)
proof (induction "length cs" arbitrary: d cs)
  case 0
  then show ?case using log_chunks_cover [OF assms(2), of "sync_from genesis d" to_block] by fastforce
next
  case (Suc n)
  show ?case
  proof (cases "sync_from genesis d \<le> to_block")
    case False
    then show ?thesis using Suc.prems Suc.hyps(2) by (simp add: log_chunks_simps)
  next
    case True
    let ?a = "sync_from genesis d" and ?e = "min (sync_from genesis d + chunk - 1) to_block"
    let ?d = "sync_chunk fetch d (?a, ?e)"
    obtain rest where rest: "log_chunks chunk (?e + 1) to_block = Some rest" "cs = (?a, ?e) # rest"
      using Suc.prems log_chunks_simps(2) [OF True, of chunk] by auto
    have start: "sync_from genesis ?d = ?e + 1" by (simp add: sync_chunk_def sync_from_def)
    have e: "?a \<le> ?e" "?e \<le> to_block" using True assms(2) by auto
    note ih = Suc.hyps(1) [of rest ?d, unfolded start, OF _ rest(1)]
    have len: "n = length rest" using Suc.hyps(2) rest(2) by simp
    have "dir_head (foldl (sync_chunk fetch) ?d rest) = Some to_block"
    proof (cases "?e + 1 \<le> to_block")
      case True
      then show ?thesis using ih [OF len] by blast
    next
      case False
      then have "rest = []" "?e = to_block" using rest(1) e by (auto simp: log_chunks_simps)
      then show ?thesis by (simp add: sync_chunk_def)
    qed
    then show ?thesis using ih [OF len] sync_life.finished [OF _ e(1), of fetch] rest(2) by auto
  qed
qed

text \<open>The files end at the head: no range was left behind half written.\<close>

definition clean_dir :: "int \<Rightarrow> dep_dir \<Rightarrow> bool" where
  "clean_dir genesis d \<longleftrightarrow> list_all (\<lambda>r. int (row_block r) < sync_from genesis d) (file_rows d)"

definition all_fetched :: "event_row list \<Rightarrow> int \<Rightarrow> bool" where
  "all_fetched rows genesis \<longleftrightarrow> list_all (\<lambda>r. genesis \<le> int (row_block r)) rows"

lemma stored_rows:
  assumes rpc: "serves_chain rows fetch" and start: "all_fetched rows genesis" and ok: "store_ok rows d"
  defines "prior \<equiv> log_merged (load_event_log d)"
  shows "distinct prior" "set prior = set (file_rows d)" "set prior \<subseteq> set rows"
    "mset prior = mset (filter (\<lambda>r. int (row_block r) < sync_from genesis d) rows) +
       mset (filter (\<lambda>r. sync_from genesis d \<le> int (row_block r)) prior)"
    "sorted (map position prior)"
proof -
  note inj = serves_chainD(2) [OF rpc]
  have sub: "set (file_rows d) \<subseteq> set rows" using ok by (simp add: store_ok_def)
  have injd: "inj_on position (set (file_rows d))" by (rule inj_on_subset [OF inj sub])
  show d: "distinct prior" and set: "set prior = set (file_rows d)" and "sorted (map position prior)"
    unfolding prior_def load_rows [OF injd] using keep_first_all [OF injd] by simp_all
  show "set prior \<subseteq> set rows" using set sub by simp
  let ?low = "\<lambda>r. int (row_block r) < sync_from genesis d"
  have "set (filter ?low prior) = set (filter ?low rows)"
    using ok start set sub
    by (fastforce simp: store_ok_def sync_from_def all_fetched_def list_all_iff split: option.splits)
  then have "mset (filter ?low prior) = mset (filter ?low rows)"
    by (rule set_eq_iff_mset_eq_distinct [THEN iffD1, rotated 2])
      (simp_all add: d serves_chainD(1) [OF rpc])
  moreover have "mset prior = mset (filter ?low prior) + mset (filter (\<lambda>r. \<not> ?low r) prior)"
    by (simp add: mset_filter)
  ultimately show "mset prior = mset (filter ?low rows) +
      mset (filter (\<lambda>r. sync_from genesis d \<le> int (row_block r)) prior)"
    by (simp only: not_less)
qed

lemma sync_rows:
  assumes rpc: "serves_chain rows fetch" and start: "all_fetched rows genesis"
    and ok: "store_ok rows d" and size: "1 \<le> chunk"
  obtains l cs where "log_chunks chunk (sync_from genesis d) to_block = Some cs"
    "sync_events fetch chunk genesis to_block d = Some (l, foldl (sync_chunk fetch) d cs)"
    "mset (log_merged l) = mset (rows_upto rows (max to_block (sync_from genesis d - 1))) +
       mset (filter (\<lambda>r. sync_from genesis d \<le> int (row_block r)) (log_merged (load_event_log d)))"
    "sorted (map position (log_merged l))"
proof -
  let ?a = "sync_from genesis d" and ?prior = "log_merged (load_event_log d)"
  obtain cs where cs: "log_chunks chunk ?a to_block = Some cs"
    "concat (map (\<lambda>(a, e). [a..e]) cs) = [?a..to_block]"
    using log_chunks_cover [OF size] by blast
  let ?fresh = "concat (map (\<lambda>(a, e). fetch a e) cs)"
  have fresh: "mset ?fresh = mset (filter (\<lambda>r. int (row_block r) \<in> {?a..to_block}) rows)"
    using range_rows [OF rpc, of cs] by (simp add: cs(2))
  have split: "mset (filter (\<lambda>r. int (row_block r) < ?a) rows) +
      mset (filter (\<lambda>r. int (row_block r) \<in> {?a..to_block}) rows) =
      mset (rows_upto rows (max to_block (?a - 1)))"
    unfolding rows_upto_def mset_sort mset_filter by (rule multiset_eqI) auto
  have "mset (?prior @ ?fresh) = mset (filter (\<lambda>r. int (row_block r) < ?a) rows) +
      mset (filter (\<lambda>r. ?a \<le> int (row_block r)) ?prior) +
      mset (filter (\<lambda>r. int (row_block r) \<in> {?a..to_block}) rows)"
    unfolding mset_append fresh by (simp only: stored_rows(4) [OF rpc start ok])
  also have "\<dots> = mset (rows_upto rows (max to_block (?a - 1))) +
      mset (filter (\<lambda>r. ?a \<le> int (row_block r)) ?prior)"
    unfolding split [symmetric] by (simp only: ac_simps)
  finally have "mset (?prior @ ?fresh) = mset (rows_upto rows (max to_block (?a - 1))) +
      mset (filter (\<lambda>r. ?a \<le> int (row_block r)) ?prior)" .
  then have "mset (log_merged (from_rows (?prior @ ?fresh))) = mset (rows_upto rows (max to_block (?a - 1))) +
      mset (filter (\<lambda>r. ?a \<le> int (row_block r)) ?prior)"
    by (simp only: mset_log_merged)
  moreover have "sync_events fetch chunk genesis to_block d =
      Some (from_rows (?prior @ ?fresh), foldl (sync_chunk fetch) d cs)"
    by (simp add: sync_events_def Let_def cs(1))
  ultimately show ?thesis by (intro that [OF cs(1)]) (rule log_merged_sorted | assumption)+
qed

lemma chunks_clean:
  assumes "serves_chain rows fetch" "log_chunks chunk (sync_from genesis d) to_block = Some cs"
    "1 \<le> chunk" "clean_dir genesis d"
  shows "clean_dir genesis (foldl (sync_chunk fetch) d cs)"
  using assms(2,4)
proof (induction "length cs" arbitrary: d cs)
  case 0
  then show ?case by simp
next
  case (Suc n)
  have in_range: "sync_from genesis d \<le> to_block"
    using Suc.prems(1) Suc.hyps(2) by (cases "sync_from genesis d \<le> to_block") (auto simp: log_chunks_simps)
  let ?a = "sync_from genesis d" and ?e = "min (sync_from genesis d + chunk - 1) to_block"
  let ?d = "sync_chunk fetch d (?a, ?e)"
  obtain rest where rest: "log_chunks chunk (?e + 1) to_block = Some rest" "cs = (?a, ?e) # rest"
    using Suc.prems log_chunks_simps(2) [OF in_range, of chunk] by auto
  have start: "sync_from genesis ?d = ?e + 1" by (simp add: sync_chunk_def sync_from_def)
  have e: "?a \<le> ?e" using in_range assms(3) by auto
  have "clean_dir genesis ?d"
    using Suc.prems(2) e serves_chainD(4) [OF assms(1), of ?a ?e]
    unfolding clean_dir_def start list_all_iff by (auto simp: sync_chunk_def)
  then show ?case using Suc.hyps(1) [of rest ?d, unfolded start, OF _ rest(1)] Suc.hyps(2) rest(2) by simp
qed

section \<open>A small chain\<close>

text \<open>One fee payment on block 3, and the directory a sync leaves when it is killed between the two writes.\<close>

definition transfer_row :: "nat \<Rightarrow> nat \<Rightarrow> nat \<Rightarrow> int \<Rightarrow> event_row" where
  "transfer_row b i ts v = \<lparr>row_deployment = (100, ''0xreg''), row_block = b, row_ts = ts, row_tx = ''0x01'',
     row_tx_index = 0, row_log_index = i, row_emitter = ''0xbzz'', row_event = ''Transfer'',
     row_args = [''from'' \<mapsto> ArgText ''0xreg'', ''to'' \<mapsto> ArgText ''0xpostage'', ''value'' \<mapsto> ArgInt v]\<rparr>"

definition chain_fetch :: "event_row list \<Rightarrow> int \<Rightarrow> int \<Rightarrow> event_row list" where
  "chain_fetch rows a e = filter (\<lambda>r. a \<le> int (row_block r) \<and> int (row_block r) \<le> e) rows"

definition fee_row :: event_row where
  "fee_row = transfer_row 3 0 100 7"

definition killed_dir :: dep_dir where
  "killed_dir = append_rows [fee_row] empty_dir"

lemma chain_fetch_serves: "serves_chain [fee_row] (chain_fetch [fee_row])"
  by (simp add: serves_chain_def chain_fetch_def)

lemma fee_row_fetched: "all_fetched [fee_row] 1"
  by (simp add: all_fetched_def fee_row_def transfer_row_def)

lemma fee_row_files: "file_rows killed_dir = [fee_row]" "dir_head killed_dir = None"
  by (simp_all add: killed_dir_def file_rows_def append_rows_def empty_dir_def)

lemma killed_life: "sync_life (chain_fetch [fee_row]) 1 killed_dir"
  unfolding killed_dir_def
proof (rule sync_life.killed [OF sync_life.created])
  show "subseq [fee_row] (chain_fetch [fee_row] (sync_from 1 empty_dir) 5)"
    by (simp add: chain_fetch_def sync_from_def empty_dir_def fee_row_def transfer_row_def)
qed

lemma killed_log: "log_merged (load_event_log killed_dir) = [fee_row]"
  by (subst load_rows) (simp_all add: fee_row_files)

lemma fee_row_upto: "rows_upto [fee_row] 5 = [fee_row]"
  by (simp add: rows_upto_def fee_row_def transfer_row_def)

lemma finished_life: "sync_life (chain_fetch [fee_row]) 1 (sync_chunk (chain_fetch [fee_row]) killed_dir (1, 5))"
  using sync_life.finished [OF killed_life, of 5] by (simp add: sync_from_def fee_row_files)

section \<open>The properties\<close>

text \<open>C23: Every sync asks for a sequence of ranges that ends, for every size of at least one, or has no block to ask for;
  the ranges follow each other, none is longer than the size, and together they are the blocks from the
  first to the last, each once. Only a size below one with a block to ask for never ends.\<close>

theorem ranges_end_and_cover:
  "case log_chunks chunk start to_block of
     None \<Rightarrow> chunk \<le> 0 \<and> start \<le> to_block
   | Some cs \<Rightarrow> concat (map (\<lambda>(a, e). [a..e]) cs) = [start..to_block] \<and>
       list_all (\<lambda>(a, e). a \<le> e \<and> e < a + chunk) cs"
proof (cases "1 \<le> chunk")
  case True
  then show ?thesis using log_chunks_cover [OF True, of start to_block] by auto
next
  case False
  show ?thesis
  proof (cases "start \<le> to_block")
    case True
    then have "log_chunks chunk start to_block = None"
      using False log_chunks_some [of chunk start to_block] by (cases "log_chunks chunk start to_block") auto
    then show ?thesis using True False by simp
  qed (simp add: log_chunks_simps)
qed

text \<open>C17: Exactly once. Whatever syncs ran on a directory, finished or killed between two rows of a range, the
  log loaded from it holds no row twice and only rows of the chain, and up to the recorded head it is the
  chain's log, row for row in chain order.\<close>

theorem store_exactly_once:
  assumes rpc: "serves_chain rows fetch" and start: "all_fetched rows genesis"
    and life: "sync_life fetch genesis d" and head: "dir_head d = Some h"
  shows "distinct (log_merged (load_event_log d)) \<and> set (log_merged (load_event_log d)) \<subseteq> set rows \<and>
    filter (\<lambda>r. int (row_block r) \<le> h) (log_merged (load_event_log d)) = rows_upto rows h"
proof -
  note ok = sync_life_ok [OF rpc _ life]
  have ok: "store_ok rows d" by (rule ok) (use start in \<open>simp add: all_fetched_def list_all_iff\<close>)
  note s = stored_rows [OF rpc start ok]
  let ?p = "filter (\<lambda>r. int (row_block r) \<le> h) (log_merged (load_event_log d))"
  have set: "set ?p = set (filter (\<lambda>r. int (row_block r) \<le> h) rows)"
    using ok head s(2) by (auto simp: store_ok_def)
  have "sorted (map position ?p)" using s(5) by (rule sorted_filter)
  then have "?p = sort_key position ?p" by (simp add: sort_key_id_if_sorted)
  also have "\<dots> = rows_upto rows h" unfolding rows_upto_def
    by (rule same_rows [OF serves_chainD(2) [OF rpc] _ _ set]) (use s(1) serves_chainD(1) [OF rpc] set in auto)
  finally show ?thesis using s(1,3) by simp
qed

lemma store_exactly_once_witness:
  "filter (\<lambda>r. int (row_block r) \<le> 5)
     (log_merged (load_event_log (sync_chunk (chain_fetch [fee_row]) killed_dir (1, 5)))) = [fee_row]"
  using store_exactly_once [OF chain_fetch_serves fee_row_fetched finished_life, of 5]
  by (simp add: sync_chunk_def fee_row_upto)





end
