(* ===== verification/RegistryLog.thy ===== *)
theory RegistryLog
  imports RegistryLife
begin

text \<open>
  What the registry's own events say of its state: a reader that sees the events only, and plays them
  in the order they were emitted, has the Active volumes with their depths and the active accounts.
  This is the contract the indexer's projector relies on.
\<close>

section \<open>Playing the events\<close>

fun volume_event :: "sol_event \<Rightarrow> (bytes32 \<rightharpoonup> uint8) \<Rightarrow> (bytes32 \<rightharpoonup> uint8)" where
  "volume_event (LogVolumeCreated v _ _ _ d _) m = m(v \<mapsto> d)"
| "volume_event (LogVolumeImported v _ _ _ d _ _) m = m(v \<mapsto> d)"
| "volume_event (LogVolumeRetired v _) m = m(v := None)"
| "volume_event _ m = m"

fun account_event :: "sol_event \<Rightarrow> sol_address set \<Rightarrow> sol_address set" where
  "account_event (LogAccountActivated owner _) A = insert owner A"
| "account_event (LogAccountRevoked owner _ _) A = A - {owner}"
| "account_event _ A = A"

text \<open>The zero codes of the two reason enums are never emitted.\<close>

fun proper_event :: "sol_event \<Rightarrow> bool" where
  "proper_event (LogVolumeRetired _ x) \<longleftrightarrow> x \<noteq> RetireNone"
| "proper_event (LogTopupSkipped _ x) \<longleftrightarrow> x \<noteq> SkipNone"
| "proper_event _ \<longleftrightarrow> True"

definition active_depths :: "registry \<Rightarrow> bytes32 \<rightharpoonup> uint8" where
  "active_depths r v = (if v_status (volumes r v) = StatusActive then Some (v_depth (volumes r v)) else None)"

definition authorized :: "registry \<Rightarrow> sol_address set" where
  "authorized r = {owner. a_active (accounts r owner)}"

text \<open>The events between two states account for the change.\<close>

definition told :: "'x chain_state \<Rightarrow> 'x chain_state \<Rightarrow> bool" where
  "told s s' \<longleftrightarrow> (\<exists>es. st_events s' = st_events s @ es \<and>
     fold volume_event es (active_depths (st_registry s)) = active_depths (st_registry s') \<and>
     fold account_event es (authorized (st_registry s)) = authorized (st_registry s') \<and>
     list_all proper_event es)"

lemma told_refl: "told s s"
  by (simp add: told_def)

lemma told_trans: "told s s1 \<Longrightarrow> told s1 s2 \<Longrightarrow> told s s2"
  unfolding told_def by (metis append.assoc fold_append comp_apply list_all_append)

lemma told_silent:
  "st_registry s' = st_registry s \<Longrightarrow> st_events s' = st_events s \<Longrightarrow> told s s'"
  by (simp add: told_def)

lemma told_event:
  assumes "st_events s' = st_events s @ [e]"
    "volume_event e (active_depths (st_registry s)) = active_depths (st_registry s')"
    "account_event e (authorized (st_registry s)) = authorized (st_registry s')" "proper_event e"
  shows "told s s'"
  unfolding told_def by (rule exI [of _ "[e]"]) (simp add: assms)

lemma authorized_funding: "authorized r = dom (funding r)"
  by (auto simp: authorized_def funding_def dom_def)

lemma active_depths_ids:
  "active_set r \<Longrightarrow> active_depths r v = (if v \<in> set (activeVolumeIds r) then Some (v_depth (volumes r v)) else None)"
  by (simp add: active_depths_def active_set_def)

lemma depth_kept:
  assumes "evolves r r'" "v_status (volumes r v) \<noteq> StatusNone"
  shows "v_depth (volumes r' v) = v_depth (volumes r v)"
  using assms by (auto simp: evolves_def terms_of_def)

section \<open>Every operation tells\<close>

lemma retire_told:
  assumes inv: "active_set (st_registry s)"
    and act: "v_status (volumes (st_registry s) v) = StatusActive" and run: "retire v x s = Inr (u, s')"
    and x: "x \<noteq> RetireNone"
  shows "told s s'"
proof -
  obtain s1 where r: "retire v x s = Inr ((), s1)" "keeps (st_registry s) (st_registry s1)"
    "mset (activeVolumeIds (st_registry s1)) = mset (activeVolumeIds (st_registry s)) - {#v#}"
    "accounts (st_registry s1) = accounts (st_registry s)"
    "st_events s1 = st_events s @ [LogVolumeRetired v x]"
    by (rule retire_active [OF inv act, of x])
  have s1: "s1 = s'" using r(1) run by simp
  note keeps = r(2) [unfolded s1 keeps_def]
  have "mset (activeVolumeIds (st_registry s')) = mset (remove1 v (activeVolumeIds (st_registry s)))"
    using r(3) s1 by simp
  from mset_eq_setD [OF this] have ids: "set (activeVolumeIds (st_registry s')) = set (activeVolumeIds (st_registry s)) - {v}"
    using inv by (simp add: active_set_def)
  have "active_depths (st_registry s') a = ((active_depths (st_registry s))(v := None)) a" for a
  proof (cases "a \<in> set (activeVolumeIds (st_registry s))")
    case True
    then have "v_status (volumes (st_registry s) a) = StatusActive" using inv by (simp add: active_set_def)
    then show ?thesis using depth_kept [of "st_registry s" "st_registry s'" a] keeps inv ids True
      by (simp add: active_depths_ids)
  next
    case False
    then show ?thesis using keeps inv ids by (simp add: active_depths_ids)
  qed
  then show ?thesis using r(4,5) s1 x by (intro told_event) (auto simp: authorized_def)
qed

lemma retired_with_told:
  "active_set (st_registry s) \<Longrightarrow> v_status (volumes (st_registry s) v) = StatusActive \<Longrightarrow>
   x \<noteq> RetireNone \<Longrightarrow> retired_with v x s = Inr (oc, s') \<Longrightarrow> told s s'"
  by (auto simp: retired_with_def split: sum.splits intro: retire_told)

lemma decide_reasons:
  "decide X w c v s = Retire x \<Longrightarrow> v_status (volumes (st_registry s) v) = StatusActive"
  "decide X w c v s = Retire x \<Longrightarrow> x \<noteq> RetireNone"
  "decide X w c v s = Skip y \<Longrightarrow> y \<noteq> SkipNone"
  by (cases "v_status (volumes (st_registry s) v)";
      auto simp: decide_def decision_table_def Let_def nullish_def split: if_splits)+

lemma triggerOne_told:
  assumes inv: "active_set (st_registry s)" and run: "triggerOne X w c v s = Inr (oc, s')"
  shows "told s s'"
proof (cases "decide X w c v s")
  case (Retire x)
  then show ?thesis using run retired_with_told [OF inv decide_reasons(1) [OF Retire] decide_reasons(2) [OF Retire]]
    by (simp add: triggerOne_decides)
qed (use run in \<open>auto simp: triggerOne_decides Let_def told_refl decide_reasons
    dest!: pay_topup_frame intro!: told_event\<close>)

lemma triggerVolumes_told:
  "active_set (st_registry s) \<Longrightarrow> triggerVolumes X w c vs s = Inr (u, s') \<Longrightarrow> told s s'"
proof (induction vs arbitrary: s)
  case Nil
  then show ?case by (simp add: told_refl)
next
  case (Cons v vs)
  then obtain oc s1 where one: "triggerOne X w c v s = Inr (oc, s1)"
    and rest: "triggerVolumes X w c vs s1 = Inr (u, s')" by (auto split: sum.splits)
  have "active_set (st_registry s1)" using triggerOne_effect [OF Cons.prems(1) one] by (simp add: keeps_def)
  then show ?case using told_trans triggerOne_told [OF Cons.prems(1) one] Cons.IH rest by blast
qed

text \<open>A recorded volume, and the event that follows it.\<close>

lemma record_told:
  assumes inv: "active_set (st_registry s)" "length (activeVolumeIds (st_registry s)) < 2 ^ 32"
    and rec: "recordVolume X c b signer depth ttl s = Inr (v, s1)"
    and e: "\<And>m. volume_event e m = m(v \<mapsto> depth)" "\<And>A. account_event e A = A" "proper_event e"
  shows "told s (emit e s1)"
proof (rule told_event [where e = e])
  note rk = record_keeps [OF inv rec]
  have mine: "v_status (volumes (st_registry s1) v) = StatusActive" "v_depth (volumes (st_registry s1) v) = depth"
    and other: "\<And>a. a \<noteq> v \<Longrightarrow> volumes (st_registry s1) a = volumes (st_registry s) a"
    using rec by (auto simp: recordVolume_def Let_def split: if_splits)
  show "st_events (emit e s1) = st_events s @ [e]" using rk(4) by simp
  have "((active_depths (st_registry s))(v \<mapsto> depth)) a = active_depths (st_registry s1) a" for a
    by (cases "a = v") (simp_all add: active_depths_def mine other)
  then show "volume_event e (active_depths (st_registry s)) = active_depths (st_registry (emit e s1))"
    by (auto simp: e)
  show "account_event e (authorized (st_registry s)) = authorized (st_registry (emit e s1))"
    by (simp add: e authorized_funding recordVolume_accounts(2) [OF rec])
qed (rule e(3))

lemma registerVolume_told:
  assumes inv: "active_set (st_registry s)" "length (activeVolumeIds (st_registry s)) < 2 ^ 32"
    and run: "registerVolume X c b ttl s = Inr (v, s')"
  shows "told s s'"
proof -
  let ?b = "x_batches X b (st_ext s)"
  obtain s1 where "recordVolume X c b (b_owner ?b) (b_depth ?b) ttl s = Inr (v, s1)"
    "s' = emit (LogVolumeImported v (msg_sender c) b (b_owner ?b) (b_depth ?b) ttl (b_normalisedBalance ?b)) s1"
    using run by (auto simp: registerVolume_def Let_def split: if_splits sum.splits)
  then show ?thesis using record_told [OF inv] by simp
qed

lemma importVolume_told:
  assumes inv: "active_set (st_registry s)" "length (activeVolumeIds (st_registry s)) < 2 ^ 32"
    and run: "importVolume X w c b ttl s = Inr (v, s')"
  shows "told s s'"
proof -
  obtain s1 oc where reg: "registerVolume X c b ttl s = Inr (v, s1)"
    and tr: "triggerOne X w c v s1 = Inr (oc, s')"
    using run by (auto simp: importVolume_def split: sum.splits if_splits)
  have "active_set (st_registry s1)" using registerVolume_keeps [OF inv reg] by (simp add: keeps_def)
  then show ?thesis using told_trans registerVolume_told [OF inv reg] triggerOne_told [OF _ tr] by blast
qed

lemma createVolume_told:
  assumes inv: "active_set (st_registry s)" "length (activeVolumeIds (st_registry s)) < 2 ^ 32"
    and run: "createVolume X w c signer depth bucket ttl imm s = Inr (v, s')"
  shows "told s s'"
proof -
  let ?r1 = "(st_registry s)\<lparr>nextNonce := nextNonce (st_registry s) + 1\<rparr>"
  obtain b x s1 s2 s4 where calls:
      "require_call (x_transferFrom X (a_payer (accounts (st_registry s) (msg_sender c))) (w_self w)
         (push_bit (unat depth) (ucast (x_lastPrice X (st_ext s)) * ucast (w_graceBlocks w)))) ''BZZ_TRANSFER_FAIL'' s = Inr ((), s1)"
      "require_call (x_approve X (w_postage w)
         (push_bit (unat depth) (ucast (x_lastPrice X (st_ext s)) * ucast (w_graceBlocks w)))) ''BZZ_APPROVE_FAIL'' s1 = Inr ((), s2)"
    and rec: "recordVolume X c b signer depth ttl ((set_registry ?r1 s2)\<lparr>st_ext := x\<rparr>) = Inr (v, s4)"
    and s': "s' = emit (LogVolumeCreated v (msg_sender c) b signer depth ttl) s4"
    using run by (auto simp: createVolume_def Let_def split: if_splits sum.splits option.splits)
  let ?s3 = "(set_registry ?r1 s2)\<lparr>st_ext := x\<rparr>"
  have "st_events ?s3 = st_events s" using require_call_frame [OF calls(1)] require_call_frame [OF calls(2)] by simp
  moreover have "active_depths ?r1 = active_depths (st_registry s)" "authorized ?r1 = authorized (st_registry s)"
    by (simp_all add: fun_eq_iff active_depths_def authorized_def)
  ultimately have "told s ?s3" by (simp add: told_def)
  moreover have "told ?s3 s'" unfolding s'
    by (rule record_told [OF _ _ rec]) (use inv in \<open>simp_all add: active_set_def\<close>)
  ultimately show ?thesis by (rule told_trans)
qed

lemma account_calls_told:
  "designateFundingWallet c p s = Inr (u, s') \<Longrightarrow> told s s'"
  "confirmAuth c a s = Inr (u, s') \<Longrightarrow> told s s'"
  "revoke c a s = Inr (u, s') \<Longrightarrow> told s s'"
  by (auto simp: designateFundingWallet_def confirmAuth_def revoke_def Let_def fun_eq_iff active_depths_def
      authorized_def split: if_splits intro!: told_event)

lemma delete_reap_told:
  "active_set (st_registry s) \<Longrightarrow> deleteVolume c v s = Inr (u, s') \<Longrightarrow> told s s'"
  "active_set (st_registry s) \<Longrightarrow> reap c v s = Inr (u, s') \<Longrightarrow> told s s'"
  by (auto simp: deleteVolume_def reap_def Let_def told_refl split: if_splits intro: retire_told)

lemma triggerVolume_told: "active_set (st_registry s) \<Longrightarrow> triggerVolume X w c v s = Inr (u, s') \<Longrightarrow> told s s'"
  by (auto simp: triggerVolume_def split: sum.splits dest: triggerOne_told)

text \<open>The contract of an operation with a reader of its events.\<close>

locale telling_operation =
  fixes op :: "'x chain_state \<Rightarrow> sol_error + ('a \<times> 'x chain_state)"
  assumes op_told: "active_set (st_registry s) \<Longrightarrow> length (activeVolumeIds (st_registry s)) < 2 ^ 32 \<Longrightarrow>
    op s = Inr (a, s') \<Longrightarrow> told s s'"
begin

lemma call_told:
  "active_set (st_registry s) \<Longrightarrow> length (activeVolumeIds (st_registry s)) < 2 ^ 32 \<Longrightarrow>
   map_sum id snd (op s) = Inr s' \<Longrightarrow> told s s'"
  by (cases "op s") (auto intro: op_told)

end

interpretation tells_designate: telling_operation "designateFundingWallet c p"
  by unfold_locales (rule account_calls_told)

interpretation tells_confirm: telling_operation "confirmAuth c a"
  by unfold_locales (rule account_calls_told)

interpretation tells_revoke: telling_operation "revoke c a"
  by unfold_locales (rule account_calls_told)

interpretation tells_create: telling_operation "createVolume X w c signer depth bucket ttl imm"
  by unfold_locales (rule createVolume_told)

interpretation tells_register: telling_operation "registerVolume X c b ttl"
  by unfold_locales (rule registerVolume_told)

interpretation tells_import: telling_operation "importVolume X w c b ttl"
  by unfold_locales (rule importVolume_told)

interpretation tells_delete: telling_operation "deleteVolume c v"
  by unfold_locales (rule delete_reap_told)

interpretation tells_trigger: telling_operation "triggerVolume X w c v"
  by unfold_locales (rule triggerVolume_told)

interpretation tells_batch: telling_operation "triggerVolumes X w c vs"
  by unfold_locales (rule triggerVolumes_told)

interpretation tells_reap: telling_operation "reap c v"
  by unfold_locales (rule delete_reap_told)

lemmas calls_told = tells_designate.call_told tells_confirm.call_told tells_revoke.call_told tells_create.call_told
  tells_register.call_told tells_import.call_told tells_delete.call_told tells_trigger.call_told
  tells_batch.call_told tells_reap.call_told

lemma run_call_told:
  assumes "active_set (st_registry s)" "length (activeVolumeIds (st_registry s)) < 2 ^ 32"
    "run_call X w c op s = Inr s'"
  shows "told s s'"
  using assms(3) by (cases op) (simp_all add: calls_told [OF assms(1,2)])

lemma step_told: "registry_step X w s s' \<Longrightarrow> active_set (st_registry s) \<Longrightarrow> told s s'"
  by (erule registry_stepE) (auto simp: told_silent run_call_told)

lemma steps_told: "(registry_step X w)\<^sup>*\<^sup>* s s' \<Longrightarrow> active_set (st_registry s) \<Longrightarrow> told s s'"
proof (induction rule: rtranclp_induct)
  case base
  show ?case by (rule told_refl)
next
  case (step s1 s2)
  have "active_set (st_registry s1)" using steps_evolve [OF step(1,4)] by (simp add: keeps_def)
  then show ?case using told_trans step.IH [OF step.prems] step_told [OF step(2)] by blast
qed

lemma reachable_replay:
  assumes "reachable X w s"
  shows "fold volume_event (st_events s) (\<lambda>_. None) = active_depths (st_registry s)"
    and "fold account_event (st_events s) {} = authorized (st_registry s)"
    and "list_all proper_event (st_events s)"
proof -
  have "fold volume_event (st_events s) (\<lambda>_. None) = active_depths (st_registry s) \<and>
      fold account_event (st_events s) {} = authorized (st_registry s) \<and> list_all proper_event (st_events s)"
    using assms
  proof (induction rule: reachable.induct)
    case (deployed self postage bzz grace permit x s)
    then have "st_registry s = empty_registry" "st_events s = []"
      by (auto simp: deploy_def Let_def split: if_splits)
    then show ?case by (simp add: fun_eq_iff active_depths_def authorized_def empty_registry_def zero_volume_def)
  next
    case (stepped s s')
    from step_told [OF stepped(2) reachable_active_set [OF stepped(1)]]
    show ?case using stepped.IH by (auto simp: told_def)
  qed
  then show "fold volume_event (st_events s) (\<lambda>_. None) = active_depths (st_registry s)"
    and "fold account_event (st_events s) {} = authorized (st_registry s)"
    and "list_all proper_event (st_events s)" by simp_all
qed

end
