(* ===== verification/IndexerDecode.thy ===== *)
theory IndexerDecode
  imports IndexerLog RegistryAbi RegistryLog
begin

text \<open>
  \<open>services/indexer/src/ethswarm_volumes/decode.py\<close>: raw logs to rows. The mechanical ABI decode is the
  library's; a raw log comes with the values it finds, in the order of the event's inputs, and with the
  signature its first topic is the hash of. What the module adds is here: the event tables of every
  contract version, the names of the arguments, the names of the enum values, and the errors. An
  exception is the left value of a sum.
\<close>

section \<open>Values\<close>

datatype raw_value = RawAddress sol_address | RawBytes bytes32 | RawInt int

definition hex_digit :: "nat \<Rightarrow> char" where
  "hex_digit n = ''0123456789abcdef'' ! n"

fun hex_digits :: "nat \<Rightarrow> nat \<Rightarrow> string" where
  "hex_digits 0 n = []"
| "hex_digits (Suc k) n = hex_digits k (n div 16) @ [hex_digit (n mod 16)]"

definition hex_bytes :: "'a::len word \<Rightarrow> string" where
  "hex_bytes w = ''0x'' @ hex_digits (LENGTH('a) div 4) (unat w)"

fun normalize_value :: "raw_value \<Rightarrow> arg" where
  "normalize_value (RawAddress a) = ArgText (hex_bytes a)"
| "normalize_value (RawBytes b) = ArgText (hex_bytes b)"
| "normalize_value (RawInt i) = ArgInt i"

text \<open>\<open>_snake\<close>.\<close>

definition is_capital :: "char \<Rightarrow> bool" where
  "is_capital c \<longleftrightarrow> c \<in> set ''ABCDEFGHIJKLMNOPQRSTUVWXYZ''"

definition lower_char :: "char \<Rightarrow> char" where
  "lower_char c = (if is_capital c then char_of (of_char c + 32 :: nat) else c)"

fun snake :: "string \<Rightarrow> string" where
  "snake [] = []"
| "snake (c # cs) = lower_char c # concat (map (\<lambda>c. if is_capital c then [CHR ''_'', lower_char c] else [lower_char c]) cs)"

section \<open>The version tables\<close>

definition ix :: "string \<Rightarrow> string \<Rightarrow> abi_param" where
  "ix name ty = indexed_param name (ValueType ty)"

definition pl :: "string \<Rightarrow> string \<Rightarrow> abi_param" where
  "pl name ty = param name (ValueType ty)"

definition v1_event_abis :: "abi_item list" where
  "v1_event_abis =
     [AbiEvent ''AccountActivated'' [ix ''owner'' ''address'', ix ''payer'' ''address''],
      AbiEvent ''AccountRevoked'' [ix ''owner'' ''address'', ix ''payer'' ''address'', pl ''revoker'' ''address''],
      AbiEvent ''PayerDesignated'' [ix ''owner'' ''address'', pl ''payer'' ''address''],
      AbiEvent ''Toppedup''
        [ix ''volumeId'' ''bytes32'', pl ''amount'' ''uint256'', pl ''newNormalisedBalance'' ''uint256''],
      AbiEvent ''TopupSkipped'' [ix ''volumeId'' ''bytes32'', pl ''reason'' ''uint8''],
      AbiEvent ''VolumeCreated''
        [ix ''volumeId'' ''bytes32'', ix ''owner'' ''address'', pl ''chunkSigner'' ''address'',
         pl ''depth'' ''uint8'', pl ''ttlExpiry'' ''uint64''],
      AbiEvent ''VolumeOwnershipTransferred''
        [ix ''volumeId'' ''bytes32'', ix ''from'' ''address'', ix ''to'' ''address''],
      AbiEvent ''VolumeRetired'' [ix ''volumeId'' ''bytes32'', pl ''reason'' ''uint8''],
      AbiEvent ''Transfer'' [ix ''from'' ''address'', ix ''to'' ''address'', pl ''value'' ''uint256'']]"

definition v2_rc1_event_abis :: "abi_item list" where
  "v2_rc1_event_abis = filter (\<lambda>a. item_name a \<noteq> ''VolumeOwnershipTransferred'') v1_event_abis"

definition v2_rc3_event_abis :: "abi_item list" where
  "v2_rc3_event_abis = filter (\<lambda>a. item_name a \<noteq> ''VolumeCreated'') v2_rc1_event_abis @
     [AbiEvent ''VolumeCreated''
        [ix ''volumeId'' ''bytes32'', ix ''owner'' ''address'', ix ''batchId'' ''bytes32'',
         pl ''chunkSigner'' ''address'', pl ''depth'' ''uint8'', pl ''ttlExpiry'' ''uint64''],
      AbiEvent ''VolumeImported''
        [ix ''volumeId'' ''bytes32'', ix ''owner'' ''address'', ix ''batchId'' ''bytes32'',
         pl ''chunkSigner'' ''address'', pl ''depth'' ''uint8'', pl ''ttlExpiry'' ''uint64'',
         pl ''normalisedBalance'' ''uint256'']]"

type_synonym enum_tables = "((string \<times> string) \<times> (int \<times> string) list) list"

definition v1_retire_reasons :: "(int \<times> string) list" where
  "v1_retire_reasons =
     [(1, ''OwnerDeleted''), (2, ''VolumeExpired''), (3, ''BatchDied''), (4, ''DepthChanged''),
      (5, ''BatchOwnerMismatch'')]"

definition v1_skip_reasons :: "(int \<times> string) list" where
  "v1_skip_reasons = [(1, ''NoAuth''), (2, ''PaymentFailed'')]"

definition v1_enums :: enum_tables where
  "v1_enums =
     [((''VolumeRetired'', ''reason''), v1_retire_reasons), ((''TopupSkipped'', ''reason''), v1_skip_reasons)]"

definition v2_rc4_skip_reasons :: "(int \<times> string) list" where
  "v2_rc4_skip_reasons = v1_skip_reasons @ [(3, ''NotFound''), (4, ''NotActive'')]"

definition v2_rc4_enums :: enum_tables where
  "v2_rc4_enums = AList.update (''TopupSkipped'', ''reason'') v2_rc4_skip_reasons v1_enums"

definition versions :: "(string \<times> abi_item list \<times> enum_tables) list" where
  "versions =
     [(''v1'', v1_event_abis, v1_enums), (''v2-rc1'', v2_rc1_event_abis, v1_enums),
      (''v2-rc2'', v2_rc1_event_abis, v1_enums), (''v2-rc3'', v2_rc3_event_abis, v1_enums),
      (''v2-rc4'', v2_rc3_event_abis, v2_rc4_enums)]"

definition supported_versions :: "string list" where
  "supported_versions = map fst versions"

definition topic_index :: "abi_item list \<Rightarrow> (string \<times> abi_item) list" where
  "topic_index abis = map (\<lambda>a. (signature a, a)) abis"

lemmas version_tables = versions_def v1_event_abis_def v2_rc1_event_abis_def v2_rc3_event_abis_def
  v1_enums_def v2_rc4_enums_def v1_retire_reasons_def v1_skip_reasons_def v2_rc4_skip_reasons_def ix_def pl_def

section \<open>Decoding\<close>

datatype decode_error = KeyError | MissingBlockTimestampError

text \<open>\<open>enum[value]\<close> of one argument: a value without a name raises.\<close>

fun enum_value :: "(int \<times> string) list \<Rightarrow> arg \<Rightarrow> decode_error + arg" where
  "enum_value names (ArgInt i) = (case map_of names i of None \<Rightarrow> Inl KeyError | Some n \<Rightarrow> Inr (ArgText n))"
| "enum_value names (ArgText t) = Inl KeyError"

fun map_args ::
  "enum_tables \<Rightarrow> string \<Rightarrow> (string \<times> arg) list \<Rightarrow> (string \<rightharpoonup> arg) \<Rightarrow> decode_error + (string \<rightharpoonup> arg)" where
  "map_args enums event [] out = Inr out"
| "map_args enums event ((abi_key, value) # rest) out =
     (case map_of enums (event, snake abi_key) of
        None \<Rightarrow> map_args enums event rest (out(snake abi_key \<mapsto> value))
      | Some names \<Rightarrow>
          (case enum_value names value of
             Inl e \<Rightarrow> Inl e
           | Inr name \<Rightarrow> map_args enums event rest (out(snake abi_key \<mapsto> name))))"

definition map_event_args :: "string \<Rightarrow> string \<Rightarrow> (string \<times> arg) list \<Rightarrow> decode_error + (string \<rightharpoonup> arg)" where
  "map_event_args version event abi_args =
     (case map_of versions version of
        None \<Rightarrow> Inl KeyError
      | Some (_, enums) \<Rightarrow> map_args enums event abi_args Map.empty)"

record raw_log =
  lg_topic :: string
  lg_values :: "raw_value list"
  lg_block :: nat
  lg_timestamp :: "nat option"
  lg_tx :: string
  lg_tx_index :: nat
  lg_index :: nat
  lg_address :: string

definition log_timestamp :: "raw_log \<Rightarrow> decode_error + nat" where
  "log_timestamp lg = (case lg_timestamp lg of None \<Rightarrow> Inl MissingBlockTimestampError | Some t \<Rightarrow> Inr t)"

definition decode_log :: "deployment_id \<Rightarrow> string \<Rightarrow> raw_log \<Rightarrow> decode_error + event_row" where
  "decode_log dep version lg =
     (case map_of versions version of
        None \<Rightarrow> Inl KeyError
      | Some (abis, _) \<Rightarrow>
     (case map_of (topic_index abis) (lg_topic lg) of
        None \<Rightarrow> Inl KeyError
      | Some abi \<Rightarrow>
          (let abi_args = zip (map ap_name (item_inputs abi)) (map normalize_value (lg_values lg)) in
           case map_event_args version (item_name abi) abi_args of
             Inl e \<Rightarrow> Inl e
           | Inr args \<Rightarrow>
          (case log_timestamp lg of
             Inl e \<Rightarrow> Inl e
           | Inr ts \<Rightarrow>
               Inr \<lparr>row_deployment = dep, row_block = lg_block lg, row_ts = ts, row_tx = lg_tx lg,
                    row_tx_index = lg_tx_index lg, row_log_index = lg_index lg,
                    row_emitter = map lower_char (lg_address lg), row_event = item_name abi, row_args = args\<rparr>))))"

section \<open>What the registry logs\<close>

text \<open>The values of an event in the order of its declaration, an enum as its code.\<close>

fun event_values :: "sol_event \<Rightarrow> raw_value list" where
  "event_values (LogVolumeCreated v owner b signer d ttl) =
     [RawBytes v, RawAddress owner, RawBytes b, RawAddress signer, RawInt (uint d), RawInt (uint ttl)]"
| "event_values (LogVolumeImported v owner b signer d ttl bal) =
     [RawBytes v, RawAddress owner, RawBytes b, RawAddress signer, RawInt (uint d), RawInt (uint ttl), RawInt (uint bal)]"
| "event_values (LogVolumeRetired v x) = [RawBytes v, RawInt (int (retire_code x))]"
| "event_values (LogPayerDesignated owner payer) = [RawAddress owner, RawAddress payer]"
| "event_values (LogAccountActivated owner payer) = [RawAddress owner, RawAddress payer]"
| "event_values (LogAccountRevoked owner payer revoker) = [RawAddress owner, RawAddress payer, RawAddress revoker]"
| "event_values (LogToppedup v amount bal) = [RawBytes v, RawInt (uint amount), RawInt (uint bal)]"
| "event_values (LogTopupSkipped v x) = [RawBytes v, RawInt (int (skip_code x))]"

definition event_signature :: "sol_event \<Rightarrow> string" where
  "event_signature e =
     (case find (\<lambda>i. item_name i = event_name e) contract_events of None \<Rightarrow> [] | Some i \<Rightarrow> signature i)"

record log_place =
  lp_block :: nat
  lp_time :: nat
  lp_tx :: string
  lp_tx_index :: nat
  lp_index :: nat
  lp_address :: string

definition logged :: "log_place \<Rightarrow> sol_event \<Rightarrow> raw_log" where
  "logged p e = \<lparr>lg_topic = event_signature e, lg_values = event_values e, lg_block = lp_block p,
     lg_timestamp = Some (lp_time p), lg_tx = lp_tx p, lg_tx_index = lp_tx_index p, lg_index = lp_index p,
     lg_address = lp_address p\<rparr>"

text \<open>The row such a log should become.\<close>

fun retire_text :: "retire_reason \<Rightarrow> string" where
  "retire_text RetireNone = ''None''"
| "retire_text OwnerDeleted = ''OwnerDeleted''"
| "retire_text VolumeExpired = ''VolumeExpired''"
| "retire_text BatchDied = ''BatchDied''"
| "retire_text DepthChanged = ''DepthChanged''"
| "retire_text BatchOwnerMismatch = ''BatchOwnerMismatch''"

fun skip_text :: "skip_reason \<Rightarrow> string" where
  "skip_text SkipNone = ''None''"
| "skip_text NoAuth = ''NoAuth''"
| "skip_text PaymentFailed = ''PaymentFailed''"
| "skip_text SkipNotFound = ''NotFound''"
| "skip_text SkipNotActive = ''NotActive''"

definition of_word :: "'a::len word \<Rightarrow> arg" where
  "of_word w = ArgText (hex_bytes w)"

fun event_args :: "sol_event \<Rightarrow> (string \<times> arg) list" where
  "event_args (LogVolumeCreated v owner b signer d ttl) =
     [(''volume_id'', of_word v), (''owner'', of_word owner), (''batch_id'', of_word b),
      (''chunk_signer'', of_word signer), (''depth'', ArgInt (uint d)), (''ttl_expiry'', ArgInt (uint ttl))]"
| "event_args (LogVolumeImported v owner b signer d ttl bal) =
     [(''volume_id'', of_word v), (''owner'', of_word owner), (''batch_id'', of_word b),
      (''chunk_signer'', of_word signer), (''depth'', ArgInt (uint d)), (''ttl_expiry'', ArgInt (uint ttl)),
      (''normalised_balance'', ArgInt (uint bal))]"
| "event_args (LogVolumeRetired v x) = [(''volume_id'', of_word v), (''reason'', ArgText (retire_text x))]"
| "event_args (LogPayerDesignated owner payer) = [(''owner'', of_word owner), (''payer'', of_word payer)]"
| "event_args (LogAccountActivated owner payer) = [(''owner'', of_word owner), (''payer'', of_word payer)]"
| "event_args (LogAccountRevoked owner payer revoker) =
     [(''owner'', of_word owner), (''payer'', of_word payer), (''revoker'', of_word revoker)]"
| "event_args (LogToppedup v amount bal) =
     [(''volume_id'', of_word v), (''amount'', ArgInt (uint amount)), (''new_normalised_balance'', ArgInt (uint bal))]"
| "event_args (LogTopupSkipped v x) = [(''volume_id'', of_word v), (''reason'', ArgText (skip_text x))]"

definition event_row_of :: "deployment_id \<Rightarrow> log_place \<Rightarrow> sol_event \<Rightarrow> event_row" where
  "event_row_of dep p e = \<lparr>row_deployment = dep, row_block = lp_block p, row_ts = lp_time p, row_tx = lp_tx p,
     row_tx_index = lp_tx_index p, row_log_index = lp_index p, row_emitter = map lower_char (lp_address p),
     row_event = event_name e, row_args = map_of (event_args e)\<rparr>"

section \<open>Lemmas\<close>

lemma snake_names:
  "snake ''volumeId'' = ''volume_id''" "snake ''owner'' = ''owner''" "snake ''batchId'' = ''batch_id''"
  "snake ''chunkSigner'' = ''chunk_signer''" "snake ''depth'' = ''depth''" "snake ''ttlExpiry'' = ''ttl_expiry''"
  "snake ''normalisedBalance'' = ''normalised_balance''" "snake ''reason'' = ''reason''"
  "snake ''payer'' = ''payer''" "snake ''revoker'' = ''revoker''" "snake ''amount'' = ''amount''"
  "snake ''newNormalisedBalance'' = ''new_normalised_balance''"
  by code_simp+

text \<open>The topics of the registry's events, and what each version finds under them.\<close>

lemma event_signatures:
  "event_signature (LogVolumeCreated v a b c d t) = ''VolumeCreated(bytes32,address,bytes32,address,uint8,uint64)''"
  "event_signature (LogVolumeImported v a b c d t n) =
     ''VolumeImported(bytes32,address,bytes32,address,uint8,uint64,uint256)''"
  "event_signature (LogVolumeRetired v x) = ''VolumeRetired(bytes32,uint8)''"
  "event_signature (LogPayerDesignated a c) = ''PayerDesignated(address,address)''"
  "event_signature (LogAccountActivated a c) = ''AccountActivated(address,address)''"
  "event_signature (LogAccountRevoked a c d') = ''AccountRevoked(address,address,address)''"
  "event_signature (LogToppedup v n m) = ''Toppedup(bytes32,uint256,uint256)''"
  "event_signature (LogTopupSkipped v y) = ''TopupSkipped(bytes32,uint8)''"
  by (simp_all add: event_signature_def abi_items signature_def)

definition rc3_topics :: "(string \<times> abi_item) list" where
  "rc3_topics = topic_index v2_rc3_event_abis"

lemma rc3_index: "map fst rc3_topics =
  [''AccountActivated(address,address)'', ''AccountRevoked(address,address,address)'',
   ''PayerDesignated(address,address)'', ''Toppedup(bytes32,uint256,uint256)'', ''TopupSkipped(bytes32,uint8)'',
   ''VolumeRetired(bytes32,uint8)'', ''Transfer(address,address,uint256)'',
   ''VolumeCreated(bytes32,address,bytes32,address,uint8,uint64)'',
   ''VolumeImported(bytes32,address,bytes32,address,uint8,uint64,uint256)'']"
  by (simp add: rc3_topics_def topic_index_def version_tables signature_def param_defs)

lemma rc_versions: "map_of versions ''v2-rc3'' = Some (v2_rc3_event_abis, v1_enums)"
  "map_of versions ''v2-rc4'' = Some (v2_rc3_event_abis, v2_rc4_enums)"
  by (simp_all add: versions_def)

definition declared :: "sol_event \<Rightarrow> abi_item" where
  "declared e = the (find (\<lambda>i. item_name i = event_name e) contract_events)"

lemma rc3_lookup:
  "map_of (topic_index v2_rc3_event_abis) (event_signature e) = Some (AbiEvent (event_name e)
     (item_inputs (declared e)))"
  by (cases e; simp only: event_signatures) (simp_all add: topic_index_def version_tables signature_def abi_items declared_def)

lemma enum_tables_of:
  "map_of v1_enums (ev, k) = (if k = ''reason'' then if ev = ''VolumeRetired'' then Some v1_retire_reasons
     else if ev = ''TopupSkipped'' then Some v1_skip_reasons else None else None)"
  "map_of v2_rc4_enums (ev, k) = (if k = ''reason'' then if ev = ''VolumeRetired'' then Some v1_retire_reasons
     else if ev = ''TopupSkipped'' then Some v2_rc4_skip_reasons else None else None)"
  by (auto simp: v1_enums_def v2_rc4_enums_def)

lemma reason_values:
  "x \<noteq> RetireNone \<Longrightarrow> enum_value v1_retire_reasons (ArgInt (int (retire_code x))) = Inr (ArgText (retire_text x))"
  "y \<noteq> SkipNone \<Longrightarrow> enum_value v2_rc4_skip_reasons (ArgInt (int (skip_code y))) = Inr (ArgText (skip_text y))"
  "y = NoAuth \<or> y = PaymentFailed \<Longrightarrow> enum_value v1_skip_reasons (ArgInt (int (skip_code y))) = Inr (ArgText (skip_text y))"
  "y = SkipNotFound \<or> y = SkipNotActive \<Longrightarrow> enum_value v1_skip_reasons (ArgInt (int (skip_code y))) = Inl KeyError"
  by (cases x; simp add: v1_retire_reasons_def) (cases y; simp add: v1_skip_reasons_def v2_rc4_skip_reasons_def)+

lemma contract_inputs:
  "map ap_name (item_inputs (declared e)) =
   (case e of LogVolumeCreated _ _ _ _ _ _ \<Rightarrow> [''volumeId'', ''owner'', ''batchId'', ''chunkSigner'', ''depth'', ''ttlExpiry'']
    | LogVolumeImported _ _ _ _ _ _ _ \<Rightarrow> [''volumeId'', ''owner'', ''batchId'', ''chunkSigner'', ''depth'', ''ttlExpiry'', ''normalisedBalance'']
    | LogVolumeRetired _ _ \<Rightarrow> [''volumeId'', ''reason'']
    | LogPayerDesignated _ _ \<Rightarrow> [''owner'', ''payer'']
    | LogAccountActivated _ _ \<Rightarrow> [''owner'', ''payer'']
    | LogAccountRevoked _ _ _ \<Rightarrow> [''owner'', ''payer'', ''revoker'']
    | LogToppedup _ _ _ \<Rightarrow> [''volumeId'', ''amount'', ''newNormalisedBalance'']
    | LogTopupSkipped _ _ \<Rightarrow> [''volumeId'', ''reason''])"
  by (cases e) (simp_all add: abi_items declared_def)

lemmas decode_simps = decode_log_def logged_def rc_versions rc3_lookup contract_inputs map_event_args_def Let_def
  log_timestamp_def event_row_of_def snake_names enum_tables_of of_word_def fun_eq_iff

lemma decode_rc4:
  assumes "proper_event e"
  shows "decode_log dep ''v2-rc4'' (logged p e) = Inr (event_row_of dep p e)"
  using assms by (cases e) (simp_all add: decode_simps reason_values del: snake.simps enum_value.simps)

fun new_skip :: "sol_event \<Rightarrow> bool" where
  "new_skip (LogTopupSkipped _ x) \<longleftrightarrow> x = SkipNotFound \<or> x = SkipNotActive"
| "new_skip _ \<longleftrightarrow> False"

lemma decode_rc3:
  assumes "proper_event e"
  shows "decode_log dep ''v2-rc3'' (logged p e) = (if new_skip e then Inl KeyError else Inr (event_row_of dep p e))"
proof (cases e)
  case (LogTopupSkipped v y)
  then show ?thesis using assms
    by (cases y) (simp_all add: decode_simps reason_values del: snake.simps enum_value.simps skip_code.simps)
qed (use assms in \<open>simp_all add: decode_simps reason_values del: snake.simps enum_value.simps\<close>)

section \<open>Properties\<close>

text \<open>C31: Every log a deployed registry ever emits decodes. Under the table of the current release its row has the
  event's name and every argument under its \<open>snake_case\<close> key, addresses and ids in hexadecimal, numbers as they
  are and reasons by name; under the table of the release before, the rows are the same, and the two skip
  reasons it does not know raise \<open>KeyError\<close>.\<close>

theorem every_log_decodes:
  assumes "reachable X w s" "e \<in> set (st_events s)"
  shows "decode_log dep ''v2-rc4'' (logged p e) = Inr (event_row_of dep p e) \<and>
    decode_log dep ''v2-rc3'' (logged p e) = (if new_skip e then Inl KeyError else Inr (event_row_of dep p e))"
proof -
  have "proper_event e" using reachable_replay(3) [OF assms(1)] assms(2) by (simp add: list_all_iff)
  then show ?thesis using decode_rc4 decode_rc3 by blast
qed

definition place_at :: "nat \<Rightarrow> log_place" where
  "place_at b = \<lparr>lp_block = b, lp_time = 10 * b, lp_tx = ''0x01'', lp_tx_index = 0, lp_index = 0, lp_address = ''0xReg''\<rparr>"

lemma every_log_decodes_witness:
  "decode_log (100, ''0xreg'') ''v2-rc4'' (logged (place_at 1) (LogPayerDesignated 5 6)) =
     Inr (event_row_of (100, ''0xreg'') (place_at 1) (LogPayerDesignated 5 6))"
proof -
  have "LogPayerDesignated 5 6 \<in> set (st_events grown_chain)" by (simp add: grown_chain_def)
  then show ?thesis using every_log_decodes [OF life_reachable [OF sample_life]] by blast
qed

end
