(* ===== verification/IndexedRegistry.thy ===== *)
theory IndexedRegistry
  imports IndexerProject IndexerStore IndexerDecode
begin

text \<open>
  The indexer over the chain: what an entry of the published file says, for any log, and for the log of a
  registry. The rows of a registry are its events, decoded, at increasing places of the chain; the fee transfers of the token come with them.
\<close>

section \<open>Hexadecimal ids are distinct\<close>

lemma hex_digit_inj: "n < 16 \<Longrightarrow> m < 16 \<Longrightarrow> hex_digit n = hex_digit m \<Longrightarrow> n = m"
proof -
  have "distinct ''0123456789abcdef''" by simp
  then show "n < 16 \<Longrightarrow> m < 16 \<Longrightarrow> hex_digit n = hex_digit m \<Longrightarrow> n = m"
    unfolding hex_digit_def by (subst (asm) nth_eq_iff_index_eq) simp_all
qed

lemma length_hex_digits [simp]: "length (hex_digits k n) = k"
  by (induction k arbitrary: n) auto

lemma hex_digits_inj: "hex_digits k n = hex_digits k m \<Longrightarrow> n < 16 ^ k \<Longrightarrow> m < 16 ^ k \<Longrightarrow> n = m"
proof (induction k arbitrary: n m)
  case (Suc k)
  have "n div 16 = m div 16" using Suc by (intro Suc.IH) (auto simp: less_mult_imp_div_less mult.commute)
  moreover have "n mod 16 = m mod 16" using Suc.prems(1) by (intro hex_digit_inj) auto
  ultimately show ?case by (metis div_mult_mod_eq)
qed simp

lemma inj_hex_bytes: "inj (hex_bytes :: bytes32 \<Rightarrow> string)" "inj (hex_bytes :: sol_address \<Rightarrow> string)"
proof -
  show "inj (hex_bytes :: bytes32 \<Rightarrow> string)"
  proof (rule injI)
    fix v w :: bytes32
    assume "hex_bytes v = hex_bytes w"
    then have "hex_digits 64 (unat v) = hex_digits 64 (unat w)" by (simp add: hex_bytes_def)
    moreover have "unat u < 16 ^ 64" for u :: bytes32 using unsigned_less [of u, where 'a = nat] by simp
    ultimately show "v = w" by (metis hex_digits_inj word_unat_eq_iff)
  qed
  show "inj (hex_bytes :: sol_address \<Rightarrow> string)"
  proof (rule injI)
    fix v w :: sol_address
    assume "hex_bytes v = hex_bytes w"
    then have "hex_digits 40 (unat v) = hex_digits 40 (unat w)" by (simp add: hex_bytes_def)
    moreover have "unat u < 16 ^ 40" for u :: sol_address using unsigned_less [of u, where 'a = nat] by simp
    ultimately show "v = w" by (metis hex_digits_inj word_unat_eq_iff)
  qed
qed

section \<open>The log of a registry\<close>

abbreviation volume_names :: "string list" where
  "volume_names \<equiv> ADMIT_EVENTS @ [''VolumeRetired'']"

abbreviation account_names :: "string list" where
  "account_names \<equiv> [''AccountActivated'', ''AccountRevoked'']"

definition chain_rows :: "deployment_id \<Rightarrow> log_place list \<Rightarrow> sol_event list \<Rightarrow> event_row list" where
  "chain_rows dep places es = map (\<lambda>(p, e). event_row_of dep p e) (zip places es)"

definition in_chain_order :: "log_place list \<Rightarrow> bool" where
  "in_chain_order places \<longleftrightarrow> sorted (map (\<lambda>p. (lp_block p, lp_index p)) places)"

text \<open>A log with all the registry's rows, each once, the token's transfers, and nothing else of the deployment.\<close>

definition holds_log :: "deployment_id \<Rightarrow> log_place list \<Rightarrow> sol_event list \<Rightarrow> event_row list \<Rightarrow> bool" where
  "holds_log dep places es rows \<longleftrightarrow> inj_on position (set rows) \<and>
     mset (filter (\<lambda>r. row_deployment r = dep \<and> row_event r \<noteq> ''Transfer'') rows) = mset (chain_rows dep places es)"

text \<open>One event, as a row plays and as the registry tells.\<close>

definition same_active :: "(string \<times> int) list \<Rightarrow> (bytes32 \<rightharpoonup> uint8) \<Rightarrow> bool" where
  "same_active m f \<longleftrightarrow> distinct (map fst m) \<and> set (map fst m) = hex_bytes ` dom f \<and>
     (\<forall>v. map_of m (hex_bytes v) = map_option uint (f v))"

lemma event_row_args:
  "text_arg (event_row_of dep p e) k = (case map_of (event_args e) k of Some (ArgText t) \<Rightarrow> Some t | _ \<Rightarrow> None)"
  "int_arg (event_row_of dep p e) k = (case map_of (event_args e) k of Some (ArgInt i) \<Rightarrow> Some i | _ \<Rightarrow> None)"
  "row_event (event_row_of dep p e) = event_name e"
  "row_ts (event_row_of dep p e) = lp_time p"
  "position (event_row_of dep p e) = (lp_block p, lp_index p)"
  "row_deployment (event_row_of dep p e) = dep"
  by (simp_all add: text_arg_def int_arg_def event_row_of_def position_def)

lemma same_active_update:
  "same_active m f \<Longrightarrow> same_active (AList.update (hex_bytes v) (uint d) m) (f(v \<mapsto> d))"
  using inj_hex_bytes(1) unfolding same_active_def
  by (auto simp: distinct_update update_keys AList.update_conv' inj_eq dom_update image_insert)

lemma same_active_delete:
  assumes "same_active m f"
  shows "same_active (AList.delete (hex_bytes v) m) (f(v := None))"
  using assms inj_hex_bytes(1) unfolding same_active_def
  by (auto simp: distinct_removeAll delete_keys AList.delete_conv' inj_eq)

lemma same_active_length:
  assumes "same_active m f"
  shows "length m = card (dom f)"
proof -
  have "length m = card (set (map fst m))" using assms by (metis same_active_def distinct_card length_map)
  also have "\<dots> = card (hex_bytes ` dom f)" using assms by (simp only: same_active_def)
  also have "\<dots> = card (dom f)" by (rule card_image [OF inj_on_subset [OF inj_hex_bytes(1) subset_UNIV]])
  finally show ?thesis .
qed

lemma rows_Cons [simp]:
  "chain_rows dep (p # ps) (e # es) = event_row_of dep p e # chain_rows dep ps es"
  "chain_rows dep [] es = []" "chain_rows dep ps [] = []"
  by (simp_all add: chain_rows_def)

lemma play_one_volume:
  assumes "same_active m f"
  shows "if event_name e \<in> set volume_names then same_active (play_active (event_row_of dep p e) m) (volume_event e f)
    else volume_event e f = f"
  using assms same_active_update same_active_delete
  by (cases e) (simp_all add: play_active_def event_row_args ADMIT_EVENTS_def of_word_def)

lemma play_one_account:
  "if event_name e \<in> set account_names then
     play_account (event_row_of dep p e) (hex_bytes ` A) = hex_bytes ` account_event e A
   else account_event e A = A"
  by (cases e) (simp_all add: play_account_def event_row_args of_word_def image_set_diff [OF inj_hex_bytes(2)])

lemma play_volumes:
  "length places = length es \<Longrightarrow> same_active m f \<Longrightarrow>
   same_active (fold play_active (filter (\<lambda>r. row_event r \<in> set volume_names) (chain_rows dep places es)) m)
     (fold volume_event es f)"
proof (induction places es arbitrary: m f rule: list_induct2)
  case (Cons p ps e es)
  then show ?case using play_one_volume [OF Cons.prems, of e dep p] by (simp add: event_row_args split: if_splits)
qed simp

lemma play_accounts:
  "length places = length es \<Longrightarrow>
   fold play_account (filter (\<lambda>r. row_event r \<in> set account_names) (chain_rows dep places es)) (hex_bytes ` A) =
     hex_bytes ` fold account_event es A"
proof (induction places es arbitrary: A rule: list_induct2)
  case (Cons p ps e es)
  then show ?case using play_one_account [of e dep p A] by (simp add: event_row_args split: if_splits)
qed simp

section \<open>What the folds read\<close>

lemma chain_rows_sorted: "in_chain_order places \<Longrightarrow> sorted (map position (chain_rows dep places es))"
proof -
  have "map position (chain_rows dep places es) = take (length es) (map (\<lambda>p. (lp_block p, lp_index p)) places)"
  proof (induction places arbitrary: es)
    case (Cons p places)
    then show ?case by (cases es) (simp_all add: event_row_args)
  qed simp
  then show "in_chain_order places \<Longrightarrow> sorted (map position (chain_rows dep places es))"
    unfolding in_chain_order_def by (simp add: sorted_wrt_take)
qed

lemma chain_rows_dep: "r \<in> set (chain_rows dep places es) \<Longrightarrow> row_deployment r = dep"
  by (auto simp: chain_rows_def event_row_args)

lemma registry_selection:
  assumes log: "holds_log dep places es rows" and order: "in_chain_order places"
    and names: "distinct names" "''Transfer'' \<notin> set names"
  shows "log_of (for_deployment dep (from_rows rows)) names =
    filter (\<lambda>r. row_event r \<in> set names) (chain_rows dep places es)"
proof -
  let ?mine = "filter (\<lambda>r. row_deployment r = dep \<and> row_event r \<noteq> ''Transfer'') rows"
  have inj: "inj_on position (set rows)" and m: "mset ?mine = mset (chain_rows dep places es)"
    using log by (simp_all add: holds_log_def)
  have "filter (\<lambda>r. row_deployment r = dep \<and> row_event r \<in> set names) rows =
      filter (\<lambda>r. row_event r \<in> set names) ?mine"
    unfolding filter_filter by (rule filter_cong) (use names(2) in auto)
  moreover have "mset (filter (\<lambda>r. row_event r \<in> set names) ?mine) =
      mset (filter (\<lambda>r. row_event r \<in> set names) (chain_rows dep places es))"
    by (metis m mset_filter)
  ultimately have "log_of (for_deployment dep (from_rows rows)) names =
      sort_key position (filter (\<lambda>r. row_event r \<in> set names) (chain_rows dep places es))"
    unfolding log_of_deployment [OF inj names(1)]
    by (intro chain_order_unique inj_on_subset [OF inj]) auto
  then show ?thesis
    using sorted_filter [OF chain_rows_sorted [OF order]] by (simp add: sort_key_id_if_sorted)
qed

lemma chain_rows_args:
  assumes "r \<in> set (chain_rows dep places es)"
  shows "row_event r \<in> set volume_names \<Longrightarrow> replayable r"
    "row_event r \<in> set account_names \<Longrightarrow> text_arg r ''owner'' \<noteq> None"
proof -
  obtain p e where r: "r = event_row_of dep p e" using assms by (auto simp: chain_rows_def)
  show "row_event r \<in> set volume_names \<Longrightarrow> replayable r"
    "row_event r \<in> set account_names \<Longrightarrow> text_arg r ''owner'' \<noteq> None"
    unfolding r by (cases e; simp add: replayable_def event_row_args ADMIT_EVENTS_def of_word_def)+
qed

text \<open>Up to a time that comes after the first events and before the others.\<close>

definition cut_at :: "nat \<Rightarrow> nat \<Rightarrow> log_place list \<Rightarrow> bool" where
  "cut_at cutoff n places \<longleftrightarrow> list_all (\<lambda>p. lp_time p \<le> cutoff) (take n places) \<and>
     list_all (\<lambda>p. cutoff < lp_time p) (drop n places)"

lemma until_cut:
  assumes "cut_at cutoff (length es1) places" "length places = length (es1 @ es2)"
  shows "until cutoff (filter P (chain_rows dep places (es1 @ es2))) =
    filter P (chain_rows dep (take (length es1) places) es1)"
proof -
  let ?a = "take (length es1) places" and ?b = "drop (length es1) places"
  have "zip places (es1 @ es2) = zip ?a es1 @ zip ?b es2"
    by (metis append_take_drop_id assms(2) length_append length_take min.absorb2 le_add1 zip_append)
  then have rows: "chain_rows dep places (es1 @ es2) = chain_rows dep ?a es1 @ chain_rows dep ?b es2"
    by (simp add: chain_rows_def)
  have early: "row_ts r \<le> cutoff" if "r \<in> set (chain_rows dep ?a es1)" for r
    using that assms(1) by (auto simp: chain_rows_def cut_at_def event_row_args list_all_iff dest: set_zip_leftD)
  have late: "\<not> row_ts r \<le> cutoff" if "r \<in> set (chain_rows dep ?b es2)" for r
    using that assms(1)
    by (fastforce simp: chain_rows_def cut_at_def event_row_args list_all_iff not_le dest: set_zip_leftD)
  have "until cutoff (filter P (chain_rows dep ?b es2)) = []"
    using late by (auto simp: takeWhile_eq_Nil_iff dest: list.set_sel(1))
  then show ?thesis unfolding rows filter_append
    by (subst takeWhile_append2) (use early in auto)
qed

lemma registry_read:
  assumes reached: "reachable X w s" and later: "(registry_step X w)\<^sup>*\<^sup>* s s'"
    and log: "holds_log dep places (st_events s') rows" "in_chain_order places"
    and cut: "length places = length (st_events s')" "cut_at cutoff (length (st_events s)) places"
  shows "\<exists>active. active_set_at (for_deployment dep (from_rows rows)) cutoff = Some active \<and>
    (\<forall>v. map_of active (hex_bytes v) = map_option uint (active_depths (st_registry s) v)) \<and>
    length active = length (activeVolumeIds (st_registry s)) \<and>
    authorized_at (for_deployment dep (from_rows rows)) cutoff = Some (card (authorized (st_registry s)))"
proof -
  note inv = reachable_active_set [OF reached]
  obtain es2 where es: "st_events s' = st_events s @ es2"
    using steps_told [OF later inv] by (auto simp: told_def)
  let ?ev = "for_deployment dep (from_rows rows)" and ?ps = "take (length (st_events s)) places"
  have len: "length ?ps = length (st_events s)" using cut(1) es by simp
  note prefix = until_cut [OF cut(2), of es2, folded es, OF cut(1)]
  have sel: "log_of ?ev volume_names = filter (\<lambda>r. row_event r \<in> set volume_names) (chain_rows dep places (st_events s'))"
    "log_of ?ev account_names = filter (\<lambda>r. row_event r \<in> set account_names) (chain_rows dep places (st_events s'))"
    by (rule registry_selection [OF log]; simp add: ADMIT_EVENTS_def)+
  have vol: "list_all replayable (log_of ?ev volume_names)"
    and acc: "list_all (\<lambda>r. text_arg r ''owner'' \<noteq> None) (log_of ?ev account_names)"
    unfolding sel list_all_iff set_filter using chain_rows_args by blast+
  let ?active = "fold play_active (filter (\<lambda>r. row_event r \<in> set volume_names) (chain_rows dep ?ps (st_events s))) []"
  have "active_set_at ?ev cutoff = Some (fold play_active (until cutoff (log_of ?ev volume_names)) [])"
    by (simp only: active_set_at_def replay_active_fold [OF vol])
  then have "active_set_at ?ev cutoff = Some ?active" unfolding sel prefix .
  moreover have same: "same_active ?active (active_depths (st_registry s))"
    using play_volumes [OF len, of "[]" "\<lambda>_. None" dep] reachable_replay(1) [OF reached]
    by (simp add: same_active_def)
  moreover have "length ?active = length (activeVolumeIds (st_registry s))"
  proof -
    have "dom (active_depths (st_registry s)) = set (activeVolumeIds (st_registry s))"
      by (auto simp: active_depths_ids [OF inv] split: if_splits)
    moreover have "distinct (activeVolumeIds (st_registry s))" using inv by (simp add: active_set_def)
    ultimately show ?thesis unfolding same_active_length [OF same] by (simp add: distinct_card)
  qed
  moreover have "authorized_at ?ev cutoff = Some (card (fold play_account (until cutoff (log_of ?ev account_names)) {}))"
    by (simp only: authorized_at_def replay_accounts_fold [OF acc] option.map)
  then have "authorized_at ?ev cutoff = Some (card (authorized (st_registry s)))"
    unfolding sel(2) prefix
    using play_accounts [OF len, of dep "{}"] reachable_replay(2) [OF reached] inj_hex_bytes(2)
    by (simp add: card_image inj_on_subset)
  ultimately show ?thesis unfolding same_active_def by blast
qed

section \<open>A small log\<close>

definition sample_deployment :: "unit deployment" where
  "sample_deployment = \<lparr>dep_label = ''gnosis-v2'', dep_chain_id = 100, dep_registry = ''0xreg'', dep_version = ''v2-rc4'',
     dep_genesis_ts = 5, dep_fiat = [], dep_extra = ()\<rparr>"

definition sample_places :: "log_place list" where
  "sample_places = [place_at 1, place_at 2, place_at 3]"

definition sample_rows :: "event_row list" where
  "sample_rows = chain_rows (100, ''0xreg'') sample_places (st_events grown_chain)"

lemma sample_places_ok:
  "in_chain_order sample_places" "length sample_places = length (st_events grown_chain)"
  "list_all (\<lambda>p. lp_time p \<le> 100) sample_places" "cut_at 100 (length (st_events grown_chain)) sample_places"
  by (simp_all add: sample_places_def place_at_def in_chain_order_def grown_chain_def cut_at_def)

lemma sample_rows_eq: "sample_rows =
  [event_row_of (100, ''0xreg'') (place_at 1) (LogPayerDesignated 5 6),
   event_row_of (100, ''0xreg'') (place_at 2) (LogAccountActivated 5 6),
   event_row_of (100, ''0xreg'') (place_at 3) (LogVolumeImported sample_id 5 9 7 20 0 150)]"
  by (simp add: sample_rows_def sample_places_def grown_chain_def)

lemma sample_rows_ok:
  "holds_log (100, ''0xreg'') sample_places (st_events grown_chain) sample_rows"
  "list_all typed_row sample_rows" "list_all (\<lambda>r. 5 \<le> row_ts r) sample_rows"
proof -
  have "distinct (map position sample_rows)" by (simp add: sample_rows_eq event_row_args place_at_def)
  then have "inj_on position (set sample_rows)" by (simp add: distinct_map)
  moreover have "filter (\<lambda>r. row_deployment r = (100, ''0xreg'') \<and> row_event r \<noteq> ''Transfer'') sample_rows = sample_rows"
    by (simp add: sample_rows_eq event_row_args)
  ultimately show "holds_log (100, ''0xreg'') sample_places (st_events grown_chain) sample_rows"
    by (simp add: holds_log_def flip: sample_rows_def)
  show "list_all typed_row sample_rows"
    by (simp add: sample_rows_eq typed_row_def event_row_args ADMIT_EVENTS_def of_word_def known_depth_def)
  show "list_all (\<lambda>r. 5 \<le> row_ts r) sample_rows" by (simp add: sample_rows_eq event_row_args place_at_def)
qed

text \<open>A volume of depth 42.\<close>

definition deep_row :: event_row where
  "deep_row = event_row_of (100, ''0xreg'') (place_at 1) (LogVolumeImported 11 5 9 7 42 0 150)"

lemma deep_active:
  "active_set_at (for_deployment (100, ''0xreg'') (from_rows [deep_row])) 100 = Some [(hex_bytes (11 :: bytes32), 42)]"
  by (simp add: active_set_at_def log_of_def rows_named_for_deployment rows_named_from_rows ADMIT_EVENTS_def deep_row_def
      event_row_args place_at_def of_word_def)

section \<open>Properties\<close>

text \<open>C3: What the registry holds is what the indexer reads. Take any registry the contract can reach by calls made with
  fewer than \<open>2 ^ 32\<close> active volumes (so that the contract's \<open>uint32\<close> index holds the position), at the time a day
  ends, and any later state of it; from the rows of the later log, in whatever order they were stored and with
  the token's transfers among them, the projector's active volumes at that time are exactly the registry's
  Active volumes with their depths, as many as its active array holds, and the authorized accounts it counts
  are the active ones.\<close>

theorem indexer_sees_registry:
  assumes reached: "reachable X w s" and later: "(registry_step X w)\<^sup>*\<^sup>* s s'"
    and log: "holds_log dep places (st_events s') rows" "in_chain_order places"
    and cut: "length places = length (st_events s')" "cut_at cutoff (length (st_events s)) places"
  shows "\<exists>active. active_set_at (for_deployment dep (from_rows rows)) cutoff = Some active \<and>
    (\<forall>v. map_of active (hex_bytes v) = map_option uint (active_depths (st_registry s) v)) \<and>
    length active = length (activeVolumeIds (st_registry s)) \<and>
    authorized_at (for_deployment dep (from_rows rows)) cutoff = Some (card (authorized (st_registry s)))"
  by (rule registry_read [OF assms])

lemma indexer_sees_registry_witness:
  "\<exists>active. active_set_at (for_deployment (100, ''0xreg'') (from_rows sample_rows)) 100 = Some active \<and>
     map_of active (hex_bytes sample_id) = Some 20 \<and> length active = 1"
proof -
  have "active_depths (st_registry grown_chain) sample_id = Some 20"
    by (simp add: active_depths_def grown_chain_def grown_registry_def sample_volume_def)
  then show ?thesis
    using indexer_sees_registry [OF life_reachable [OF sample_life] rtranclp.rtrancl_refl sample_rows_ok(1)
        sample_places_ok(1,2,4)]
    by (auto simp: grown_chain_def grown_registry_def)
qed

text \<open>Fee volume. Over the rows of a log in any order, the days of the series run without a gap to the last one, each
  day has the sum of that day's transfers of the deployment and no other, and together they are every fee
  paid up to the end, each counted once for every row of it.\<close>

lemma fees_counted_once:
  assumes "list_all typed_row rows"
  shows "\<exists>series first_day. fee_volume_daily (\<lambda>x. x) (for_deployment dep (from_rows rows)) as_of = Some series \<and>
    map fee_date series = [first_day..<as_of div ONE_DAY + 1] \<and>
    list_all (\<lambda>f. fee_bzz f =
      fees_on (filter (\<lambda>r. row_deployment r = dep \<and> row_event r = ''Transfer'') rows) as_of (fee_date f)) series \<and>
    sum_list (map fee_bzz series) = sum_list (map fee_of
      (filter (\<lambda>r. row_deployment r = dep \<and> row_event r = ''Transfer'' \<and> row_ts r \<le> as_of) rows))"
proof -
  let ?ev = "for_deployment dep (from_rows rows)"
  let ?log = "log_of ?ev [''Transfer'']" and ?mine = "filter (\<lambda>r. row_deployment r = dep \<and> row_event r = ''Transfer'') rows"
  let ?first = "first_day_of ?log as_of" and ?stop = "as_of div ONE_DAY + 1"
  note m = transfers_mset [of dep rows "''Transfer''"]
  have day: "fees_on ?log as_of d = fees_on ?mine as_of d" for d
    unfolding fees_on_def by (rule sum_list_mset) (metis m mset_filter)
  have "(\<Sum>d\<leftarrow>[?first..<?stop]. fees_on ?log as_of d) = sum_list (map fee_of (filter (\<lambda>r. row_ts r \<le> as_of) ?log))"
    by (rule fees_over_days) (auto intro: first_day_bounds(2) div_le_mono le_imp_less_Suc)
  also have "\<dots> = sum_list (map fee_of (filter (\<lambda>r. row_ts r \<le> as_of) ?mine))"
    by (rule sum_list_mset) (metis m mset_filter)
  also have "filter (\<lambda>r. row_ts r \<le> as_of) ?mine =
      filter (\<lambda>r. row_deployment r = dep \<and> row_event r = ''Transfer'' \<and> row_ts r \<le> as_of) rows"
    by (simp add: conj_assoc)
  finally have total: "(\<Sum>d\<leftarrow>[?first..<?stop]. fees_on ?mine as_of d) = sum_list (map fee_of
      (filter (\<lambda>r. row_deployment r = dep \<and> row_event r = ''Transfer'' \<and> row_ts r \<le> as_of) rows))"
    by (simp only: day)
  let ?series = "map (\<lambda>d. \<lparr>fee_date = d, fee_bzz = fees_on ?mine as_of d\<rparr>) [?first..<?stop]"
  have "fee_volume_daily (\<lambda>x. x) ?ev as_of = Some ?series"
    using fee_series [OF typed_selection(1) [OF assms refl, of dep], of "\<lambda>x. x" as_of] by (simp only: day)
  moreover have "map fee_date ?series = [?first..<?stop]" by (simp only: map_map comp_def daily_fee.simps map_ident)
  moreover have "map fee_bzz ?series = map (fees_on ?mine as_of) [?first..<?stop]"
    by (simp only: map_map comp_def daily_fee.simps)
  moreover have "list_all (\<lambda>f. fee_bzz f = fees_on ?mine as_of (fee_date f)) ?series" by (simp add: list_all_iff)
  ultimately show ?thesis using total by (intro exI conjI) (assumption | simp only:)+
qed

lemma fees_counted_once_witness:
  "\<exists>series. fee_volume_daily (\<lambda>x. x) (for_deployment (100, ''0xreg'') (from_rows [fee_row, fee_row])) 200 = Some series \<and>
     sum_list (map fee_bzz series) = 14"
proof -
  have "list_all typed_row [fee_row, fee_row]"
    by (simp add: typed_row_def fee_row_def transfer_row_def int_arg_def ADMIT_EVENTS_def)
  from fees_counted_once [OF this, of "(100, ''0xreg'')" 200] show ?thesis
    by (auto simp: fee_row_def transfer_row_def fee_of_def int_arg_def)
qed

text \<open>C24: The published entry. For the log of a registry, with depths the capacity table knows and no block older than the
  genesis block, the projection returns an entry; its three series cover every day from genesis to the last
  one, each once and in order, and its snapshot has as many volumes and accounts as the registry has
  active.\<close>

theorem published_entry_matches_registry:
  assumes reached: "reachable X w s"
    and log: "holds_log (dep_chain_id d, dep_registry d) places (st_events s) rows" "in_chain_order places"
    and cut: "length places = length (st_events s)" "list_all (\<lambda>p. lp_time p \<le> as_of) places"
    and typed: "list_all typed_row rows"
    and history: "list_all (\<lambda>r. dep_genesis_ts d \<le> row_ts r) rows" "dep_genesis_ts d \<le> as_of"
  shows "\<exists>e. project_entry bzz fsum fzero d (from_rows rows) prices block as_of = Some e \<and>
    map fee_date (ent_fee e) = [dep_genesis_ts d div ONE_DAY..<as_of div ONE_DAY + 1] \<and>
    map cap_date (ent_capacity e) = [dep_genesis_ts d div ONE_DAY..<as_of div ONE_DAY + 1] \<and>
    map acc_date (ent_accounts e) = [dep_genesis_ts d div ONE_DAY..<as_of div ONE_DAY + 1] \<and>
    snap_volumes (ent_snapshot e) = length (activeVolumeIds (st_registry s)) \<and>
    snap_authorized (ent_snapshot e) = card (authorized (st_registry s))"
proof -
  have days: "\<forall>r \<in> set rows. dep_genesis_ts d div ONE_DAY \<le> row_ts r div ONE_DAY"
    using history(1) by (auto simp: list_all_iff intro: div_le_mono)
  have "cut_at as_of (length (st_events s)) places" using cut by (simp add: cut_at_def)
  note sees = registry_read [OF reached rtranclp.rtrancl_refl log cut(1) this]
  obtain active where active: "active_set_at (for_deployment (dep_chain_id d, dep_registry d) (from_rows rows)) as_of = Some active"
    "length active = length (activeVolumeIds (st_registry s))"
    "authorized_at (for_deployment (dep_chain_id d, dep_registry d) (from_rows rows)) as_of = Some (card (authorized (st_registry s)))"
    using sees by blast
  show ?thesis
    by (rule project_some [OF typed refl days history(2), of bzz fsum fzero prices block]) (use active in auto)
qed

lemma published_entry_matches_registry_witness:
  "\<exists>e. project_entry (\<lambda>x. x) sum_list 0 sample_deployment (from_rows sample_rows) ([] :: unit list) 3 100 = Some e \<and>
     map fee_date (ent_fee e) = [0] \<and> snap_volumes (ent_snapshot e) = 1 \<and> snap_authorized (ent_snapshot e) = 1"
proof -
  have "authorized (st_registry grown_chain) = {5}"
    by (auto simp: authorized_def grown_chain_def grown_registry_def)
  moreover have "holds_log (dep_chain_id sample_deployment, dep_registry sample_deployment) sample_places
      (st_events grown_chain) sample_rows"
    using sample_rows_ok(1) by (simp add: sample_deployment_def)
  ultimately show ?thesis
    using published_entry_matches_registry [OF life_reachable [OF sample_life] _ sample_places_ok(1,2,3) sample_rows_ok(2),
        of sample_deployment "\<lambda>x. x" sum_list 0 "[]" 3] sample_rows_ok(3)
    by (auto simp: sample_deployment_def grown_chain_def grown_registry_def)
qed

text \<open>A depth outside the capacity table stops the projection. When a volume of such a depth is active at the end of the
  last day, \<open>effective_bytes\<close> raises and no entry of the deployment is produced, whatever else its log holds.\<close>

lemma unknown_depth_stops_projection:
  assumes "active_set_at (for_deployment (dep_chain_id d, dep_registry d) l) as_of = Some active"
    "depth \<in> set (map snd active)" "\<not> known_depth depth"
  shows "project_entry bzz fsum fzero d l prices block as_of = None"
proof -
  let ?ev = "for_deployment (dep_chain_id d, dep_registry d) l" and ?t = "as_of div ONE_DAY"
  have "None \<in> set (map (\<lambda>(_, d). effective_bytes d) active)"
    using assms(2,3) effective_known [of depth] by (force simp: case_prod_unfold)
  then have "those (map (\<lambda>(_, d). effective_bytes d) active) = None" by (rule those_None)
  then have "capacity_day ?ev as_of ?t = None"
    by (simp add: capacity_day_def day_end_last assms(1) split: option.splits)
  moreover have "?t \<in> set [first_day_of (log_of ?ev ADMIT_EVENTS) as_of..<?t + 1]"
    using first_day_bounds(1) by (simp del: upt_Suc)
  ultimately have "None \<in> set (map (capacity_day ?ev as_of) [first_day_of (log_of ?ev ADMIT_EVENTS) as_of..<?t + 1])"
    by (metis image_eqI list.set_map)
  then have "capacity_daily ?ev as_of = None" unfolding capacity_daily_def by (rule those_None)
  then show ?thesis by (simp add: project_entry_def Let_def split: option.splits)
qed

lemma unknown_depth_stops_projection_witness:
  "project_entry (\<lambda>x. x) sum_list 0 sample_deployment (from_rows [deep_row]) ([] :: unit list) 3 100 = None"
proof -
  have "active_set_at (for_deployment (dep_chain_id sample_deployment, dep_registry sample_deployment)
      (from_rows [deep_row])) 100 = Some [(hex_bytes (11 :: bytes32), 42)]"
    using deep_active by (simp add: sample_deployment_def)
  from unknown_depth_stops_projection [OF this, of 42] show ?thesis by (simp add: known_depth_def)
qed

end
