(* ===== verification/IndexerFleet.thy ===== *)
theory IndexerFleet
  imports IndexerDecode
begin

text \<open>
  The deployments of the indexer: \<open>services/indexer/src/ethswarm_volumes/registry.py\<close> (the registry document, its
  naming rules and the selectors of the command line), \<open>find_genesis_block\<close> of \<open>node.py\<close>, and the parts of
  \<open>cli.py\<close> that choose the targets of a sync and join its entries with the published file. A document is a
  parsed JSON object whose keys have the types the code expects; a missing key is \<open>None\<close>. Text is ASCII, which \<open>lower\<close>
  lowers letter by letter.
\<close>

section \<open>Finding the genesis block\<close>

text \<open>The loop of \<open>find_genesis_block\<close>, between two blocks, and the whole call; \<open>None\<close> is an error of the node, or the
  raised \<open>ValueError\<close>.\<close>

function first_with_code :: "(nat \<Rightarrow> bool option) \<Rightarrow> nat \<Rightarrow> nat \<Rightarrow> nat option" where
  "first_with_code has_code lo hi =
     (if lo < hi then
        (let mid = (lo + hi) div 2 in
         case has_code mid of
           None \<Rightarrow> None
         | Some coded \<Rightarrow>
             if coded then first_with_code has_code lo mid else first_with_code has_code (mid + 1) hi)
      else Some lo)"
  by pat_completeness auto
termination by (relation "measure (\<lambda>(_, lo, hi). hi - lo)") auto

declare first_with_code.simps [simp del]

definition find_genesis_block :: "(nat \<Rightarrow> bool option) \<Rightarrow> nat \<Rightarrow> nat option" where
  "find_genesis_block has_code block_number =
     (case has_code block_number of
        None \<Rightarrow> None
      | Some coded \<Rightarrow> if coded then first_with_code has_code 0 block_number else None)"

section \<open>The registry document\<close>

definition is_digit_char :: "char \<Rightarrow> bool" where
  "is_digit_char c \<longleftrightarrow> c \<in> set ''0123456789''"

definition positive_number :: "string \<Rightarrow> bool" where
  "positive_number s = (case s of [] \<Rightarrow> False | c # cs \<Rightarrow> c \<in> set ''123456789'' \<and> list_all is_digit_char cs)"

text \<open>\<open>v[1-9][0-9]*(-rc[1-9][0-9]*)?\<close>, and \<open>[a-z0-9][a-z0-9_]*\<close>.\<close>

definition is_version_name :: "string \<Rightarrow> bool" where
  "is_version_name s =
     (case s of
        [] \<Rightarrow> False
      | c # rest \<Rightarrow>
          c = CHR ''v'' \<and>
          (let n = takeWhile is_digit_char rest; tail = dropWhile is_digit_char rest in
           positive_number n \<and>
           (tail = [] \<or> take 3 tail = ''-rc'' \<and> positive_number (drop 3 tail))))"

definition is_network_char :: "char \<Rightarrow> bool" where
  "is_network_char c \<longleftrightarrow> is_digit_char c \<or> c \<in> set ''abcdefghijklmnopqrstuvwxyz''"

definition is_network_name :: "string \<Rightarrow> bool" where
  "is_network_name s =
     (case s of [] \<Rightarrow> False | c # cs \<Rightarrow> is_network_char c \<and> list_all (\<lambda>c. is_network_char c \<or> c = CHR ''_'') cs)"

record raw_entry =
  re_network :: "string option"
  re_version :: "string option"
  re_chain_id :: "nat option"
  re_registry :: "string option"
  re_genesis_block :: "nat option"

record raw_document =
  rd_deployments :: "raw_entry list option"
  rd_latest :: "(string \<times> string) list option"

record deployment_spec =
  spec_network :: string
  spec_version :: string
  spec_chain_id :: nat
  spec_registry :: string
  spec_genesis_block :: "nat option"

record fleet =
  fleet_deployments :: "deployment_spec list"
  fleet_latest :: "(string \<times> string) list"

datatype fleet_error = FleetKeyError string | FleetValueError string

definition deployment_label :: "string \<Rightarrow> string \<Rightarrow> string" where
  "deployment_label network version = network @ ''-'' @ version"

definition spec_label :: "deployment_spec \<Rightarrow> string" where
  "spec_label s = deployment_label (spec_network s) (spec_version s)"

definition key_of :: "string \<Rightarrow> 'a option \<Rightarrow> fleet_error + 'a" where
  "key_of name x = (case x of None \<Rightarrow> Inl (FleetKeyError name) | Some v \<Rightarrow> Inr v)"

definition spec_from_dict :: "raw_entry \<Rightarrow> fleet_error + deployment_spec" where
  "spec_from_dict obj =
     (case key_of ''network'' (re_network obj) of
        Inl e \<Rightarrow> Inl e
      | Inr network \<Rightarrow>
     (case key_of ''registry_version'' (re_version obj) of
        Inl e \<Rightarrow> Inl e
      | Inr version \<Rightarrow>
          if \<not> is_network_name network then Inl (FleetValueError ''invalid network name'')
          else if \<not> is_version_name version then Inl (FleetValueError ''invalid registry_version'')
          else
     (case key_of ''chain_id'' (re_chain_id obj) of
        Inl e \<Rightarrow> Inl e
      | Inr chain_id \<Rightarrow>
     (case key_of ''registry'' (re_registry obj) of
        Inl e \<Rightarrow> Inl e
      | Inr registry \<Rightarrow>
          Inr \<lparr>spec_network = network, spec_version = version, spec_chain_id = chain_id,
               spec_registry = registry, spec_genesis_block = re_genesis_block obj\<rparr>))))"

text \<open>A generator over the entries stops at the first that raises.\<close>

fun specs_from :: "raw_entry list \<Rightarrow> fleet_error + deployment_spec list" where
  "specs_from [] = Inr []"
| "specs_from (e # es) =
     (case spec_from_dict e of
        Inl err \<Rightarrow> Inl err
      | Inr s \<Rightarrow> (case specs_from es of Inl err \<Rightarrow> Inl err | Inr ss \<Rightarrow> Inr (s # ss)))"

fun first_repeat :: "string set \<Rightarrow> deployment_spec list \<Rightarrow> deployment_spec option" where
  "first_repeat seen [] = None"
| "first_repeat seen (s # ss) =
     (if spec_label s \<in> seen then Some s else first_repeat (insert (spec_label s) seen) ss)"

text \<open>\<open>{i.label: i for i in items}\<close>: the last of several stays.\<close>

definition by_label :: "('a \<Rightarrow> string) \<Rightarrow> 'a list \<Rightarrow> string \<rightharpoonup> 'a" where
  "by_label label items = map_of (rev (map (\<lambda>i. (label i, i)) items))"

definition pointer_ok :: "deployment_spec list \<Rightarrow> string \<times> string \<Rightarrow> bool" where
  "pointer_ok specs = (\<lambda>(network, label).
     case by_label spec_label specs label of None \<Rightarrow> False | Some target \<Rightarrow> spec_network target = network)"

definition fleet_from_dict :: "raw_document \<Rightarrow> fleet_error + fleet" where
  "fleet_from_dict doc =
     (case key_of ''deployments'' (rd_deployments doc) of
        Inl e \<Rightarrow> Inl e
      | Inr entries \<Rightarrow>
     (case specs_from entries of
        Inl e \<Rightarrow> Inl e
      | Inr specs \<Rightarrow>
     (case first_repeat {} specs of
        Some s \<Rightarrow> Inl (FleetValueError (''duplicate deployment '' @ spec_label s))
      | None \<Rightarrow>
          (let latest = (case rd_latest doc of None \<Rightarrow> [] | Some l \<Rightarrow> l) in
           case find (\<lambda>p. \<not> pointer_ok specs p) latest of
             Some (network, label) \<Rightarrow> Inl (FleetValueError (''latest of '' @ network))
           | None \<Rightarrow> Inr \<lparr>fleet_deployments = specs, fleet_latest = latest\<rparr>))))"

section \<open>Selectors\<close>

fun decimal :: "nat \<Rightarrow> string" where
  "decimal n = (if n < 10 then [''0123456789'' ! n] else decimal (n div 10) @ [''0123456789'' ! (n mod 10)])"

declare decimal.simps [simp del]

definition lower_text :: "string \<Rightarrow> string" where
  "lower_text s = map lower_char s"

text \<open>Anything with a label, a chain and a registry: what \<open>resolve\<close> reads of an item.\<close>

record named =
  nm_label :: string
  nm_chain_id :: nat
  nm_registry :: string

definition spec_named :: "deployment_spec \<Rightarrow> named" where
  "spec_named s = \<lparr>nm_label = spec_label s, nm_chain_id = spec_chain_id s, nm_registry = spec_registry s\<rparr>"

definition item_id_text :: "named \<Rightarrow> string" where
  "item_id_text n = lower_text (decimal (nm_chain_id n) @ '':'' @ nm_registry n)"

definition resolve :: "('a \<Rightarrow> named) \<Rightarrow> 'a list \<Rightarrow> (string \<times> string) list \<Rightarrow> string option \<Rightarrow> 'a option" where
  "resolve nm items latest selector =
     (case selector of
        None \<Rightarrow> (case items of [x] \<Rightarrow> Some x | _ \<Rightarrow> None)
      | Some sel \<Rightarrow>
          (let labels = by_label (\<lambda>i. nm_label (nm i)) items in
           case labels sel of
             Some i \<Rightarrow> Some i
           | None \<Rightarrow>
               (case Option.bind (map_of latest sel) labels of
                  Some i \<Rightarrow> Some i
                | None \<Rightarrow> find (\<lambda>i. item_id_text (nm i) = lower_text sel) items)))"

definition select :: "fleet \<Rightarrow> string option \<Rightarrow> deployment_spec option" where
  "select reg selector = resolve spec_named (fleet_deployments reg) (fleet_latest reg) selector"

section \<open>A sync's targets and its file\<close>

datatype target_error = UnknownDeployment | WrongChain | NothingOnChain | UnsupportedVersion

definition unsupported :: "deployment_spec list \<Rightarrow> deployment_spec list" where
  "unsupported targets = filter (\<lambda>t. spec_version t \<notin> set supported_versions) targets"

definition sync_targets :: "fleet \<Rightarrow> string option \<Rightarrow> nat \<Rightarrow> target_error + deployment_spec list" where
  "sync_targets reg deployment chain_id =
     (case (case deployment of
              Some (c # cs) \<Rightarrow>
                (case select reg deployment of
                   None \<Rightarrow> Inl UnknownDeployment
                 | Some chosen \<Rightarrow> if spec_chain_id chosen \<noteq> chain_id then Inl WrongChain else Inr [chosen])
            | _ \<Rightarrow>
                (case filter (\<lambda>s. spec_chain_id s = chain_id) (fleet_deployments reg) of
                   [] \<Rightarrow> Inl NothingOnChain
                 | ts \<Rightarrow> Inr ts)) of
        Inl e \<Rightarrow> Inl e
      | Inr targets \<Rightarrow> if unsupported targets \<noteq> [] then Inl UnsupportedVersion else Inr targets)"

text \<open>The file: entries by chain and lowered address, in the order they came in.\<close>

definition entry_id :: "('a \<Rightarrow> named) \<Rightarrow> 'a \<Rightarrow> nat \<times> string" where
  "entry_id nm e = (nm_chain_id (nm e), lower_text (nm_registry (nm e)))"

definition merge_entries :: "('a \<Rightarrow> named) \<Rightarrow> 'a list \<Rightarrow> 'a list \<Rightarrow> 'a list" where
  "merge_entries nm existing entries =
     map snd (fold (\<lambda>e d. AList.update (entry_id nm e) e d) entries
       (fold (\<lambda>e d. AList.update (entry_id nm e) e d) existing []))"

definition merge_latest ::
  "('a \<Rightarrow> named) \<Rightarrow> 'a list \<Rightarrow> (string \<times> string) list \<Rightarrow> (string \<times> string) list \<Rightarrow> (string \<times> string) list" where
  "merge_latest nm deployments existing_latest reg_latest =
     filter (\<lambda>(net, label). label \<in> set (map (\<lambda>e. nm_label (nm e)) deployments))
       (fold (\<lambda>(net, label) d. AList.update net label d) reg_latest existing_latest)"

section \<open>Lemmas\<close>

lemma first_with_code_least:
  "code hi \<Longrightarrow> (\<And>b c. b \<le> c \<Longrightarrow> code b \<Longrightarrow> code c) \<Longrightarrow> lo \<le> hi \<Longrightarrow> (\<And>b. b < lo \<Longrightarrow> \<not> code b) \<Longrightarrow>
   \<exists>g. first_with_code (\<lambda>b. Some (code b)) lo hi = Some g \<and> code g \<and> g \<le> hi \<and> (\<forall>b < g. \<not> code b)"
proof (induction "\<lambda>b. Some (code b)" lo hi rule: first_with_code.induct)
  case (1 lo hi)
  let ?mid = "(lo + hi) div 2"
  show ?case
  proof (cases "lo < hi")
    case False
    then have "lo = hi" using 1(5) by simp
    then show ?thesis using 1(3,6) by (simp add: first_with_code.simps)
  next
    case True
    show ?thesis
    proof (cases "code ?mid")
      case coded: True
      have "\<exists>g. first_with_code (\<lambda>b. Some (code b)) lo ?mid = Some g \<and> code g \<and> g \<le> ?mid \<and> (\<forall>b < g. \<not> code b)"
        by (rule 1(1) [OF True refl refl coded coded 1(4)]) (use True 1(6) in auto)
      then show ?thesis using True coded by (subst first_with_code.simps) (auto simp: Let_def)
    next
      case blank: False
      have "\<not> code b" if "b < ?mid + 1" for b using that blank 1(4) [of b ?mid] by fastforce
      then have "\<exists>g. first_with_code (\<lambda>b. Some (code b)) (?mid + 1) hi = Some g \<and> code g \<and> g \<le> hi \<and> (\<forall>b < g. \<not> code b)"
        by (intro 1(2) [OF True refl refl blank 1(3,4)]) (use True in auto)
      then show ?thesis using True blank by (subst first_with_code.simps) (auto simp: Let_def)
    qed
  qed
qed

lemma by_label_some: "by_label label items l = Some i \<Longrightarrow> i \<in> set items \<and> label i = l"
  by (auto simp: by_label_def dest!: map_of_SomeD)

lemma by_label_distinct:
  "distinct (map label items) \<Longrightarrow> i \<in> set items \<Longrightarrow> by_label label items (label i) = Some i"
  unfolding by_label_def
  by (rule map_of_is_SomeI) (auto simp: rev_map comp_def simp flip: rev_map)

lemma first_repeat_none:
  "first_repeat seen ss = None \<longleftrightarrow> distinct (map spec_label ss) \<and> set (map spec_label ss) \<inter> seen = {}"
  by (induction seen ss rule: first_repeat.induct) auto

lemma spec_from_dict_named:
  "spec_from_dict obj = Inr s \<Longrightarrow> is_network_name (spec_network s) \<and> is_version_name (spec_version s)"
  by (auto simp: spec_from_dict_def split: sum.splits if_splits)

lemma specs_from_named:
  "specs_from es = Inr ss \<Longrightarrow> list_all (\<lambda>s. is_network_name (spec_network s) \<and> is_version_name (spec_version s)) ss"
proof (induction es arbitrary: ss)
  case (Cons e es)
  obtain x where x: "spec_from_dict e = Inr x" using Cons.prems by (cases "spec_from_dict e") simp_all
  obtain xs where xs: "specs_from es = Inr xs" using Cons.prems x by (cases "specs_from es") simp_all
  show ?case using Cons.prems x xs Cons.IH [OF xs] spec_from_dict_named [OF x] by auto
qed simp

lemma dash_char: "\<not> is_network_char CHR ''-''"
  by (simp add: is_network_char_def is_digit_char_def)

lemma no_dash: "is_network_name n \<Longrightarrow> CHR ''-'' \<notin> set n"
  using dash_char by (cases n) (auto simp: is_network_name_def list_all_iff)

lemma loaded_fleet:
  assumes "fleet_from_dict doc = Inr reg"
  shows "distinct (map spec_label (fleet_deployments reg))"
    "list_all (\<lambda>s. is_network_name (spec_network s) \<and> is_version_name (spec_version s)) (fleet_deployments reg)"
    "p \<in> set (fleet_latest reg) \<Longrightarrow> pointer_ok (fleet_deployments reg) p"
proof -
  obtain entries specs where specs: "specs_from entries = Inr specs" "first_repeat {} specs = None"
    "fleet_deployments reg = specs" and l: "find (\<lambda>p. \<not> pointer_ok specs p) (fleet_latest reg) = None"
    using assms by (auto simp: fleet_from_dict_def Let_def split: sum.splits option.splits)
  show "distinct (map spec_label (fleet_deployments reg))" using specs first_repeat_none [of "{}"] by simp
  show "list_all (\<lambda>s. is_network_name (spec_network s) \<and> is_version_name (spec_version s)) (fleet_deployments reg)"
    using specs_from_named [OF specs(1)] specs(3) by simp
  show "p \<in> set (fleet_latest reg) \<Longrightarrow> pointer_ok (fleet_deployments reg) p"
    using l specs(3) by (cases p) (auto simp: find_None_iff)
qed

lemma update_entries:
  fixes nm :: "'a \<Rightarrow> named"
  defines "put \<equiv> \<lambda>e d. AList.update (entry_id nm e) e d"
  assumes "distinct (map (entry_id nm) xs)" "distinct (map fst d)" "list_all (\<lambda>(k, e). k = entry_id nm e) d"
  shows "distinct (map fst (fold put xs d)) \<and> list_all (\<lambda>(k, e). k = entry_id nm e) (fold put xs d) \<and>
    set (map snd (fold put xs d)) =
      set xs \<union> {e \<in> set (map snd d). entry_id nm e \<notin> entry_id nm ` set xs}"
  using assms(2-)
proof (induction xs arbitrary: d)
  case Nil
  then show ?case by auto
next
  case (Cons x xs)
  have keys: "distinct (map fst (put x d))" using Cons.prems(2) by (simp add: put_def distinct_update)
  have set: "set (put x d) = insert (entry_id nm x, x) {(k, e) \<in> set d. k \<noteq> entry_id nm x}"
    using Cons.prems(2) unfolding put_def
    by (induction d) (auto simp: image_iff)
  have own: "list_all (\<lambda>(k, e). k = entry_id nm e) (put x d)"
    using Cons.prems(3) unfolding list_all_iff set by auto
  have vals: "set (map snd (put x d)) = insert x {e \<in> set (map snd d). entry_id nm e \<noteq> entry_id nm x}"
    using Cons.prems(3) unfolding set_map set list_all_iff by force
  from Cons.IH [OF _ keys own] Cons.prems(1) show ?case unfolding vals by auto
qed

section \<open>Properties\<close>

text \<open>The genesis block. When a contract has code at the head block and never loses it once created, the binary search
  ends and returns the lowest block at which the contract has code.\<close>

lemma genesis_block_found:
  assumes "code head_block" "\<And>b c. b \<le> c \<Longrightarrow> code b \<Longrightarrow> code c"
  shows "\<exists>b \<le> head_block. find_genesis_block (\<lambda>b. Some (code b)) head_block = Some b \<and> code b \<and>
    list_all (\<lambda>b'. \<not> code b') [0..<b]"
proof -
  obtain g where "first_with_code (\<lambda>b. Some (code b)) 0 head_block = Some g" "code g" "g \<le> head_block" "\<forall>b < g. \<not> code b"
    using first_with_code_least [where code = code and lo = 0 and hi = head_block] assms by blast
  then show ?thesis using assms(1) by (auto simp: find_genesis_block_def list_all_iff)
qed

lemma genesis_block_found_witness: "find_genesis_block (\<lambda>b. Some (7 \<le> b)) 100 = Some 7"
proof -
  obtain b where "find_genesis_block (\<lambda>b. Some (7 \<le> b)) 100 = Some b" "7 \<le> b" "list_all (\<lambda>b'. \<not> 7 \<le> b') [0..<b]"
    using genesis_block_found [of "\<lambda>b. 7 \<le> b" 100] by auto
  moreover from this have "b \<le> 7" by (auto simp: list_all_iff not_le dest: bspec [of _ _ 7])
  ultimately show ?thesis by simp
qed

text \<open>A registry document that loads has one deployment for each label, and its selectors mean what they say: a label
  selects its own deployment, and a network name with a pointer selects the deployment the pointer names, which
  is one of that network.\<close>

lemma loaded_fleet_resolves:
  assumes "fleet_from_dict doc = Inr reg"
  shows "distinct (map spec_label (fleet_deployments reg)) \<and>
    list_all (\<lambda>s. select reg (Some (spec_label s)) = Some s) (fleet_deployments reg) \<and>
    list_all (\<lambda>n. case select reg (Some n) of None \<Rightarrow> False
      | Some s \<Rightarrow> spec_network s = n \<and> map_of (fleet_latest reg) n = Some (spec_label s)) (map fst (fleet_latest reg))"
proof (intro conjI)
  let ?ds = "fleet_deployments reg"
  note ok = loaded_fleet [OF assms]
  show "distinct (map spec_label ?ds)" by (rule ok)
  have label: "by_label (\<lambda>i. nm_label (spec_named i)) ?ds = by_label spec_label ?ds" by (simp add: spec_named_def)
  show "list_all (\<lambda>s. select reg (Some (spec_label s)) = Some s) ?ds"
    using by_label_distinct [OF ok(1)] by (simp add: list_all_iff select_def resolve_def Let_def label)
  have "case select reg (Some n) of None \<Rightarrow> False
      | Some s \<Rightarrow> spec_network s = n \<and> map_of (fleet_latest reg) n = Some (spec_label s)"
    if n: "n \<in> set (map fst (fleet_latest reg))" for n
  proof -
    obtain l where l: "map_of (fleet_latest reg) n = Some l" using n by (metis map_of_eq_None_iff not_None_eq set_map)
    then have "pointer_ok ?ds (n, l)" using ok(3) map_of_SomeD by fastforce
    then obtain s where s: "by_label spec_label ?ds l = Some s" "spec_network s = n"
      by (auto simp: pointer_ok_def split: option.splits)
    have "is_network_name n" using by_label_some [OF s(1)] s(2) ok(2) by (auto simp: list_all_iff)
    from no_dash [OF this] have "spec_label t \<noteq> n" for t by (auto simp: spec_label_def deployment_label_def)
    then have "by_label spec_label ?ds n = None" by (cases "by_label spec_label ?ds n") (auto dest: by_label_some)
    then show ?thesis using l s by_label_some [OF s(1)] by (simp add: select_def resolve_def Let_def label)
  qed
  then show "list_all (\<lambda>n. case select reg (Some n) of None \<Rightarrow> False
      | Some s \<Rightarrow> spec_network s = n \<and> map_of (fleet_latest reg) n = Some (spec_label s)) (map fst (fleet_latest reg))"
    unfolding list_all_iff by blast
qed

definition fleet_entry :: "string \<Rightarrow> string \<Rightarrow> raw_entry" where
  "fleet_entry version registry = \<lparr>re_network = Some ''gnosis'', re_version = Some version, re_chain_id = Some 100,
     re_registry = Some registry, re_genesis_block = Some 5\<rparr>"

definition fleet_document :: raw_document where
  "fleet_document = \<lparr>rd_deployments = Some [fleet_entry ''v1'' ''0xA'', fleet_entry ''v2'' ''0xB''],
     rd_latest = Some [(''gnosis'', ''gnosis-v2'')]\<rparr>"

definition gnosis_spec :: "string \<Rightarrow> string \<Rightarrow> deployment_spec" where
  "gnosis_spec version registry = \<lparr>spec_network = ''gnosis'', spec_version = version, spec_chain_id = 100,
     spec_registry = registry, spec_genesis_block = Some 5\<rparr>"

lemma fleet_document_loads: "fleet_from_dict fleet_document = Inr
    \<lparr>fleet_deployments = [gnosis_spec ''v1'' ''0xA'', gnosis_spec ''v2'' ''0xB''],
     fleet_latest = [(''gnosis'', ''gnosis-v2'')]\<rparr>"
  by code_simp

lemma loaded_fleet_resolves_witness:
  "\<exists>s. select \<lparr>fleet_deployments = [gnosis_spec ''v1'' ''0xA'', gnosis_spec ''v2'' ''0xB''],
      fleet_latest = [(''gnosis'', ''gnosis-v2'')]\<rparr> (Some ''gnosis'') = Some s \<and> spec_label s = ''gnosis-v2''"
  using loaded_fleet_resolves [OF fleet_document_loads] by (auto split: option.splits)

text \<open>The published file. Joining a sync's entries with the file's keeps one entry for each chain and registry: every
  synced entry is there, every other entry of the file stays, and nothing else is; and every pointer written
  names an entry of the file.\<close>

lemma merged_file:
  assumes "distinct (map (entry_id nm) existing)" "distinct (map (entry_id nm) entries)"
  shows "distinct (map (entry_id nm) (merge_entries nm existing entries)) \<and>
    set (merge_entries nm existing entries) =
      set entries \<union> {e \<in> set existing. entry_id nm e \<notin> entry_id nm ` set entries} \<and>
    set (map snd (merge_latest nm (merge_entries nm existing entries) existing_latest reg_latest)) \<subseteq>
      (\<lambda>e. nm_label (nm e)) ` set (merge_entries nm existing entries)"
proof -
  let ?put = "\<lambda>e d. AList.update (entry_id nm e) e d"
  note first = update_entries [OF assms(1), of "[]"]
  have d1: "distinct (map fst (fold ?put existing []))" "list_all (\<lambda>(k, e). k = entry_id nm e) (fold ?put existing [])"
    "set (map snd (fold ?put existing [])) = set existing"
    using first by simp_all
  have b: "distinct (map fst (fold ?put entries (fold ?put existing [])))"
    "list_all (\<lambda>(k, e). k = entry_id nm e) (fold ?put entries (fold ?put existing []))"
    "set (map snd (fold ?put entries (fold ?put existing []))) =
       set entries \<union> {e \<in> set existing. entry_id nm e \<notin> entry_id nm ` set entries}"
    using update_entries [OF assms(2) d1(1,2)] unfolding d1(3) by simp_all
  have own: "map (entry_id nm) (map snd d) = map fst d" if "list_all (\<lambda>(k, e). k = entry_id nm e) d" for d
    using that by (induction d) auto
  have "distinct (map (entry_id nm) (merge_entries nm existing entries))"
    unfolding merge_entries_def own [OF b(2)] by (rule b(1))
  moreover have "set (merge_entries nm existing entries) =
      set entries \<union> {e \<in> set existing. entry_id nm e \<notin> entry_id nm ` set entries}"
    unfolding merge_entries_def by (rule b(3))
  moreover have "set (map snd (merge_latest nm ds existing_latest reg_latest)) \<subseteq> (\<lambda>e. nm_label (nm e)) ` set ds" for ds
    by (auto simp: merge_latest_def)
  ultimately show ?thesis by blast
qed

lemma merged_file_witness:
  "set (merge_entries spec_named [gnosis_spec ''v1'' ''0xA'', gnosis_spec ''v2'' ''0xB''] [gnosis_spec ''v3'' ''0xb'']) =
     {gnosis_spec ''v1'' ''0xA'', gnosis_spec ''v3'' ''0xb''}"
proof -
  have low: "lower_text ''0xA'' = ''0xa''" "lower_text ''0xB'' = ''0xb''" "lower_text ''0xb'' = ''0xb''" by code_simp+
  have ids: "entry_id spec_named (gnosis_spec v r) = (100, lower_text r)" for v r
    by (simp add: entry_id_def spec_named_def gnosis_spec_def)
  let ?old = "[gnosis_spec ''v1'' ''0xA'', gnosis_spec ''v2'' ''0xB'']" and ?new = "[gnosis_spec ''v3'' ''0xb'']"
  have "distinct (map (entry_id spec_named) ?old)" "distinct (map (entry_id spec_named) ?new)"
    by (simp_all add: ids low)
  from merged_file [OF this, of "[]" "[]"]
  have "set (merge_entries spec_named ?old ?new) =
      set ?new \<union> {e \<in> set ?old. entry_id spec_named e \<notin> entry_id spec_named ` set ?new}" by blast
  also have "{e \<in> set ?old. entry_id spec_named e \<notin> entry_id spec_named ` set ?new} = {gnosis_spec ''v1'' ''0xA''}"
    by (auto simp: ids low)
  finally show ?thesis by simp
qed

end
