(* ===== verification/JsonText.thy ===== *)
theory JsonText
  imports IndexerFleet
begin

text \<open>
  The JSON text that the indexer's files are written in: what \<open>serialize.py\<close>, \<open>store.py\<close> and \<open>registry.py\<close> use of
  Python's \<open>json\<close>, \<open>dumps\<close> with and without \<open>indent\<close>, and \<open>loads\<close>. The text of a float and its reading are the
  parameters \<open>fshow\<close> and \<open>fread\<close>; an \<open>int\<close> is unbounded. A character is a code point below 256: an escape of a
  larger one does not read. \<open>loads\<close> returns \<open>None\<close> where Python raises \<open>JSONDecodeError\<close>; its recursion is
  bounded by the length of the text, which is enough to read everything \<open>dumps\<close> writes.
\<close>

section \<open>Values\<close>

datatype 'f json =
    JNull
  | JBool bool
  | JInt int
  | JFloat 'f
  | JText string
  | JList "'f json list"
  | JObject "(string \<times> 'f json) list"

section \<open>Writing\<close>

definition escape_char :: "char \<Rightarrow> string" where
  "escape_char c =
     (if c = CHR 0x22 then [CHR 0x5C, CHR 0x22]
      else if c = CHR 0x5C then [CHR 0x5C, CHR 0x5C]
      else if c = CHR 0x0A then [CHR 0x5C, CHR ''n'']
      else if c = CHR 0x0D then [CHR 0x5C, CHR ''r'']
      else if c = CHR 0x09 then [CHR 0x5C, CHR ''t'']
      else if c = CHR 0x0C then [CHR 0x5C, CHR ''f'']
      else if c = CHR 0x08 then [CHR 0x5C, CHR ''b'']
      else if 0x20 \<le> (of_char c :: nat) \<and> (of_char c :: nat) \<le> 0x7E then [c]
      else [CHR 0x5C, CHR ''u''] @ hex_digits 4 (of_char c))"

definition quoted :: "string \<Rightarrow> string" where
  "quoted s = CHR 0x22 # concat (map escape_char s) @ [CHR 0x22]"

definition int_text :: "int \<Rightarrow> string" where
  "int_text i = (if i < 0 then CHR ''-'' # decimal (nat (- i)) else decimal (nat i))"

text \<open>The text between two items, and the break before a closing bracket.\<close>

definition line_break :: "nat option \<Rightarrow> nat \<Rightarrow> string" where
  "line_break indent level =
     (case indent of None \<Rightarrow> [] | Some n \<Rightarrow> CHR 0x0A # replicate (n * level) (CHR 0x20))"

definition item_separator :: "nat option \<Rightarrow> nat \<Rightarrow> string" where
  "item_separator indent level =
     (case indent of None \<Rightarrow> [CHR 0x2C, CHR 0x20] | Some _ \<Rightarrow> CHR 0x2C # line_break indent level)"

fun join_with :: "string \<Rightarrow> string list \<Rightarrow> string" where
  "join_with sep [] = []"
| "join_with sep [x] = x"
| "join_with sep (x # y # ys) = x @ sep @ join_with sep (y # ys)"

fun dumps :: "('f \<Rightarrow> string) \<Rightarrow> nat option \<Rightarrow> nat \<Rightarrow> 'f json \<Rightarrow> string" where
  "dumps fshow indent level JNull = ''null''"
| "dumps fshow indent level (JBool b) = (if b then ''true'' else ''false'')"
| "dumps fshow indent level (JInt i) = int_text i"
| "dumps fshow indent level (JFloat x) = fshow x"
| "dumps fshow indent level (JText s) = quoted s"
| "dumps fshow indent level (JList xs) =
     (if xs = [] then [CHR 0x5B, CHR 0x5D]
      else CHR 0x5B # line_break indent (level + 1)
        @ join_with (item_separator indent (level + 1)) (map (dumps fshow indent (level + 1)) xs)
        @ line_break indent level @ [CHR 0x5D])"
| "dumps fshow indent level (JObject kvs) =
     (if kvs = [] then [CHR 0x7B, CHR 0x7D]
      else CHR 0x7B # line_break indent (level + 1)
        @ join_with (item_separator indent (level + 1))
            (map (\<lambda>(k, v). quoted k @ [CHR 0x3A, CHR 0x20] @ dumps fshow indent (level + 1) v) kvs)
        @ line_break indent level @ [CHR 0x7D])"

section \<open>Reading\<close>

definition is_json_space :: "char \<Rightarrow> bool" where
  "is_json_space c \<longleftrightarrow> c \<in> set [CHR 0x20, CHR 0x09, CHR 0x0A, CHR 0x0D]"

definition skip_space :: "string \<Rightarrow> string" where
  "skip_space s = dropWhile is_json_space s"

definition expect :: "char \<Rightarrow> string \<Rightarrow> string option" where
  "expect c s = (case s of [] \<Rightarrow> None | d # r \<Rightarrow> if d = c then Some r else None)"

definition hex_value :: "char \<Rightarrow> nat option" where
  "hex_value c =
     (let n = of_char c in
      if 0x30 \<le> n \<and> n \<le> 0x39 then Some (n - 0x30)
      else if 0x61 \<le> n \<and> n \<le> 0x66 then Some (n - 0x61 + 10)
      else if 0x41 \<le> n \<and> n \<le> 0x46 then Some (n - 0x41 + 10)
      else None)"

fun hex_number :: "nat \<Rightarrow> string \<Rightarrow> nat option" where
  "hex_number n [] = Some n"
| "hex_number n (c # cs) = (case hex_value c of None \<Rightarrow> None | Some d \<Rightarrow> hex_number (16 * n + d) cs)"

text \<open>What follows a backslash.\<close>

definition simple_escapes :: "(char \<times> char) list" where
  "simple_escapes = [(CHR 0x22, CHR 0x22), (CHR 0x5C, CHR 0x5C), (CHR ''/'', CHR ''/''), (CHR ''b'', CHR 0x08),
     (CHR ''f'', CHR 0x0C), (CHR ''n'', CHR 0x0A), (CHR ''r'', CHR 0x0D), (CHR ''t'', CHR 0x09)]"

definition unescape :: "string \<Rightarrow> (char \<times> string) option" where
  "unescape s =
     (case s of
        [] \<Rightarrow> None
      | e # r \<Rightarrow>
          if e = CHR ''u'' then
            (if length r < 4 then None
             else
               (case hex_number 0 (take 4 r) of
                  None \<Rightarrow> None
                | Some n \<Rightarrow> if n < 256 then Some (char_of n, drop 4 r) else None))
          else map_option (\<lambda>c. (c, r)) (map_of simple_escapes e))"

lemma unescape_shorter: "unescape s = Some (c, r) \<Longrightarrow> length r < length s"
  by (auto simp: unescape_def split: list.splits if_splits option.splits)

text \<open>The rest of a string, after its opening quote.\<close>

function scan_text :: "string \<Rightarrow> (string \<times> string) option" where
  "scan_text s =
     (case s of
        [] \<Rightarrow> None
      | c # cs \<Rightarrow>
          if c = CHR 0x22 then Some ([], cs)
          else if c = CHR 0x5C then
            (case unescape cs of
               None \<Rightarrow> None
             | Some (d, r) \<Rightarrow> map_option (\<lambda>(t, r'). (d # t, r')) (scan_text r))
          else if (of_char c :: nat) < 0x20 then None
          else map_option (\<lambda>(t, r'). (c # t, r')) (scan_text cs))"
  by pat_completeness auto
termination by (relation "measure length") (auto dest: unescape_shorter)

declare scan_text.simps [simp del]

text \<open>\<open>(-?(?:0|[1-9][0-9]*))([.][0-9]+)?([eE][-+]?[0-9]+)?\<close>, group by group.\<close>

definition scan_sign :: "string \<Rightarrow> string \<Rightarrow> string \<times> string" where
  "scan_sign signs s = (case s of [] \<Rightarrow> ([], []) | c # r \<Rightarrow> if c \<in> set signs then ([c], r) else ([], s))"

definition scan_integer :: "string \<Rightarrow> (string \<times> string) option" where
  "scan_integer s =
     (case scan_sign ''-'' s of
        (sign, []) \<Rightarrow> None
      | (sign, c # r) \<Rightarrow>
          if c = CHR ''0'' then Some (sign @ [c], r)
          else if is_digit_char c then
            Some (sign @ takeWhile is_digit_char (c # r), dropWhile is_digit_char (c # r))
          else None)"

definition scan_fraction :: "string \<Rightarrow> string \<times> string" where
  "scan_fraction s =
     (case s of
        [] \<Rightarrow> ([], s)
      | c # r \<Rightarrow>
          if c = CHR ''.'' \<and> takeWhile is_digit_char r \<noteq> []
          then (c # takeWhile is_digit_char r, dropWhile is_digit_char r) else ([], s))"

definition scan_exponent :: "string \<Rightarrow> string \<times> string" where
  "scan_exponent s =
     (case s of
        [] \<Rightarrow> ([], s)
      | c # r \<Rightarrow>
          (case scan_sign ''-+'' r of
             (sign, r') \<Rightarrow>
               if c \<in> set ''eE'' \<and> takeWhile is_digit_char r' \<noteq> []
               then (c # sign @ takeWhile is_digit_char r', dropWhile is_digit_char r') else ([], s)))"

definition scan_numeral :: "string \<Rightarrow> ((string \<times> string) \<times> string) option" where
  "scan_numeral s =
     (case scan_integer s of
        None \<Rightarrow> None
      | Some (i, r1) \<Rightarrow>
          (case scan_fraction r1 of
             (f, r2) \<Rightarrow> (case scan_exponent r2 of (e, r3) \<Rightarrow> Some ((i, f @ e), r3))))"

definition digit_value :: "char \<Rightarrow> nat" where
  "digit_value c = of_char c - 0x30"

definition nat_value :: "string \<Rightarrow> nat" where
  "nat_value s = foldl (\<lambda>n c. 10 * n + digit_value c) 0 s"

definition int_value :: "string \<Rightarrow> int" where
  "int_value s =
     (case s of
        [] \<Rightarrow> 0
      | c # cs \<Rightarrow> if c = CHR ''-'' then - int (nat_value cs) else int (nat_value s))"

definition number_of :: "(string \<Rightarrow> 'f) \<Rightarrow> string \<times> string \<Rightarrow> 'f json" where
  "number_of fread = (\<lambda>(i, rest). if rest = [] then JInt (int_value i) else JFloat (fread (i @ rest)))"

text \<open>A \<open>dict\<close> of pairs: of several values of a key the last stays, at the place of the first.\<close>

definition dict_of :: "(string \<times> 'v) list \<Rightarrow> (string \<times> 'v) list" where
  "dict_of kvs = fold (\<lambda>(k, v) d. AList.update k v d) kvs []"

fun parse_value :: "(string \<Rightarrow> 'f) \<Rightarrow> nat \<Rightarrow> string \<Rightarrow> ('f json \<times> string) option"
  and parse_members :: "(string \<Rightarrow> 'f) \<Rightarrow> nat \<Rightarrow> string \<Rightarrow> ((string \<times> 'f json) list \<times> string) option"
  and parse_elements :: "(string \<Rightarrow> 'f) \<Rightarrow> nat \<Rightarrow> string \<Rightarrow> ('f json list \<times> string) option" where
  "parse_value fread 0 s = None"
| "parse_value fread (Suc n) s =
     (case s of
        [] \<Rightarrow> None
      | c # r \<Rightarrow>
          if c = CHR 0x22 then map_option (\<lambda>(t, r'). (JText t, r')) (scan_text r)
          else if c = CHR 0x7B then
            (case expect (CHR 0x7D) (skip_space r) of
               Some r' \<Rightarrow> Some (JObject [], r')
             | None \<Rightarrow> map_option (\<lambda>(kvs, r'). (JObject (dict_of kvs), r')) (parse_members fread n (skip_space r)))
          else if c = CHR 0x5B then
            (case expect (CHR 0x5D) (skip_space r) of
               Some r' \<Rightarrow> Some (JList [], r')
             | None \<Rightarrow> map_option (\<lambda>(xs, r'). (JList xs, r')) (parse_elements fread n (skip_space r)))
          else if c = CHR ''n'' then (if take 3 r = ''ull'' then Some (JNull, drop 3 r) else None)
          else if c = CHR ''t'' then (if take 3 r = ''rue'' then Some (JBool True, drop 3 r) else None)
          else if c = CHR ''f'' then (if take 4 r = ''alse'' then Some (JBool False, drop 4 r) else None)
          else if c = CHR ''N'' then (if take 2 r = ''aN'' then Some (JFloat (fread ''NaN''), drop 2 r) else None)
          else if c = CHR ''I'' then
            (if take 7 r = ''nfinity'' then Some (JFloat (fread ''Infinity''), drop 7 r) else None)
          else
            (case scan_numeral s of
               Some (t, r') \<Rightarrow> Some (number_of fread t, r')
             | None \<Rightarrow>
                 if c = CHR ''-'' \<and> take 8 r = ''Infinity'' then Some (JFloat (fread ''-Infinity''), drop 8 r)
                 else None))"
| "parse_members fread 0 s = None"
| "parse_members fread (Suc n) s =
     (case Option.bind (expect (CHR 0x22) s) scan_text of
        None \<Rightarrow> None
      | Some (k, r1) \<Rightarrow>
     (case Option.bind (expect (CHR 0x3A) (skip_space r1)) (\<lambda>r. parse_value fread n (skip_space r)) of
        None \<Rightarrow> None
      | Some (v, r2) \<Rightarrow>
     (case expect (CHR 0x7D) (skip_space r2) of
        Some r3 \<Rightarrow> Some ([(k, v)], r3)
      | None \<Rightarrow>
     (case expect (CHR 0x2C) (skip_space r2) of
        None \<Rightarrow> None
      | Some r3 \<Rightarrow> map_option (\<lambda>(kvs, r). ((k, v) # kvs, r)) (parse_members fread n (skip_space r3))))))"
| "parse_elements fread 0 s = None"
| "parse_elements fread (Suc n) s =
     (case parse_value fread n s of
        None \<Rightarrow> None
      | Some (v, r2) \<Rightarrow>
     (case expect (CHR 0x5D) (skip_space r2) of
        Some r3 \<Rightarrow> Some ([v], r3)
      | None \<Rightarrow>
     (case expect (CHR 0x2C) (skip_space r2) of
        None \<Rightarrow> None
      | Some r3 \<Rightarrow> map_option (\<lambda>(xs, r). (v # xs, r)) (parse_elements fread n (skip_space r3)))))"

definition loads :: "(string \<Rightarrow> 'f) \<Rightarrow> string \<Rightarrow> 'f json option" where
  "loads fread s =
     (case parse_value fread (2 * length s + 2) (skip_space s) of
        None \<Rightarrow> None
      | Some (v, r) \<Rightarrow> if skip_space r = [] then Some v else None)"

section \<open>Strings come back\<close>

lemma hex_value_digit: "n < 16 \<Longrightarrow> hex_value (hex_digit n) = Some n"
proof -
  assume "n < 16"
  then have "n \<in> {0..<16}" by simp
  moreover have "\<forall>n \<in> {0..<16}. hex_value (hex_digit n) = Some n" by code_simp
  ultimately show ?thesis by blast
qed

lemma hex_number_append:
  "hex_number n (s @ t) = Option.bind (hex_number n s) (\<lambda>m. hex_number m t)"
  by (induction n s rule: hex_number.induct) (auto split: option.splits)

lemma hex_number_digits: "n < 16 ^ k \<Longrightarrow> hex_number 0 (hex_digits k n) = Some n"
proof (induction k arbitrary: n)
  case (Suc k)
  then have "hex_number 0 (hex_digits k (n div 16)) = Some (n div 16)"
    by (intro Suc.IH) (simp add: less_mult_imp_div_less)
  then show ?case by (simp add: hex_number_append hex_value_digit)
qed simp

lemma length_digits [simp]: "length (hex_digits k n) = k"
  by (induction k arbitrary: n) simp_all

lemma unescape_code:
  assumes "n < 256"
  shows "unescape (CHR ''u'' # hex_digits 4 n @ s) = Some (char_of n, s)"
proof -
  have "hex_number 0 (hex_digits 4 n) = Some n" using assms by (intro hex_number_digits) simp
  then show ?thesis using assms by (simp add: unescape_def)
qed

abbreviation then_text :: "char \<Rightarrow> (string \<times> string) option \<Rightarrow> (string \<times> string) option" where
  "then_text c \<equiv> map_option (\<lambda>(t, r). (c # t, r))"

lemma scan_text_simps:
  "scan_text [] = None"
  "scan_text (CHR 0x22 # s) = Some ([], s)"
  "unescape s = Some (d, r) \<Longrightarrow> scan_text (CHR 0x5C # s) = then_text d (scan_text r)"
  "c \<noteq> CHR 0x22 \<Longrightarrow> c \<noteq> CHR 0x5C \<Longrightarrow> 0x20 \<le> (of_char c :: nat) \<Longrightarrow> scan_text (c # s) = then_text c (scan_text s)"
  by (simp_all add: scan_text.simps [of "_ # _"] scan_text.simps [of "[]"])

lemma escape_cases:
  "(\<exists>e. escape_char c = [CHR 0x5C, e] \<and> map_of simple_escapes e = Some c \<and> e \<noteq> CHR ''u'') \<or>
   escape_char c = [c] \<and> c \<noteq> CHR 0x22 \<and> c \<noteq> CHR 0x5C \<and> 0x20 \<le> (of_char c :: nat) \<or>
   escape_char c = [CHR 0x5C, CHR ''u''] @ hex_digits 4 (of_char c)"
proof (cases "c \<in> set [CHR 0x22, CHR 0x5C, CHR 0x0A, CHR 0x0D, CHR 0x09, CHR 0x0C, CHR 0x08]")
  case True
  have "\<forall>c \<in> set [CHR 0x22, CHR 0x5C, CHR 0x0A, CHR 0x0D, CHR 0x09, CHR 0x0C, CHR 0x08].
      \<exists>e \<in> set [CHR 0x22, CHR 0x5C, CHR ''n'', CHR ''r'', CHR ''t'', CHR ''f'', CHR ''b''].
        escape_char c = [CHR 0x5C, e] \<and> map_of simple_escapes e = Some c \<and> e \<noteq> CHR ''u''" by code_simp
  then show ?thesis using True by blast
next
  case False
  then show ?thesis by (simp add: escape_char_def)
qed

lemma scan_escaped: "scan_text (escape_char c @ s) = then_text c (scan_text s)"
proof -
  consider (short) e where "escape_char c = [CHR 0x5C, e]" "map_of simple_escapes e = Some c" "e \<noteq> CHR ''u''"
    | (plain) "escape_char c = [c]" "c \<noteq> CHR 0x22" "c \<noteq> CHR 0x5C" "0x20 \<le> (of_char c :: nat)"
    | (code) "escape_char c = [CHR 0x5C, CHR ''u''] @ hex_digits 4 (of_char c)"
    using escape_cases by blast
  then show ?thesis
  proof cases
    case short
    then have "unescape (e # s) = Some (c, s)" by (simp add: unescape_def)
    then show ?thesis using short by (simp add: scan_text_simps(3))
  next
    case plain
    then show ?thesis by (simp add: scan_text_simps(4))
  next
    case code
    have "unescape (CHR ''u'' # hex_digits 4 (of_char c) @ s) = Some (c, s)"
      using unescape_code [of "of_char c" s] by simp
    then show ?thesis using code by (simp add: scan_text_simps(3))
  qed
qed

lemma scan_quoted: "scan_text (concat (map escape_char t) @ CHR 0x22 # s) = Some (t, s)"
  by (induction t) (simp_all add: scan_text_simps(2) scan_escaped)

text \<open>What a string's end was read from stays readable when more follows.\<close>

lemma unescape_more: "unescape s = Some (c, r) \<Longrightarrow> unescape (s @ q) = Some (c, r @ q)"
  by (auto simp: unescape_def split: list.splits if_splits option.splits)

lemma scan_text_more: "scan_text s = Some (t, r) \<Longrightarrow> scan_text (s @ q) = Some (t, r @ q)"
proof (induction s arbitrary: t r rule: scan_text.induct)
  case (1 s)
  show ?case
  proof (cases s)
    case Nil
    then show ?thesis using 1(3) by (simp add: scan_text_simps)
  next
    case (Cons c cs)
    consider "c = CHR 0x22" | "c = CHR 0x5C" | "c \<noteq> CHR 0x22" "c \<noteq> CHR 0x5C" by blast
    then show ?thesis
    proof cases
      case 1
      then show ?thesis using "1.prems" Cons by (simp add: scan_text_simps)
    next
      case 2
      obtain d r' where d: "unescape cs = Some (d, r')"
        using "1.prems" Cons 2 by (cases "unescape cs") (auto simp: scan_text.simps [of "_ # _"])
      obtain t' where "scan_text r' = Some (t', r)" "t = d # t'"
        using "1.prems" Cons 2 d by (auto simp: scan_text_simps(3))
      with "1.IH"(1) [OF Cons _ 2 d refl] 2 d Cons show ?thesis
        by (simp add: scan_text_simps(3) unescape_more)
    next
      case 3
      have low: "\<not> (of_char c :: nat) < 0x20" using "1.prems" Cons 3 by (auto simp: scan_text.simps [of "_ # _"])
      then obtain t' where "scan_text cs = Some (t', r)" "t = c # t'"
        using "1.prems" Cons 3 by (auto simp: scan_text_simps(4))
      with "1.IH"(2) [OF Cons 3 low] 3 low Cons show ?thesis by (simp add: scan_text_simps(4))
    qed
  qed
qed

section \<open>Numbers come back\<close>

abbreviation starts :: "(char \<Rightarrow> bool) \<Rightarrow> string \<Rightarrow> bool" where
  "starts P s \<equiv> (case s of [] \<Rightarrow> False | c # _ \<Rightarrow> P c)"

text \<open>What may follow a value: nothing, or a character that no value goes on with.\<close>

definition ends_value :: "char \<Rightarrow> bool" where
  "ends_value c \<longleftrightarrow> is_json_space c \<or> c \<in> set [CHR 0x2C, CHR 0x5D, CHR 0x7D]"

definition stops :: "string \<Rightarrow> bool" where
  "stops s \<longleftrightarrow> s = [] \<or> starts ends_value s"

lemma ends_value_chars:
  "ends_value c \<Longrightarrow> \<not> is_digit_char c \<and> c \<noteq> CHR ''.'' \<and> c \<notin> set ''eE''"
  by (auto simp: ends_value_def is_json_space_def is_digit_char_def)

lemma no_digits [simp]:
  "\<not> is_digit_char (CHR ''.'')" "\<not> is_digit_char (CHR ''e'')" "\<not> is_digit_char (CHR ''E'')" "\<not> is_digit_char (CHR ''-'')"
  by (simp_all add: is_digit_char_def)

lemma while_more:
  assumes "\<not> starts P (dropWhile P x @ q)"
  shows "takeWhile P (x @ q) = takeWhile P x" "dropWhile P (x @ q) = dropWhile P x @ q"
proof -
  have "takeWhile P (x @ q) = takeWhile P x \<and> dropWhile P (x @ q) = dropWhile P x @ q"
    using assms
  proof (induction x)
    case Nil
    then show ?case by (cases q) simp_all
  qed auto
  then show "takeWhile P (x @ q) = takeWhile P x" "dropWhile P (x @ q) = dropWhile P x @ q" by simp_all
qed

lemma not_starts_dropWhile: "dropWhile P x \<noteq> [] \<Longrightarrow> \<not> starts P (dropWhile P x @ q)"
  by (induction x) auto

lemma scan_exponent_more:
  assumes "scan_exponent s = (e, r)" "stops (r @ q)"
  shows "scan_exponent (s @ q) = (e, r @ q)" "\<not> starts (\<lambda>c. is_digit_char c \<or> c = CHR ''.'') (s @ q)"
proof -
  have "scan_exponent (s @ q) = (e, r @ q) \<and> \<not> starts (\<lambda>c. is_digit_char c \<or> c = CHR ''.'') (s @ q)"
  proof (cases s)
    case Nil
    then have "e = []" "r = []" using assms(1) by (simp_all add: scan_exponent_def)
    then show ?thesis using assms(2) Nil ends_value_chars
      by (cases q) (auto simp: scan_exponent_def stops_def split: prod.splits)
  next
    case (Cons c cs)
    obtain sign ds where sign: "scan_sign ''-+'' cs = (sign, ds)" by fastforce
    show ?thesis
    proof (cases "c \<in> set ''eE'' \<and> takeWhile is_digit_char ds \<noteq> []")
      case False
      then have "e = []" "r = s" using assms(1) Cons sign by (auto simp: scan_exponent_def)
      then show ?thesis using assms(2) Cons ends_value_chars [of c]
        by (auto simp: scan_exponent_def stops_def split: prod.splits)
    next
      case True
      then have e: "e = c # sign @ takeWhile is_digit_char ds" "r = dropWhile is_digit_char ds"
        using assms(1) Cons sign by (auto simp: scan_exponent_def)
      have "cs \<noteq> []" using sign True by (auto simp: scan_sign_def)
      then have more: "scan_sign ''-+'' (cs @ q) = (sign, ds @ q)"
        using sign by (auto simp: scan_sign_def split: list.splits if_splits)
      have "\<not> starts is_digit_char (r @ q)"
        using assms(2) ends_value_chars by (auto simp: stops_def split: list.splits)
      from while_more [OF this [unfolded e(2)]]
      show ?thesis using True Cons more e by (auto simp: scan_exponent_def)
    qed
  qed
  then show "scan_exponent (s @ q) = (e, r @ q)" "\<not> starts (\<lambda>c. is_digit_char c \<or> c = CHR ''.'') (s @ q)" by simp_all
qed

lemma scan_fraction_more:
  assumes "scan_fraction s = (f, r)" "\<not> starts (\<lambda>c. is_digit_char c \<or> c = CHR ''.'') (r @ q)"
  shows "scan_fraction (s @ q) = (f, r @ q)" "\<not> starts is_digit_char (s @ q)"
proof -
  have "scan_fraction (s @ q) = (f, r @ q) \<and> \<not> starts is_digit_char (s @ q)"
  proof (cases s)
    case Nil
    then have "f = []" "r = []" using assms(1) by (simp_all add: scan_fraction_def)
    then show ?thesis using assms(2) Nil by (cases q) (auto simp: scan_fraction_def)
  next
    case (Cons c cs)
    show ?thesis
    proof (cases "c = CHR ''.'' \<and> takeWhile is_digit_char cs \<noteq> []")
      case False
      then have "f = []" "r = s" using assms(1) Cons by (auto simp: scan_fraction_def)
      then show ?thesis using assms(2) Cons by (auto simp: scan_fraction_def)
    next
      case True
      then have f: "f = c # takeWhile is_digit_char cs" "r = dropWhile is_digit_char cs"
        using assms(1) Cons by (auto simp: scan_fraction_def)
      have "\<not> starts is_digit_char (r @ q)" using assms(2) by (auto split: list.splits)
      from while_more [OF this [unfolded f(2)]]
      show ?thesis using True Cons f by (auto simp: scan_fraction_def)
    qed
  qed
  then show "scan_fraction (s @ q) = (f, r @ q)" "\<not> starts is_digit_char (s @ q)" by simp_all
qed

lemma scan_integer_more:
  assumes "scan_integer s = Some (i, r)" "\<not> starts is_digit_char (r @ q)"
  shows "scan_integer (s @ q) = Some (i, r @ q)"
proof -
  obtain sign ds where sign: "scan_sign ''-'' s = (sign, ds)" by fastforce
  obtain d ds' where ds: "ds = d # ds'" using assms(1) sign by (cases ds) (auto simp: scan_integer_def)
  have more: "scan_sign ''-'' (s @ q) = (sign, ds @ q)"
    using sign ds by (auto simp: scan_sign_def split: list.splits if_splits)
  show ?thesis
  proof (cases "d = CHR ''0''")
    case True
    then show ?thesis using assms(1) sign more ds by (simp add: scan_integer_def)
  next
    case False
    then have i: "is_digit_char d" "i = sign @ takeWhile is_digit_char ds" "r = dropWhile is_digit_char ds"
      using assms(1) sign ds by (auto simp: scan_integer_def split: if_splits)
    from while_more [OF assms(2) [unfolded i(3)]] show ?thesis
      using False sign more ds i by (simp add: scan_integer_def)
  qed
qed

lemma scan_numeral_more:
  assumes "scan_numeral s = Some (t, r)" "stops (r @ q)"
  shows "scan_numeral (s @ q) = Some (t, r @ q)"
proof -
  obtain i r1 where i: "scan_integer s = Some (i, r1)" using assms(1) by (auto simp: scan_numeral_def split: option.splits)
  obtain f r2 where f: "scan_fraction r1 = (f, r2)" by fastforce
  obtain e where e: "scan_exponent r2 = (e, r)" "t = (i, f @ e)"
    using assms(1) i f by (auto simp: scan_numeral_def split: prod.splits)
  note ee = scan_exponent_more [OF e(1) assms(2)]
  note ff = scan_fraction_more [OF f ee(2)]
  show ?thesis by (simp add: scan_numeral_def scan_integer_more [OF i ff(2)] ff(1) ee(1) e(2))
qed

text \<open>A number starts with a digit or a minus sign.\<close>

lemma scan_numeral_head: "scan_numeral s = Some x \<Longrightarrow> starts (\<lambda>c. is_digit_char c \<or> c = CHR ''-'') s"
  by (auto simp: scan_numeral_def scan_integer_def scan_sign_def is_digit_char_def split: option.splits list.splits if_splits prod.splits)

lemma nat_value_snoc: "nat_value (s @ [c]) = 10 * nat_value s + digit_value c"
  by (simp add: nat_value_def)

lemma digit_chars:
  assumes "n < 10"
  shows "digit_value (''0123456789'' ! n) = n" "is_digit_char (''0123456789'' ! n)" "(''0123456789'' ! n = CHR ''0'') = (n = 0)"
proof -
  have n: "n \<in> {0..<10}" using assms by simp
  have "\<forall>n \<in> {0..<10}. digit_value (''0123456789'' ! n) = n \<and> is_digit_char (''0123456789'' ! n) \<and>
      (''0123456789'' ! n = CHR ''0'') = (n = 0)" by code_simp
  from bspec [OF this n] show "digit_value (''0123456789'' ! n) = n" "is_digit_char (''0123456789'' ! n)"
    "(''0123456789'' ! n = CHR ''0'') = (n = 0)" by simp_all
qed

lemma decimal_digits:
  "list_all is_digit_char (decimal n) \<and> decimal n \<noteq> [] \<and> nat_value (decimal n) = n \<and>
   (hd (decimal n) = CHR ''0'' \<longrightarrow> n = 0)"
proof (induction n rule: decimal.induct)
  case (1 n)
  show ?case
  proof (cases "n < 10")
    case True
    then show ?thesis using digit_chars [OF True] by (simp add: decimal.simps [of n] nat_value_def)
  next
    case False
    have d: "n mod 10 < 10" by simp
    have "decimal n = decimal (n div 10) @ [''0123456789'' ! (n mod 10)]" using False by (simp add: decimal.simps [of n])
    then show ?thesis using 1 [OF False] False digit_chars [OF d] by (auto simp: nat_value_snoc simp del: nth_Cons')
  qed
qed

lemma decimal_scan:
  "scan_integer (decimal n) = Some (decimal n, [])"
  "scan_integer (CHR ''-'' # decimal n) = Some (CHR ''-'' # decimal n, [])"
  "int_value (decimal n) = int n" "int_value (CHR ''-'' # decimal n) = - int n"
proof -
  obtain c cs where c: "decimal n = c # cs" "is_digit_char c" "list_all is_digit_char cs" "nat_value (c # cs) = n"
    "c = CHR ''0'' \<Longrightarrow> n = 0" using decimal_digits [of n] by (cases "decimal n") auto
  have zero: "cs = []" if "c = CHR ''0''"
    using that c(1,5) decimal.simps [of 0] by simp
  have all: "takeWhile is_digit_char (c # cs) = c # cs" "dropWhile is_digit_char (c # cs) = []"
    using c(2,3) by (auto simp: list_all_iff)
  have minus: "c \<noteq> CHR ''-''" using c(2) by (auto simp: is_digit_char_def)
  show "scan_integer (decimal n) = Some (decimal n, [])"
    "scan_integer (CHR ''-'' # decimal n) = Some (CHR ''-'' # decimal n, [])"
    using c zero all minus by (simp_all add: scan_integer_def scan_sign_def)
  show "int_value (decimal n) = int n" "int_value (CHR ''-'' # decimal n) = - int n"
    using c(1,4) minus by (simp_all add: int_value_def)
qed

lemma int_text_scan: "scan_numeral (int_text i) = Some ((int_text i, []), [])" "int_value (int_text i) = i"
  by (simp_all add: scan_numeral_def int_text_def decimal_scan scan_fraction_def scan_exponent_def)

lemma scan_parts_text:
  "scan_sign signs s = (a, r) \<Longrightarrow> s = a @ r"
  "scan_integer s = Some (a, r) \<Longrightarrow> s = a @ r"
  "scan_fraction s = (a, r) \<Longrightarrow> s = a @ r"
  "scan_exponent s = (a, r) \<Longrightarrow> s = a @ r"
proof -
  show sign: "s = a @ r" if "scan_sign signs s = (a, r)" for signs s a r
    using that by (auto simp: scan_sign_def split: list.splits if_splits)
  show "s = a @ r" if "scan_integer s = Some (a, r)"
  proof -
    obtain sg ds where sg: "scan_sign ''-'' s = (sg, ds)" by fastforce
    then show ?thesis using that sign [OF sg]
      by (cases ds) (auto simp: scan_integer_def simp del: takeWhile.simps dropWhile.simps split: if_splits)
  qed
  show "s = a @ r" if "scan_fraction s = (a, r)"
    using that by (cases s) (auto simp: scan_fraction_def split: if_splits)
  show "s = a @ r" if "scan_exponent s = (a, r)"
  proof (cases s)
    case Nil
    then show ?thesis using that by (simp add: scan_exponent_def)
  next
    case (Cons c cs)
    obtain sg ds where sg: "scan_sign ''-+'' cs = (sg, ds)" by fastforce
    show ?thesis using that Cons sg sign [OF sg] by (auto simp: scan_exponent_def split: if_splits)
  qed
qed

lemma scan_numeral_text: "scan_numeral s = Some ((i, rest), r) \<Longrightarrow> s = i @ rest @ r"
proof -
  assume s: "scan_numeral s = Some ((i, rest), r)"
  obtain r1 where i: "scan_integer s = Some (i, r1)" using s by (auto simp: scan_numeral_def split: option.splits prod.splits)
  obtain f r2 where f: "scan_fraction r1 = (f, r2)" by fastforce
  obtain e where e: "scan_exponent r2 = (e, r)" "rest = f @ e"
    using s i f by (auto simp: scan_numeral_def split: prod.splits)
  show ?thesis using scan_parts_text(2) [OF i] scan_parts_text(3) [OF f] scan_parts_text(4) [OF e(1)] e(2) by simp
qed

text \<open>
  What is relied on of the text of a float, which is Python's: it is the numeral of no whole number, or one of
  the three names, and reading it gives the float back.
\<close>

definition float_text :: "string \<Rightarrow> bool" where
  "float_text t \<longleftrightarrow> t \<in> set [''NaN'', ''Infinity'', ''-Infinity''] \<or>
     (case scan_numeral t of None \<Rightarrow> False | Some ((i, rest), r) \<Rightarrow> rest \<noteq> [] \<and> r = [])"

definition float_ok :: "(string \<Rightarrow> 'f) \<Rightarrow> ('f \<Rightarrow> string) \<Rightarrow> 'f \<Rightarrow> bool" where
  "float_ok fread fshow x \<longleftrightarrow> float_text (fshow x) \<and> fread (fshow x) = x"

section \<open>Values come back\<close>

text \<open>A value that can be written: its keys are different and its floats have a text.\<close>

fun writable :: "(string \<Rightarrow> 'f) \<Rightarrow> ('f \<Rightarrow> string) \<Rightarrow> 'f json \<Rightarrow> bool" where
  "writable fread fshow (JFloat x) = float_ok fread fshow x"
| "writable fread fshow (JList xs) = list_all (writable fread fshow) xs"
| "writable fread fshow (JObject kvs) = (distinct (map fst kvs) \<and> list_all (\<lambda>(k, v). writable fread fshow v) kvs)"
| "writable fread fshow _ = True"

lemma update_new: "k \<notin> set (map fst d) \<Longrightarrow> AList.update k v d = d @ [(k, v)]"
  by (induction d) auto

lemma dict_of_distinct: "distinct (map fst kvs) \<Longrightarrow> dict_of kvs = kvs"
proof -
  have "distinct (map fst (d @ kvs)) \<Longrightarrow> fold (\<lambda>(k, v) d. AList.update k v d) kvs d = d @ kvs" for d
    by (induction kvs arbitrary: d) (auto simp: update_new)
  from this [of "[]"] show "distinct (map fst kvs) \<Longrightarrow> dict_of kvs = kvs" by (simp add: dict_of_def)
qed

lemma skip_space_simps:
  "\<not> is_json_space c \<Longrightarrow> skip_space (c # s) = c # s"
  "skip_space (line_break indent level @ s) = skip_space s"
  "skip_space (CHR 0x20 # s) = skip_space s"
proof -
  have "dropWhile is_json_space (replicate n (CHR 0x20) @ t) = dropWhile is_json_space t" for n t
    by (induction n) (simp_all add: is_json_space_def)
  moreover have "is_json_space (CHR 0x0A)" "is_json_space (CHR 0x20)" by (simp_all add: is_json_space_def)
  ultimately show "skip_space (line_break indent level @ s) = skip_space s" "skip_space (CHR 0x20 # s) = skip_space s"
    by (cases indent; simp add: skip_space_def line_break_def)+
qed (simp add: skip_space_def)

text \<open>The first character of a value's text is no space and closes no bracket.\<close>

definition begins_value :: "char \<Rightarrow> bool" where
  "begins_value c \<longleftrightarrow> is_digit_char c \<or> c \<in> set ''-NIntf'' \<or> c \<in> set [CHR 0x22, CHR 0x5B, CHR 0x7B]"

lemma begins_value_chars:
  "begins_value c \<Longrightarrow> \<not> is_json_space c \<and> c \<noteq> CHR 0x5D \<and> c \<noteq> CHR 0x7D"
  by (auto simp: begins_value_def is_json_space_def is_digit_char_def)

lemma float_head: "float_text t \<Longrightarrow> starts begins_value t"
proof -
  assume "float_text t"
  then consider "t = ''NaN''" | "t = ''Infinity''" | "t = ''-Infinity''" | x where "scan_numeral t = Some x"
    by (auto simp: float_text_def split: option.splits)
  then show ?thesis
  proof cases
    case 4
    then show ?thesis using scan_numeral_head [OF 4] by (cases t) (auto simp: begins_value_def)
  qed (simp_all add: begins_value_def)
qed

lemma starts_append: "starts P s \<Longrightarrow> starts P (s @ q)"
  by (cases s) simp_all

lemma begins_marks [simp]:
  "begins_value (CHR ''n'')" "begins_value (CHR ''t'')" "begins_value (CHR ''f'')" "begins_value (CHR 0x22)"
  "begins_value (CHR 0x5B)" "begins_value (CHR 0x7B)" "begins_value (CHR ''-'')" "is_digit_char c \<Longrightarrow> begins_value c"
  by (simp_all add: begins_value_def)

lemma dumps_head: "writable fread fshow j \<Longrightarrow> starts begins_value (dumps fshow indent level j @ q)"
proof (rule starts_append, cases j)
  case (JInt i)
  obtain c cs where c: "int_text i = c # cs" "is_digit_char c \<or> c = CHR ''-''"
    using scan_numeral_head [OF int_text_scan(1) [of i]] by (cases "int_text i") auto
  then have "begins_value c" by auto
  then show "starts begins_value (dumps fshow indent level j)" using JInt c(1) by simp
next
  case (JFloat x)
  assume "writable fread fshow j"
  then show "starts begins_value (dumps fshow indent level j)" using JFloat float_head by (simp add: float_ok_def)
qed (simp_all add: quoted_def)

lemma skip_dumps:
  assumes "writable fread fshow j"
  shows "skip_space (dumps fshow indent level j @ q) = dumps fshow indent level j @ q"
    "expect (CHR 0x5D) (dumps fshow indent level j @ q) = None"
    "expect (CHR 0x7D) (dumps fshow indent level j @ q) = None"
  using dumps_head [OF assms, of indent level q] begins_value_chars
  by (auto simp: expect_def skip_space_simps(1) split: list.splits)

lemma expect_simps [simp]: "expect c [] = None" "expect c (d # r) = (if d = c then Some r else None)"
  by (simp_all add: expect_def)

lemma stops_marks [simp]: "stops []" "stops (CHR 0x2C # s)" "stops (CHR 0x5D # s)" "stops (CHR 0x7D # s)"
  by (simp_all add: stops_def ends_value_def)

text \<open>Between items, and before a closing bracket.\<close>

lemma separator_text:
  obtains s' where "item_separator indent level @ s = CHR 0x2C # s'" "skip_space s' = skip_space s"
proof (cases indent)
  case None
  then show ?thesis using that [of "CHR 0x20 # s"] by (simp add: item_separator_def skip_space_simps)
next
  case (Some n)
  then show ?thesis using that [of "line_break indent level @ s"] by (simp add: item_separator_def skip_space_simps)
qed

lemma stops_break: "stops s \<Longrightarrow> stops (line_break indent level @ s)"
  by (cases indent) (simp_all add: line_break_def stops_def ends_value_def is_json_space_def)

lemma mark_no_space [simp]: "skip_space (CHR 0x2C # s) = CHR 0x2C # s" "skip_space (CHR 0x5D # s) = CHR 0x5D # s"
  "skip_space (CHR 0x7D # s) = CHR 0x7D # s" "skip_space (CHR 0x3A # s) = CHR 0x3A # s"
  "skip_space (CHR 0x22 # s) = CHR 0x22 # s"
  by (simp_all add: skip_space_simps(1) is_json_space_def)

lemma parse_number: "scan_numeral s = Some (t, r) \<Longrightarrow> parse_value fread (Suc n) s = Some (number_of fread t, r)"
proof -
  assume s: "scan_numeral s = Some (t, r)"
  then obtain c cs where c: "s = c # cs" "is_digit_char c \<or> c = CHR ''-''" using scan_numeral_head [OF s] by (cases s) auto
  then have "c \<noteq> CHR 0x22 \<and> c \<noteq> CHR 0x7B \<and> c \<noteq> CHR 0x5B \<and> c \<noteq> CHR ''n'' \<and> c \<noteq> CHR ''t'' \<and> c \<noteq> CHR ''f'' \<and>
      c \<noteq> CHR ''N'' \<and> c \<noteq> CHR ''I''" by (auto simp: is_digit_char_def)
  then show ?thesis using s c(1) by simp
qed

lemma parse_int: "stops q \<Longrightarrow> parse_value fread (Suc n) (int_text i @ q) = Some (JInt i, q)"
  using parse_number [OF scan_numeral_more [OF int_text_scan(1), of q]] by (simp add: number_of_def int_text_scan(2))

lemma parse_float:
  assumes "float_text t" "stops q"
  shows "parse_value fread (Suc n) (t @ q) = Some (JFloat (fread t), q)"
proof -
  have "scan_integer (''-Infinity'' @ q) = None" by (simp add: scan_integer_def scan_sign_def is_digit_char_def)
  then have inf: "scan_numeral (''-Infinity'' @ q) = None" by (simp add: scan_numeral_def)
  from assms(1) consider "t = ''NaN''" | "t = ''Infinity''" | "t = ''-Infinity''"
    | i rest where "scan_numeral t = Some ((i, rest), [])" "rest \<noteq> []"
    by (auto simp: float_text_def split: option.splits)
  then show ?thesis
  proof cases
    case 3
    then show ?thesis using inf by simp
  next
    case 4
    have "stops ([] @ q)" using assms(2) by simp
    from parse_number [OF scan_numeral_more [OF 4(1) this], of fread n] show ?thesis
      using 4(2) scan_numeral_text [OF 4(1)] by (simp add: number_of_def)
  qed simp_all
qed

lemma parse_elements_join:
  assumes "xs \<noteq> []"
    "\<And>x n q. x \<in> set xs \<Longrightarrow> 2 * length (d x) \<le> n \<Longrightarrow> stops q \<Longrightarrow> parse_value fread n (d x @ q) = Some (x, q)"
    "\<And>x q. x \<in> set xs \<Longrightarrow> skip_space (d x @ q) = d x @ q"
    "2 * length (join_with (item_separator indent level) (map d xs)) + 1 \<le> n"
  shows "parse_elements fread n
    (join_with (item_separator indent level) (map d xs) @ line_break indent level' @ CHR 0x5D # q) = Some (xs, q)"
  using assms
proof (induction xs arbitrary: n)
  case (Cons x xs)
  obtain m where n: "n = Suc m" using Cons.prems(4) by (cases n) simp_all
  note one = Cons.prems(2) [of x, OF list.set_intros(1)]
  show ?case
  proof (cases xs)
    case Nil
    have "2 * length (d x) \<le> m" using Cons.prems(4) n Nil by simp
    then show ?thesis using one [of m "line_break indent level' @ CHR 0x5D # q"] n Nil
      by (simp add: stops_break skip_space_simps)
  next
    case (Cons y ys)
    let ?rest = "join_with (item_separator indent level) (map d xs) @ line_break indent level' @ CHR 0x5D # q"
    obtain s' where s': "item_separator indent level @ ?rest = CHR 0x2C # s'" "skip_space s' = skip_space ?rest"
      by (rule separator_text)
    have len: "1 \<le> length (item_separator indent level)" by (cases indent) (simp_all add: item_separator_def)
    have "skip_space ?rest = ?rest" using Cons.prems(3) [of y] Cons by (cases ys) simp_all
    moreover have "parse_elements fread m ?rest = Some (xs, q)"
    proof (rule Cons.IH)
      show "2 * length (join_with (item_separator indent level) (map d xs)) + 1 \<le> m"
        using Cons.prems(4) n len Cons by simp
    qed (use Cons Cons.prems(2,3) in simp_all)
    moreover have "parse_value fread m (d x @ CHR 0x2C # s') = Some (x, CHR 0x2C # s')"
      using one [of m "CHR 0x2C # s'"] Cons.prems(4) n Cons by simp
    moreover have "join_with (item_separator indent level) (map d (x # xs)) @ line_break indent level' @ CHR 0x5D # q =
        d x @ CHR 0x2C # s'" using s'(1) Cons by simp
    ultimately show ?thesis using n s'(2) by simp
  qed
qed simp

lemma parse_members_join:
  assumes "kvs \<noteq> []"
    "\<And>k v n q. (k, v) \<in> set kvs \<Longrightarrow> 2 * length (d v) \<le> n \<Longrightarrow> stops q \<Longrightarrow> parse_value fread n (d v @ q) = Some (v, q)"
    "\<And>k v q. (k, v) \<in> set kvs \<Longrightarrow> skip_space (d v @ q) = d v @ q"
    "2 * length (join_with (item_separator indent level) (map (\<lambda>(k, v). quoted k @ [CHR 0x3A, CHR 0x20] @ d v) kvs)) + 1 \<le> n"
  shows "parse_members fread n
    (join_with (item_separator indent level) (map (\<lambda>(k, v). quoted k @ [CHR 0x3A, CHR 0x20] @ d v) kvs)
      @ line_break indent level' @ CHR 0x7D # q) = Some (kvs, q)"
  using assms
proof (induction kvs arbitrary: n)
  case (Cons kv kvs)
  let ?f = "\<lambda>(k, v). quoted k @ [CHR 0x3A, CHR 0x20] @ d v"
  obtain k v where kv: "kv = (k, v)" by fastforce
  obtain m where n: "n = Suc m" using Cons.prems(4) by (cases n) simp_all
  note one = Cons.prems(2) [of k v]
  have key: "Option.bind (expect (CHR 0x22) (quoted k @ s)) scan_text = Some (k, s)" for s
    by (simp add: quoted_def scan_quoted)
  have colon: "expect (CHR 0x3A) (skip_space (CHR 0x3A # CHR 0x20 # d v @ s)) = Some (CHR 0x20 # d v @ s)"
    "skip_space (CHR 0x20 # d v @ s) = d v @ s" for s
    using Cons.prems(3) [of k v s] kv by (simp_all add: skip_space_simps)
  show ?case
  proof (cases kvs)
    case Nil
    have "2 * length (d v) \<le> m" using Cons.prems(4) n Nil kv by simp
    then show ?thesis using one [of m "line_break indent level' @ CHR 0x7D # q"] n Nil kv key colon
      by (simp add: stops_break skip_space_simps)
  next
    case (Cons kv' ys)
    let ?rest = "join_with (item_separator indent level) (map ?f kvs) @ line_break indent level' @ CHR 0x7D # q"
    obtain s' where s': "item_separator indent level @ ?rest = CHR 0x2C # s'" "skip_space s' = skip_space ?rest"
      by (rule separator_text)
    have len: "1 \<le> length (item_separator indent level)" by (cases indent) (simp_all add: item_separator_def)
    have "skip_space ?rest = ?rest" using Cons by (cases kv'; cases ys) (simp_all add: quoted_def)
    moreover have "parse_members fread m ?rest = Some (kvs, q)"
    proof (rule Cons.IH)
      show "2 * length (join_with (item_separator indent level) (map ?f kvs)) + 1 \<le> m"
        using Cons.prems(4) n len Cons kv by simp
      show "kvs \<noteq> []" using Cons by simp
    qed (use Cons.prems(2,3) in \<open>fastforce+\<close>)
    moreover have "parse_value fread m (d v @ CHR 0x2C # s') = Some (v, CHR 0x2C # s')"
      using one [of m "CHR 0x2C # s'"] Cons.prems(4) n Cons kv by simp
    moreover have "join_with (item_separator indent level) (map ?f (kv # kvs)) @ line_break indent level' @ CHR 0x7D # q =
        quoted k @ CHR 0x3A # CHR 0x20 # d v @ CHR 0x2C # s'" using s'(1) Cons kv by simp
    ultimately show ?thesis using n s'(2) key colon kv by simp
  qed
qed simp

lemma parse_dumps:
  "writable fread fshow j \<Longrightarrow> 2 * length (dumps fshow indent level j) \<le> n \<Longrightarrow> stops q \<Longrightarrow>
   parse_value fread n (dumps fshow indent level j @ q) = Some (j, q)"
proof (induction j arbitrary: level n q)
  case (JList xs)
  obtain m where n: "n = Suc m" using JList.prems(2) by (cases n) (simp_all split: if_splits)
  show ?case
  proof (cases "xs = []")
    case False
    let ?items = "join_with (item_separator indent (level + 1)) (map (dumps fshow indent (level + 1)) xs)"
    have ok: "writable fread fshow x" if "x \<in> set xs" for x using JList.prems(1) that by (simp add: list_all_iff)
    obtain y ys where xs: "xs = y # ys" using False by (cases xs) simp_all
    have head: "skip_space (?items @ s) = ?items @ s" "expect (CHR 0x5D) (?items @ s) = None" for s
      using skip_dumps(1,2) [OF ok [of y]] xs by (cases ys; simp)+
    have "parse_elements fread m (?items @ line_break indent level @ CHR 0x5D # q) = Some (xs, q)"
    proof (rule parse_elements_join [OF False])
      show "2 * length ?items + 1 \<le> m" using JList.prems(2) n False by simp
    qed (use JList.IH ok skip_dumps(1) in blast)+
    then show ?thesis using n False head by (simp add: skip_space_simps)
  qed (use n in simp)
next
  case (JObject kvs)
  obtain m where n: "n = Suc m" using JObject.prems(2) by (cases n) (simp_all split: if_splits)
  show ?case
  proof (cases "kvs = []")
    case False
    let ?f = "\<lambda>(k, v). quoted k @ [CHR 0x3A, CHR 0x20] @ dumps fshow indent (level + 1) v"
    let ?items = "join_with (item_separator indent (level + 1)) (map ?f kvs)"
    have ok: "writable fread fshow v" if "(k, v) \<in> set kvs" for k v using JObject.prems(1) that by (auto simp: list_all_iff)
    obtain k v kvs' where kvs: "kvs = (k, v) # kvs'" using False by (cases kvs) auto
    have head: "skip_space (?items @ s) = ?items @ s" "expect (CHR 0x7D) (?items @ s) = None" for s
      using kvs by (cases kvs'; simp add: quoted_def)+
    have "parse_members fread m (?items @ line_break indent level @ CHR 0x7D # q) = Some (kvs, q)"
    proof (rule parse_members_join [OF False])
      show "2 * length ?items + 1 \<le> m" using JObject.prems(2) n False by simp
      show "parse_value fread i (dumps fshow indent (level + 1) v @ r) = Some (v, r)"
        if "(k, v) \<in> set kvs" "2 * length (dumps fshow indent (level + 1) v) \<le> i" "stops r" for k v i r
        by (rule JObject.IH [OF that(1) _ ok [OF that(1)] that(2,3)]) simp
    qed (use ok skip_dumps(1) in blast)
    moreover have "dict_of kvs = kvs" using JObject.prems(1) by (intro dict_of_distinct) simp
    ultimately show ?thesis using n False head by (simp add: skip_space_simps)
  qed (use n in simp)
next
  case (JText t)
  then show ?case by (cases n) (simp_all add: quoted_def scan_quoted)
next
  case (JInt i)
  then obtain m where "n = Suc m" using scan_numeral_head [OF int_text_scan(1) [of i]] by (cases n; cases "int_text i") simp_all
  then show ?case using parse_int [of q fread m i] JInt.prems(3) by (simp del: parse_value.simps)
next
  case (JFloat x)
  then obtain m where "n = Suc m" using float_head [of "fshow x"] by (cases n; cases "fshow x") (simp_all add: float_ok_def)
  then show ?case using parse_float [of "fshow x" q fread m] JFloat.prems by (simp add: float_ok_def del: parse_value.simps)
next
  case JNull
  then show ?case by (cases n) simp_all
next
  case (JBool b)
  then show ?case by (cases n; cases b) simp_all
qed

text \<open>\<open>json.loads\<close> of \<open>json.dumps\<close>, also with a line end behind it.\<close>

lemma loads_dumps:
  assumes "writable fread fshow j" "list_all is_json_space w"
  shows "loads fread (dumps fshow indent level j @ w) = Some j"
proof -
  have w: "stops w" "skip_space w = []"
    using assms(2) by (cases w; simp add: stops_def ends_value_def skip_space_def list_all_iff)+
  have "parse_value fread (2 * length (dumps fshow indent level j @ w) + 2) (dumps fshow indent level j @ w) = Some (j, w)"
    by (rule parse_dumps [OF assms(1) _ w(1)]) simp
  then show ?thesis by (simp add: loads_def skip_dumps(1) [OF assms(1)] w(2))
qed

section \<open>Text that was cut off\<close>

text \<open>A value whose text has its own end.\<close>

fun closed :: "'f json \<Rightarrow> bool" where
  "closed (JText _) = True"
| "closed (JList _) = True"
| "closed (JObject _) = True"
| "closed _ = False"

definition ended :: "'f json \<Rightarrow> string \<Rightarrow> bool" where
  "ended v r \<longleftrightarrow> closed v \<or> r \<noteq> [] \<and> stops r"

lemma skip_more: "skip_space s \<noteq> [] \<Longrightarrow> skip_space (s @ q) = skip_space s @ q"
  unfolding skip_space_def by (rule while_more(2)) (rule not_starts_dropWhile)

lemma expect_more:
  "expect c s = Some r \<Longrightarrow> expect c (s @ q) = Some (r @ q)"
  "expect c s = None \<Longrightarrow> s \<noteq> [] \<Longrightarrow> expect c (s @ q) = None"
  by (cases s; simp split: if_splits)+

lemma expect_skip: "expect c (skip_space s) = Some r \<Longrightarrow> expect c (skip_space (s @ q)) = Some (r @ q)"
  by (cases "skip_space s = []") (auto simp: skip_more intro: expect_more(1))

lemma expect_ended:
  assumes "expect c (skip_space s) = Some r" "c \<in> set [CHR 0x2C, CHR 0x5D, CHR 0x7D]"
  shows "ended v s"
proof (cases s)
  case Nil
  then show ?thesis using assms(1) by (simp add: skip_space_def)
next
  case (Cons d ds)
  then show ?thesis using assms
    by (cases "is_json_space d") (auto simp: ended_def stops_def ends_value_def skip_space_simps(1) split: if_splits)
qed

lemma parse_empty [simp]: "parse_value fread n [] = None" "parse_members fread n [] = None" "parse_elements fread n [] = None"
  by (cases n; simp; cases "n - 1"; simp)+

text \<open>More text and more fuel change nothing of a value that has ended.\<close>

lemma parse_more:
  "(parse_value fread n s = Some (v, r) \<longrightarrow> ended v r \<longrightarrow> n \<le> m \<longrightarrow> parse_value fread m (s @ q) = Some (v, r @ q)) \<and>
   (parse_members fread n s = Some (kvs, r) \<longrightarrow> n \<le> m \<longrightarrow> parse_members fread m (s @ q) = Some (kvs, r @ q)) \<and>
   (parse_elements fread n s = Some (xs, r) \<longrightarrow> n \<le> m \<longrightarrow> parse_elements fread m (s @ q) = Some (xs, r @ q))"
proof (induction n arbitrary: m s v r kvs xs)
  case (Suc n)
  note ih_value = Suc.IH [THEN conjunct1, rule_format]
    and ih_members = Suc.IH [THEN conjunct2, THEN conjunct1, rule_format]
    and ih_elements = Suc.IH [THEN conjunct2, THEN conjunct2, rule_format]
  have valued: "parse_value fread (Suc n) s = Some (v, r) \<Longrightarrow> ended v r \<Longrightarrow> Suc n \<le> m \<Longrightarrow>
      parse_value fread m (s @ q) = Some (v, r @ q)"
  proof -
    assume run: "parse_value fread (Suc n) s = Some (v, r)" "ended v r" "Suc n \<le> m"
    obtain k where m: "m = Suc k" "n \<le> k" using run(3) by (cases m) auto
    obtain c cs where s: "s = c # cs" using run(1) by (cases s) auto
    consider (str) "c = CHR 0x22" | (obj) "c = CHR 0x7B" | (lst) "c = CHR 0x5B"
      | (number) t where "scan_numeral s = Some (t, r)" "v = number_of fread t"
      | (other) "c \<noteq> CHR 0x22" "c \<noteq> CHR 0x7B" "c \<noteq> CHR 0x5B" "c \<notin> set ''ntfNI''" "scan_numeral s = None"
      | (name) "c \<in> set ''ntfNI''"
      using run(1) s by (cases "scan_numeral s") (auto split: if_splits)
    then show ?thesis
    proof cases
      case str
      then show ?thesis using run(1) s m scan_text_more by auto
    next
      case obj
      show ?thesis
      proof (cases "expect (CHR 0x7D) (skip_space cs)")
        case None
        then obtain kvs where kvs: "parse_members fread n (skip_space cs) = Some (kvs, r)" "v = JObject (dict_of kvs)"
          using run(1) s obj by auto
        then have "skip_space cs \<noteq> []" by auto
        then show ?thesis using ih_members [OF kvs(1) m(2)] kvs(2) s m None obj by (simp add: skip_more expect_more(2))
      next
        case (Some r')
        then show ?thesis using run(1) s m obj expect_skip [OF Some, of q] by simp
      qed
    next
      case lst
      show ?thesis
      proof (cases "expect (CHR 0x5D) (skip_space cs)")
        case None
        then obtain xs where xs: "parse_elements fread n (skip_space cs) = Some (xs, r)" "v = JList xs"
          using run(1) s lst by auto
        then have "skip_space cs \<noteq> []" by auto
        then show ?thesis using ih_elements [OF xs(1) m(2)] xs(2) s m None lst by (simp add: skip_more expect_more(2))
      next
        case (Some r')
        then show ?thesis using run(1) s m lst expect_skip [OF Some, of q] by simp
      qed
    next
      case number
      have "ended v r \<Longrightarrow> stops (r @ q)" using number by (cases t; cases r) (auto simp: number_of_def ended_def stops_def split: if_splits)
      then have "scan_numeral (s @ q) = Some (t, r @ q)" using number(1) run(2) scan_numeral_more by blast
      from parse_number [OF this, of fread k] show ?thesis using m number(2) by simp
    next
      case other
      have inf: "c = CHR ''-''" "take 8 cs = ''Infinity''" "v = JFloat (fread ''-Infinity'')" "r = drop 8 cs"
        using run(1) s other by (auto split: if_splits)
      then obtain cs' where cs': "cs = ''Infinity'' @ cs'" using append_take_drop_id [of 8 cs] by metis
      have "scan_numeral (s @ q) = None" using s inf(1) cs' by (simp add: scan_numeral_def scan_integer_def scan_sign_def is_digit_char_def)
      then show ?thesis using s inf cs' m by simp
    next
      case name
      have "take i (cs @ q) = take i cs \<and> drop i (cs @ q) = drop i cs @ q" if "take i cs = t" "length t = i" for i t
        using that by (auto simp: min_def split: if_splits)
      from this [of 2 "''aN''"] this [of 3 "''ull''"] this [of 3 "''rue''"] this [of 4 "''alse''"] this [of 7 "''nfinity''"]
      show ?thesis using name run(1) s m by (auto split: if_splits)
    qed
  qed
  have members: "parse_members fread (Suc n) s = Some (kvs, r) \<Longrightarrow> Suc n \<le> m \<Longrightarrow>
      parse_members fread m (s @ q) = Some (kvs, r @ q)"
  proof -
    assume run: "parse_members fread (Suc n) s = Some (kvs, r)" "Suc n \<le> m"
    obtain k where m: "m = Suc k" "n \<le> k" using run(2) by (cases m) auto
    obtain s1 key r1 where key: "expect (CHR 0x22) s = Some s1" "scan_text s1 = Some (key, r1)"
      using run(1) by (auto simp: bind_eq_Some_conv split: option.splits)
    obtain s2 x r2 where x: "expect (CHR 0x3A) (skip_space r1) = Some s2" "parse_value fread n (skip_space s2) = Some (x, r2)"
      using run(1) key by (auto simp: bind_eq_Some_conv split: option.splits)
    have "skip_space s2 \<noteq> []" using x(2) by (metis parse_empty(1) option.distinct(1))
    then have more: "expect (CHR 0x22) (s @ q) = Some (s1 @ q)" "scan_text (s1 @ q) = Some (key, r1 @ q)"
      "expect (CHR 0x3A) (skip_space (r1 @ q)) = Some (s2 @ q)" "skip_space (s2 @ q) = skip_space s2 @ q"
      using expect_more(1) [OF key(1)] scan_text_more [OF key(2)] expect_skip [OF x(1)] skip_more [of s2 q] by simp_all
    note step = key x more m(1)
    show ?thesis
    proof (cases "expect (CHR 0x7D) (skip_space r2)")
      case (Some r3)
      have "parse_value fread k (skip_space s2 @ q) = Some (x, r2 @ q)"
        by (rule ih_value [OF x(2) expect_ended [OF Some] m(2)]) simp
      then show ?thesis using run(1) step Some expect_skip [OF Some, of q] by simp
    next
      case None
      obtain r3 where r3: "expect (CHR 0x2C) (skip_space r2) = Some r3"
        using run(1) step None by (auto split: option.splits)
      have v: "parse_value fread k (skip_space s2 @ q) = Some (x, r2 @ q)"
        by (rule ih_value [OF x(2) expect_ended [OF r3] m(2)]) simp
      have "skip_space r2 \<noteq> []" using r3 by auto
      then have none: "expect (CHR 0x7D) (skip_space (r2 @ q)) = None" using None by (simp add: skip_more expect_more(2))
      obtain kvs' where rest: "parse_members fread n (skip_space r3) = Some (kvs', r)" "kvs = (key, x) # kvs'"
        using run(1) step None r3 by auto
      then have "skip_space r3 \<noteq> []" by auto
      then have "parse_members fread k (skip_space (r3 @ q)) = Some (kvs', r @ q)"
        using ih_members [OF rest(1) m(2)] by (simp add: skip_more)
      then show ?thesis using step v none expect_skip [OF r3, of q] rest(2) by simp
    qed
  qed
  have elements: "parse_elements fread (Suc n) s = Some (xs, r) \<Longrightarrow> Suc n \<le> m \<Longrightarrow>
      parse_elements fread m (s @ q) = Some (xs, r @ q)"
  proof -
    assume run: "parse_elements fread (Suc n) s = Some (xs, r)" "Suc n \<le> m"
    obtain k where m: "m = Suc k" "n \<le> k" using run(2) by (cases m) auto
    obtain x r2 where x: "parse_value fread n s = Some (x, r2)" using run(1) by (auto split: option.splits)
    show ?thesis
    proof (cases "expect (CHR 0x5D) (skip_space r2)")
      case (Some r3)
      have "parse_value fread k (s @ q) = Some (x, r2 @ q)"
        by (rule ih_value [OF x expect_ended [OF Some] m(2)]) simp
      then show ?thesis using run(1) x m Some expect_skip [OF Some, of q] by simp
    next
      case None
      obtain r3 where r3: "expect (CHR 0x2C) (skip_space r2) = Some r3"
        using run(1) x None by (auto split: option.splits)
      have v: "parse_value fread k (s @ q) = Some (x, r2 @ q)"
        by (rule ih_value [OF x expect_ended [OF r3] m(2)]) simp
      have "skip_space r2 \<noteq> []" using r3 by auto
      then have none: "expect (CHR 0x5D) (skip_space (r2 @ q)) = None" using None by (simp add: skip_more expect_more(2))
      obtain xs' where rest: "parse_elements fread n (skip_space r3) = Some (xs', r)" "xs = x # xs'"
        using run(1) x None r3 by auto
      then have "skip_space r3 \<noteq> []" by auto
      then have "parse_elements fread k (skip_space (r3 @ q)) = Some (xs', r @ q)"
        using ih_elements [OF rest(1) m(2)] by (simp add: skip_more)
      then show ?thesis using m(1) v none expect_skip [OF r3, of q] rest(2) by simp
    qed
  qed
  show ?case using valued members elements by blast
qed simp

text \<open>A cut value whose text has its own end is not read, nor is the empty text.\<close>

lemma loads_cut:
  assumes "writable fread fshow j" "closed j" "dumps fshow indent level j = p @ q" "q \<noteq> []"
  shows "loads fread p = None"
proof (cases p)
  case Nil
  then show ?thesis by (simp add: loads_def skip_space_def)
next
  case (Cons c cs)
  have p: "skip_space p = p"
    using dumps_head [OF assms(1), of indent level "[]"] assms(3) Cons begins_value_chars by (auto simp: skip_space_simps(1))
  have first: "c = CHR 0x22 \<or> c = CHR 0x5B \<or> c = CHR 0x7B"
    using assms(2,3) Cons by (cases j) (auto simp: quoted_def split: if_splits)
  show ?thesis
  proof (rule ccontr)
    assume "loads fread p \<noteq> None"
    then obtain v r where v: "parse_value fread (2 * length p + 2) p = Some (v, r)"
      unfolding loads_def p by (auto split: option.splits)
    then have "closed v" using first Cons by (auto split: option.splits)
    then have ended: "ended v r" by (simp add: ended_def)
    have "parse_value fread (2 * length (p @ q) + 2) (p @ q) = Some (v, r @ q)"
      by (rule parse_more [THEN conjunct1, rule_format, OF v ended]) simp
    moreover have "parse_value fread (2 * length (p @ q) + 2) (p @ q) = Some (j, [])"
      using parse_dumps [OF assms(1), of indent level "2 * length (p @ q) + 2" "[]"] assms(3)
      by (simp del: parse_value.simps)
    ultimately show False using assms(4) by simp
  qed
qed

end
