(* ===== verification/IndexerDates.thy ===== *)
theory IndexerDates
  imports JsonText "HOL-Library.Monad_Syntax"
begin

text \<open>
  Dates and times as the indexer's files have them: \<open>_date_str\<close> and \<open>_day_of_date\<close> of \<open>project.py\<close>, \<open>_iso\<close> and \<open>_parse_iso\<close> of
  \<open>serialize.py\<close>, and the \<open>isoformat\<close> of \<open>store.py\<close>, over the Gregorian calendar of Python's \<open>datetime\<close>. A time is its whole
  UTC seconds since 1970 and a date the index of its day. Of what \<open>fromisoformat\<close> reads, the form these files are
  written in is modelled; years have four digits.
\<close>

section \<open>The calendar\<close>

definition is_leap :: "nat \<Rightarrow> bool" where
  "is_leap y \<longleftrightarrow> y mod 4 = 0 \<and> (y mod 100 \<noteq> 0 \<or> y mod 400 = 0)"

definition year_days :: "nat \<Rightarrow> nat" where
  "year_days y = (if is_leap y then 366 else 365)"

definition month_days :: "nat \<Rightarrow> nat \<Rightarrow> nat" where
  "month_days y m =
     (if m = 2 then (if is_leap y then 29 else 28) else if m \<in> {4, 6, 9, 11} then 30 else 31)"

lemma year_days_pos: "0 < year_days y"
  by (simp add: year_days_def)

function year_of :: "nat \<Rightarrow> nat \<Rightarrow> nat \<times> nat" where
  "year_of y n = (if n < year_days y then (y, n) else year_of (y + 1) (n - year_days y))"
  by pat_completeness auto
termination by (relation "measure snd") (auto simp: year_days_def)

function month_of :: "nat \<Rightarrow> nat \<Rightarrow> nat \<Rightarrow> nat \<times> nat" where
  "month_of y m n = (if 12 \<le> m \<or> n < month_days y m then (m, n) else month_of y (m + 1) (n - month_days y m))"
  by pat_completeness auto
termination by (relation "measure (\<lambda>(y, m, n). 12 - m)") auto

declare year_of.simps [simp del] month_of.simps [simp del]

text \<open>Year, month and day of the month.\<close>

definition civil_day :: "nat \<Rightarrow> nat \<times> nat \<times> nat" where
  "civil_day n =
     (case year_of 1970 n of (y, d) \<Rightarrow> (case month_of y 1 d of (m, k) \<Rightarrow> (y, m, k + 1)))"

definition day_index :: "nat \<Rightarrow> nat \<Rightarrow> nat \<Rightarrow> nat" where
  "day_index y m d = sum_list (map year_days [1970..<y]) + sum_list (map (month_days y) [1..<m]) + (d - 1)"

section \<open>Texts\<close>

fun padded :: "nat \<Rightarrow> nat \<Rightarrow> string" where
  "padded 0 n = []"
| "padded (Suc k) n = padded k (n div 10) @ [''0123456789'' ! (n mod 10)]"

text \<open>\<open>strftime("%Y-%m-%d")\<close> of a day, and the two forms of a time.\<close>

definition day_text :: "nat \<Rightarrow> string" where
  "day_text n = (case civil_day n of (y, m, d) \<Rightarrow> padded 4 y @ ''-'' @ padded 2 m @ ''-'' @ padded 2 d)"

definition clock_text :: "nat \<Rightarrow> string" where
  "clock_text t =
     day_text (t div 86400) @ ''T'' @ padded 2 (t mod 86400 div 3600) @ '':'' @ padded 2 (t mod 3600 div 60)
       @ '':'' @ padded 2 (t mod 60)"

definition iso_text :: "nat \<Rightarrow> string" where
  "iso_text t = clock_text t @ ''Z''"

definition isoformat :: "nat \<Rightarrow> string" where
  "isoformat t = clock_text t @ ''+00:00''"

text \<open>A number of so many digits at the front.\<close>

definition digits_at :: "nat \<Rightarrow> string \<Rightarrow> (nat \<times> string) option" where
  "digits_at k s =
     (if k \<le> length s \<and> list_all is_digit_char (take k s) then Some (nat_value (take k s), drop k s) else None)"

definition scan_day :: "string \<Rightarrow> (nat \<times> string) option" where
  "scan_day s =
     do {
       (y, s1) \<leftarrow> digits_at 4 s;
       s2 \<leftarrow> expect (CHR ''-'') s1;
       (m, s3) \<leftarrow> digits_at 2 s2;
       s4 \<leftarrow> expect (CHR ''-'') s3;
       (d, s5) \<leftarrow> digits_at 2 s4;
       if 1970 \<le> y \<and> 1 \<le> m \<and> m \<le> 12 \<and> 1 \<le> d \<and> d \<le> month_days y m then Some (day_index y m d, s5) else None
     }"

definition parse_day :: "string \<Rightarrow> nat option" where
  "parse_day s = (case scan_day s of Some (n, []) \<Rightarrow> Some n | _ \<Rightarrow> None)"

definition fromisoformat :: "string \<Rightarrow> nat option" where
  "fromisoformat s =
     do {
       (n, s1) \<leftarrow> scan_day s;
       s2 \<leftarrow> expect (CHR ''T'') s1;
       (h, s3) \<leftarrow> digits_at 2 s2;
       s4 \<leftarrow> expect (CHR '':'') s3;
       (mi, s5) \<leftarrow> digits_at 2 s4;
       s6 \<leftarrow> expect (CHR '':'') s5;
       (sec, s7) \<leftarrow> digits_at 2 s6;
       if h < 24 \<and> mi < 60 \<and> sec < 60 \<and> s7 = ''+00:00'' then Some (n * 86400 + h * 3600 + mi * 60 + sec) else None
     }"

text \<open>\<open>s.replace("Z", "+00:00")\<close>.\<close>

definition parse_iso :: "string \<Rightarrow> nat option" where
  "parse_iso s = fromisoformat (concat (map (\<lambda>c. if c = CHR ''Z'' then ''+00:00'' else [c]) s))"

section \<open>The calendar and back\<close>

lemma year_of_result:
  "year_of y n = (y', d) \<Longrightarrow> y \<le> y' \<and> n = sum_list (map year_days [y..<y']) + d \<and> d < year_days y'"
proof (induction y n arbitrary: y' d rule: year_of.induct)
  case (1 y n)
  show ?case
  proof (cases "n < year_days y")
    case True
    then show ?thesis using 1(2) by (simp add: year_of.simps [of y n])
  next
    case False
    have ih: "y + 1 \<le> y'" "n - year_days y = sum_list (map year_days [y + 1..<y']) + d" "d < year_days y'"
      using 1(1) [OF False, of y' d] 1(2) False by (simp_all add: year_of.simps [of y n])
    have "[y..<y'] = y # [y + 1..<y']" using ih(1) by (simp add: upt_conv_Cons)
    then show ?thesis using ih False by simp
  qed
qed

lemma month_of_result:
  "month_of y m n = (m', d) \<Longrightarrow> m \<le> 12 \<Longrightarrow> n < sum_list (map (month_days y) [m..<13]) \<Longrightarrow>
   m \<le> m' \<and> m' \<le> 12 \<and> n = sum_list (map (month_days y) [m..<m']) + d \<and> d < month_days y m'"
proof (induction y m n arbitrary: m' d rule: month_of.induct)
  case (1 y m n)
  have split: "[m..<13] = m # [m + 1..<13]" using 1(3) by (simp add: upt_conv_Cons)
  show ?case
  proof (cases "12 \<le> m \<or> n < month_days y m")
    case True
    have "n < month_days y m"
    proof (cases "n < month_days y m")
      case False
      then have "m = 12" using True 1(3) by simp
      then show ?thesis using 1(4) by simp
    qed
    then show ?thesis using 1(2,3) True by (simp add: month_of.simps [of y m n])
  next
    case False
    have small: "n - month_days y m < sum_list (map (month_days y) [m + 1..<13])" using 1(4) False split by auto
    have ih: "m + 1 \<le> m'" "m' \<le> 12" "n - month_days y m = sum_list (map (month_days y) [m + 1..<m']) + d"
      "d < month_days y m'"
      using 1(1) [OF False, of m' d] 1(2) small False by (simp_all add: month_of.simps [of y m n])
    have "[m..<m'] = m # [m + 1..<m']" using ih(1) by (simp add: upt_conv_Cons)
    then show ?thesis using ih False by simp
  qed
qed

lemma months_of_year: "sum_list (map (month_days y) [1..<13]) = year_days y"
  by (simp add: upt_conv_Cons month_days_def year_days_def)

lemma civil_day_result:
  assumes "civil_day n = (y, m, d)"
  shows "1970 \<le> y" "1 \<le> m" "m \<le> 12" "1 \<le> d" "d \<le> month_days y m" "day_index y m d = n"
proof -
  obtain k where y: "year_of 1970 n = (y, k)" and m: "month_of y 1 k = (m, d - 1)" "1 \<le> d"
    using assms by (auto simp: civil_day_def split: prod.splits)
  note yy = year_of_result [OF y]
  have "k < sum_list (map (month_days y) [1..<13])" using yy months_of_year by simp
  from month_of_result [OF m(1) _ this] yy m(2) show "1970 \<le> y" "1 \<le> m" "m \<le> 12" "1 \<le> d" "d \<le> month_days y m"
    "day_index y m d = n" by (auto simp: day_index_def)
qed

text \<open>Years of four digits.\<close>

abbreviation DAY_LIMIT :: nat where
  "DAY_LIMIT \<equiv> 365 * 8030"

lemma year_bound:
  assumes "civil_day n = (y, m, d)" "n < DAY_LIMIT"
  shows "y < 10000"
proof -
  obtain k where y: "year_of 1970 n = (y, k)" using assms by (auto simp: civil_day_def split: prod.splits)
  have "365 * length ys \<le> sum_list (map year_days ys)" for ys
    by (induction ys) (auto simp: year_days_def)
  from this [of "[1970..<y]"] year_of_result [OF y] assms(2) show ?thesis by simp
qed

section \<open>Texts and back\<close>

lemma length_padded [simp]: "length (padded k n) = k"
  by (induction k arbitrary: n) simp_all

lemma padded_digits: "list_all is_digit_char (padded k n)"
  by (induction k arbitrary: n) (simp_all add: digit_chars del: nth_Cons')

lemma padded_value: "n < 10 ^ k \<Longrightarrow> nat_value (padded k n) = n"
proof (induction k arbitrary: n)
  case 0
  then show ?case by (simp add: nat_value_def)
next
  case (Suc k)
  have "nat_value (padded k (n div 10)) = n div 10" using Suc.prems by (intro Suc.IH) simp
  then show ?case by (simp add: nat_value_snoc digit_chars del: nth_Cons')
qed

lemma digits_padded: "n < 10 ^ k \<Longrightarrow> digits_at k (padded k n @ s) = Some (n, s)"
  by (simp add: digits_at_def padded_digits padded_value)

lemma scan_day_text: "n < DAY_LIMIT \<Longrightarrow> scan_day (day_text n @ s) = Some (n, s)"
proof -
  assume n: "n < DAY_LIMIT"
  obtain y m d where c: "civil_day n = (y, m, d)" by (cases "civil_day n") auto
  note r = civil_day_result [OF c] and y = year_bound [OF c n]
  have "month_days y m \<le> 31" by (simp add: month_days_def)
  then have "y < 10 ^ 4" "m < 10 ^ 2" "d < 10 ^ 2" using y r by simp_all
  then show ?thesis using r digits_padded [of y 4] digits_padded [of m 2] digits_padded [of d 2]
    by (simp add: scan_day_def day_text_def c)
qed

lemma parse_day_text: "n < DAY_LIMIT \<Longrightarrow> parse_day (day_text n) = Some n"
  using scan_day_text [of n "[]"] by (simp add: parse_day_def)

abbreviation TIME_LIMIT :: nat where
  "TIME_LIMIT \<equiv> 86400 * DAY_LIMIT"

lemma fromisoformat_parts:
  assumes "n < DAY_LIMIT" "h < 24" "mi < 60" "sec < 60"
  shows "fromisoformat (day_text n @ ''T'' @ padded 2 h @ '':'' @ padded 2 mi @ '':'' @ padded 2 sec @ ''+00:00'') =
    Some (n * 86400 + h * 3600 + mi * 60 + sec)"
proof -
  have few: "h < 10 ^ 2" "mi < 10 ^ 2" "sec < 10 ^ 2" using assms by simp_all
  show ?thesis
    using assms(2-) by (simp add: fromisoformat_def scan_day_text [OF assms(1)] digits_padded few)
qed

lemma time_parts: "t div 86400 * 86400 + t mod 86400 div 3600 * 3600 + t mod 3600 div 60 * 60 + t mod 60 = (t :: nat)"
proof -
  have "t mod 86400 mod 3600 = t mod 3600" "t mod 3600 mod 60 = t mod 60" by (simp_all add: mod_mod_cancel)
  then show ?thesis
    using div_mult_mod_eq [of t 86400] div_mult_mod_eq [of "t mod 86400" 3600] div_mult_mod_eq [of "t mod 3600" 60]
    by linarith
qed

lemma fromisoformat_text: "t < TIME_LIMIT \<Longrightarrow> fromisoformat (isoformat t) = Some t"
proof -
  assume t: "t < TIME_LIMIT"
  have d: "t div 86400 < DAY_LIMIT" by (rule less_mult_imp_div_less) (use t in simp)
  have small: "t mod 86400 div 3600 < 24" "t mod 3600 div 60 < 60" "t mod 60 < 60"
    by (rule less_mult_imp_div_less, simp)+ simp
  show ?thesis
    unfolding isoformat_def clock_text_def append_assoc fromisoformat_parts [OF d small] time_parts ..
qed

lemma no_zulu: "CHR ''Z'' \<notin> set (clock_text t)"
proof -
  have "\<not> is_digit_char (CHR ''Z'')" by (simp add: is_digit_char_def)
  then have z: "CHR ''Z'' \<notin> set (padded k n)" for k n
    using padded_digits [of k n] unfolding list_all_iff by blast
  obtain y m d where "civil_day (t div 86400) = (y, m, d)" by (cases "civil_day (t div 86400)") auto
  then have "CHR ''Z'' \<notin> set (day_text (t div 86400))" using z by (simp add: day_text_def)
  then have "CHR ''Z'' \<notin> set (day_text (t div 86400) @ ''T'' @ padded 2 h @ '':'' @ padded 2 mi @ '':'' @ padded 2 sec)" for h mi sec
    using z by simp
  then show ?thesis unfolding clock_text_def .
qed

lemma parse_iso_text: "t < TIME_LIMIT \<Longrightarrow> parse_iso (iso_text t) = Some t"
proof -
  assume t: "t < TIME_LIMIT"
  have "concat (map (\<lambda>c. if c = CHR ''Z'' then ''+00:00'' else [c]) s) = s" if "CHR ''Z'' \<notin> set s" for s
    using that by (induction s) auto
  then have "concat (map (\<lambda>c. if c = CHR ''Z'' then ''+00:00'' else [c]) (iso_text t)) = isoformat t"
    using no_zulu [of t] by (simp add: iso_text_def isoformat_def)
  then show ?thesis using fromisoformat_text [OF t] by (simp only: parse_iso_def)
qed

section \<open>Texts are ordered as their days are\<close>

text \<open>Python's order of strings.\<close>

abbreviation text_less :: "string \<Rightarrow> string \<Rightarrow> bool" where
  "text_less s t \<equiv> (s, t) \<in> lexord {(a, b). (of_char a :: nat) < of_char b}"

lemma digit_order: "n < m \<Longrightarrow> m < 10 \<Longrightarrow> text_less [''0123456789'' ! n] [''0123456789'' ! m]"
proof -
  assume nm: "n < m" "m < 10"
  have "\<forall>m \<in> {0..<10}. \<forall>n \<in> {0..<m}. (of_char (''0123456789'' ! n) :: nat) < of_char (''0123456789'' ! m)" by code_simp
  then have "(of_char (''0123456789'' ! n) :: nat) < of_char (''0123456789'' ! m)" using nm by simp
  then show ?thesis by (simp add: lexord_cons_cons del: nth_Cons')
qed

lemma padded_order: "n < m \<Longrightarrow> m < 10 ^ k \<Longrightarrow> text_less (padded k n) (padded k m)"
proof (induction k arbitrary: n m)
  case (Suc k)
  show ?case
  proof (cases "n div 10 < m div 10")
    case True
    then have "text_less (padded k (n div 10)) (padded k (m div 10))" using Suc.prems(2) by (intro Suc.IH) simp_all
    then show ?thesis unfolding padded.simps by (rule lexord_sufI) simp
  next
    case False
    then have eq: "n div 10 = m div 10" using Suc.prems(1) by (metis div_le_mono le_neq_implies_less less_imp_le)
    then have "n mod 10 < m mod 10" using Suc.prems(1) div_mult_mod_eq [of n 10] div_mult_mod_eq [of m 10] by linarith
    then show ?thesis unfolding padded.simps eq by (intro lexord_append_leftI digit_order) simp_all
  qed
qed simp

lemma sum_upto_less:
  "a \<le> b \<Longrightarrow> b < c \<Longrightarrow> sum_list (map f [a..<b]) + f b \<le> sum_list (map f [a..<c])" for f :: "nat \<Rightarrow> nat"
proof -
  assume "a \<le> b" "b < c"
  then have "[a..<c] = [a..<b] @ b # [Suc b..<c]" using upt_add_eq_append [of a b "c - b"] upt_conv_Cons [of b c] by simp
  then show ?thesis by simp
qed

lemma civil_order:
  assumes "civil_day n = (y, m, d)" "civil_day n' = (y', m', d')" "n < n'"
  shows "y < y' \<or> y = y' \<and> (m < m' \<or> m = m' \<and> d < d')"
proof -
  note r = civil_day_result [OF assms(1)] and r' = civil_day_result [OF assms(2)]
  have rest: "sum_list (map (month_days y) [1..<m]) + (d - 1) < year_days y"
    if "1 \<le> m" "m \<le> 12" "1 \<le> d" "d \<le> month_days y m" for y m d
    using sum_upto_less [of 1 m 13 "month_days y"] that months_of_year [of y] by linarith
  have "\<not> y' < y"
  proof
    assume "y' < y"
    from sum_upto_less [OF r'(1) this, of year_days] rest [OF r'(2-5)] r(6) r'(6) assms(3) show False
      by (simp add: day_index_def)
  qed
  moreover have "\<not> m' < m" if "y = y'"
  proof
    assume "m' < m"
    from sum_upto_less [OF r'(2) this, of "month_days y"] r'(4,5) r(6) r'(6) assms(3) that show False
      by (simp add: day_index_def)
  qed
  moreover have "d < d'" if "y = y'" "m = m'" using r(4,6) r'(6) assms(3) that by (simp add: day_index_def)
  ultimately show ?thesis by (metis linorder_neqE_nat)
qed

lemma day_text_order: "n < n' \<Longrightarrow> n' < DAY_LIMIT \<Longrightarrow> text_less (day_text n) (day_text n')"
proof -
  assume n: "n < n'" "n' < DAY_LIMIT"
  obtain y m d where c: "civil_day n = (y, m, d)" by (cases "civil_day n") auto
  obtain y' m' d' where c': "civil_day n' = (y', m', d')" by (cases "civil_day n'") auto
  note r' = civil_day_result [OF c'] and y' = year_bound [OF c' n(2)]
  have "month_days y' m' \<le> 31" by (simp add: month_days_def)
  then have few: "y' < 10 ^ 4" "m' < 10 ^ 2" "d' < 10 ^ 2" using y' r' by simp_all
  from civil_order [OF c c' n(1)] consider "y < y'" | "y = y'" "m < m'" | "y = y'" "m = m'" "d < d'" by blast
  then show ?thesis
  proof cases
    case 1
    then show ?thesis unfolding day_text_def c c' prod.case by (intro lexord_sufI padded_order few) simp_all
  next
    case 2
    have "text_less (padded 2 m @ ''-'' @ padded 2 d) (padded 2 m' @ ''-'' @ padded 2 d')"
      using 2 by (intro lexord_sufI padded_order few) simp_all
    then show ?thesis unfolding day_text_def c c' prod.case unfolding 2(1) by (intro lexord_append_leftI)
  next
    case 3
    then show ?thesis unfolding day_text_def c c' prod.case 3(1,2) by (intro lexord_append_leftI padded_order few)
  qed
qed

end
