(* ===== verification/IndexerFiles.thy ===== *)
theory IndexerFiles
  imports IndexerStore IndexerDates
begin

text \<open>
  The store of \<open>IndexerStore\<close> as the text of its files, which is what \<open>store.py\<close> writes and reads: one line of JSON
  for a row, and a head marker. A float in a line stays its text. \<open>None\<close> is a raised exception: text that is no
  JSON, a missing key, or a value that a row's field cannot hold. The order of the items of a row's \<open>args\<close>, which a
  map does not have, is the parameter \<open>items\<close>.
\<close>

section \<open>Fields\<close>

definition field :: "string \<Rightarrow> 'f json \<Rightarrow> 'f json option" where
  "field k j = (case j of JObject kvs \<Rightarrow> map_of kvs k | _ \<Rightarrow> None)"

definition as_int :: "'f json \<Rightarrow> int option" where
  "as_int j = (case j of JInt i \<Rightarrow> Some i | _ \<Rightarrow> None)"

definition as_nat :: "'f json \<Rightarrow> nat option" where
  "as_nat j = (case j of JInt i \<Rightarrow> if 0 \<le> i then Some (nat i) else None | _ \<Rightarrow> None)"

definition as_text :: "'f json \<Rightarrow> string option" where
  "as_text j = (case j of JText s \<Rightarrow> Some s | _ \<Rightarrow> None)"

definition as_list :: "'f json \<Rightarrow> 'f json list option" where
  "as_list j = (case j of JList xs \<Rightarrow> Some xs | _ \<Rightarrow> None)"

definition as_object :: "'f json \<Rightarrow> (string \<times> 'f json) list option" where
  "as_object j = (case j of JObject kvs \<Rightarrow> Some kvs | _ \<Rightarrow> None)"

definition nat_field :: "string \<Rightarrow> 'f json \<Rightarrow> nat option" where
  "nat_field k j = Option.bind (field k j) as_nat"

definition text_field :: "string \<Rightarrow> 'f json \<Rightarrow> string option" where
  "text_field k j = Option.bind (field k j) as_text"

lemma field_object [simp]: "field k (JObject kvs) = map_of kvs k"
  by (simp add: field_def)

lemma as_simps [simp]: "as_int (JInt i) = Some i" "as_nat (JInt (int n)) = Some n" "as_text (JText s) = Some s"
  "as_list (JList xs) = Some xs" "as_object (JObject kvs) = Some kvs"
  by (simp_all add: as_int_def as_nat_def as_text_def as_list_def as_object_def)

section \<open>A row and its line\<close>

fun arg_to_json :: "arg \<Rightarrow> 'f json" where
  "arg_to_json (ArgInt i) = JInt i"
| "arg_to_json (ArgText s) = JText s"

fun arg_from_json :: "'f json \<Rightarrow> arg option" where
  "arg_from_json (JInt i) = Some (ArgInt i)"
| "arg_from_json (JText s) = Some (ArgText s)"
| "arg_from_json _ = None"

definition row_to_json :: "((string \<rightharpoonup> arg) \<Rightarrow> (string \<times> arg) list) \<Rightarrow> event_row \<Rightarrow> 'f json" where
  "row_to_json items r =
     JObject
       [(''deployment_id'', JList [JInt (fst (row_deployment r)), JText (snd (row_deployment r))]),
        (''block_number'', JInt (int (row_block r))),
        (''block_ts'', JText (isoformat (row_ts r))),
        (''tx_hash'', JText (row_tx r)),
        (''tx_index'', JInt (int (row_tx_index r))),
        (''log_index'', JInt (int (row_log_index r))),
        (''emitter'', JText (row_emitter r)),
        (''event_name'', JText (row_event r)),
        (''args'', JObject (map (\<lambda>(k, v). (k, arg_to_json v)) (items (row_args r))))]"

definition args_from_json :: "'f json \<Rightarrow> (string \<rightharpoonup> arg) option" where
  "args_from_json j =
     do {
       kvs \<leftarrow> as_object j;
       vs \<leftarrow> those (map (\<lambda>(k, v). map_option (Pair k) (arg_from_json v)) kvs);
       Some (map_of vs)
     }"

definition pair_from_json :: "'f json \<Rightarrow> deployment_id option" where
  "pair_from_json j =
     (case as_list j of
        Some [c, a] \<Rightarrow> do { chain_id \<leftarrow> as_int c; registry \<leftarrow> as_text a; Some (chain_id, registry) }
      | _ \<Rightarrow> None)"

definition row_from_json :: "'f json \<Rightarrow> event_row option" where
  "row_from_json obj =
     do {
       dep \<leftarrow> Option.bind (field ''deployment_id'' obj) pair_from_json;
       block \<leftarrow> nat_field ''block_number'' obj;
       ts \<leftarrow> Option.bind (text_field ''block_ts'' obj) fromisoformat;
       tx \<leftarrow> text_field ''tx_hash'' obj;
       tx_index \<leftarrow> nat_field ''tx_index'' obj;
       log_index \<leftarrow> nat_field ''log_index'' obj;
       emitter \<leftarrow> text_field ''emitter'' obj;
       event \<leftarrow> text_field ''event_name'' obj;
       args \<leftarrow> Option.bind (field ''args'' obj) args_from_json;
       Some \<lparr>row_deployment = dep, row_block = block, row_ts = ts, row_tx = tx, row_tx_index = tx_index,
             row_log_index = log_index, row_emitter = emitter, row_event = event, row_args = args\<rparr>
     }"

text \<open>\<open>json.dumps(...) + "\n"\<close>.\<close>

definition json_line :: "string json \<Rightarrow> string" where
  "json_line j = dumps (\<lambda>t. t) None 0 j @ [CHR 0x0A]"

definition row_line :: "((string \<rightharpoonup> arg) \<Rightarrow> (string \<times> arg) list) \<Rightarrow> event_row \<Rightarrow> string" where
  "row_line items r = json_line (row_to_json items r)"

section \<open>Lines of a file\<close>

text \<open>Reading in text mode turns \<open>\r\n\<close> and \<open>\r\<close> into \<open>\n\<close>.\<close>

fun universal :: "string \<Rightarrow> string" where
  "universal [] = []"
| "universal (c # cs) =
     (if c = CHR 0x0D then
        (case cs of
           [] \<Rightarrow> [CHR 0x0A]
         | d # ds \<Rightarrow> CHR 0x0A # (if d = CHR 0x0A then universal ds else universal cs))
      else c # universal cs)"

fun split_lines :: "string \<Rightarrow> string list" where
  "split_lines [] = [[]]"
| "split_lines (c # cs) =
     (if c = CHR 0x0A then [] # split_lines cs
      else (case split_lines cs of [] \<Rightarrow> [[c]] | l # ls \<Rightarrow> (c # l) # ls))"

definition is_blank :: "char \<Rightarrow> bool" where
  "is_blank c \<longleftrightarrow> c \<in> set [CHR 0x09, CHR 0x0A, CHR 0x0B, CHR 0x0C, CHR 0x0D, CHR 0x1C, CHR 0x1D, CHR 0x1E, CHR 0x1F,
     CHR 0x20, CHR 0x85, CHR 0xA0]"

definition strip :: "string \<Rightarrow> string" where
  "strip s = rev (dropWhile is_blank (rev (dropWhile is_blank s)))"

definition rows_of_text :: "string \<Rightarrow> event_row list option" where
  "rows_of_text s =
     those (map (\<lambda>l. Option.bind (loads (\<lambda>t. t) l) row_from_json)
       (filter (\<lambda>l. l \<noteq> []) (map strip (split_lines (universal s)))))"

section \<open>The directory\<close>

record text_dir =
  td_files :: "(string \<times> string) list"
  td_head :: "string option"

fun append_file :: "string \<Rightarrow> 'a list \<Rightarrow> (string \<times> 'a list) list \<Rightarrow> (string \<times> 'a list) list" where
  "append_file n t [] = [(n, t)]"
| "append_file n t ((k, s) # rest) = (if k = n then (k, s @ t) # rest else (k, s) # append_file n t rest)"

definition append_text ::
  "((string \<rightharpoonup> arg) \<Rightarrow> (string \<times> arg) list) \<Rightarrow> event_row list \<Rightarrow> text_dir \<Rightarrow> text_dir" where
  "append_text items rows d =
     d\<lparr>td_files := foldl (\<lambda>f (n, rs). append_file n (concat (map (row_line items) rs)) f) (td_files d) (buckets rows)\<rparr>"

definition load_text :: "text_dir \<Rightarrow> event_log option" where
  "load_text d =
     map_option (\<lambda>rss. from_rows (keep_first {} (concat rss))) (those (map (\<lambda>(n, s). rows_of_text s) (td_files d)))"

definition head_text :: "int \<Rightarrow> string" where
  "head_text b = json_line (JObject [(''finalized_block'', JInt b)])"

definition save_head_text :: "int \<Rightarrow> text_dir \<Rightarrow> text_dir" where
  "save_head_text b d = d\<lparr>td_head := Some (head_text b)\<rparr>"

text \<open>No file is \<open>Some None\<close>.\<close>

definition load_head_text :: "text_dir \<Rightarrow> int option option" where
  "load_head_text d =
     (case td_head d of
        None \<Rightarrow> Some None
      | Some s \<Rightarrow>
          do { j \<leftarrow> loads (\<lambda>t. t) s; v \<leftarrow> field ''finalized_block'' j; b \<leftarrow> as_int v; Some (Some b) })"

text \<open>
  The sync of \<open>_sync_and_project\<close> on the files. The outer \<open>None\<close> is a range that never ends; the inner one is a sync that
  raised while it read the store, before it wrote.
\<close>

definition sync_chunk_text ::
  "((string \<rightharpoonup> arg) \<Rightarrow> (string \<times> arg) list) \<Rightarrow> (int \<Rightarrow> int \<Rightarrow> event_row list) \<Rightarrow> text_dir \<Rightarrow> int \<times> int \<Rightarrow> text_dir" where
  "sync_chunk_text items fetch d = (\<lambda>(a, e). save_head_text e (append_text items (fetch a e) d))"

definition sync_text ::
  "((string \<rightharpoonup> arg) \<Rightarrow> (string \<times> arg) list) \<Rightarrow> (int \<Rightarrow> int \<Rightarrow> event_row list) \<Rightarrow> int \<Rightarrow> int \<Rightarrow> int \<Rightarrow> text_dir \<Rightarrow>
     (event_log option \<times> text_dir) option" where
  "sync_text items fetch chunk genesis head_block d =
     (case load_text d of
        None \<Rightarrow> Some (None, d)
      | Some prior \<Rightarrow>
     (case load_head_text d of
        None \<Rightarrow> Some (None, d)
      | Some head \<Rightarrow>
     (case log_chunks chunk (case head of None \<Rightarrow> genesis | Some h \<Rightarrow> h + 1) head_block of
        None \<Rightarrow> None
      | Some cs \<Rightarrow>
          Some (Some (from_rows (log_merged prior @ concat (map (\<lambda>(a, e). fetch a e) cs))),
            foldl (sync_chunk_text items fetch) d cs))))"

text \<open>Syncs one after the other, to higher and higher heads.\<close>

fun syncs_text ::
  "((string \<rightharpoonup> arg) \<Rightarrow> (string \<times> arg) list) \<Rightarrow> (int \<Rightarrow> int \<Rightarrow> event_row list) \<Rightarrow> int \<Rightarrow> int \<Rightarrow> int list \<Rightarrow> text_dir \<Rightarrow>
     (event_log option list \<times> text_dir) option" where
  "syncs_text items fetch chunk genesis [] d = Some ([], d)"
| "syncs_text items fetch chunk genesis (b # bs) d =
     (case sync_text items fetch chunk genesis b d of
        None \<Rightarrow> None
      | Some (l, d') \<Rightarrow> map_option (\<lambda>(ls, e). (l # ls, e)) (syncs_text items fetch chunk genesis bs d'))"

text \<open>The text of a directory of rows.\<close>

definition text_of :: "((string \<rightharpoonup> arg) \<Rightarrow> (string \<times> arg) list) \<Rightarrow> dep_dir \<Rightarrow> text_dir" where
  "text_of items d =
     \<lparr>td_files = map (\<lambda>(n, rs). (n, concat (map (row_line items) rs))) (dir_files d),
      td_head = map_option head_text (dir_head d)\<rparr>"

section \<open>A row comes back\<close>

text \<open>The items of a row's arguments, and a time with a year of four digits.\<close>

definition storable :: "((string \<rightharpoonup> arg) \<Rightarrow> (string \<times> arg) list) \<Rightarrow> event_row \<Rightarrow> bool" where
  "storable items r \<longleftrightarrow>
     map_of (items (row_args r)) = row_args r \<and> distinct (map fst (items (row_args r))) \<and> row_ts r < TIME_LIMIT"

lemma arg_round [simp]: "arg_from_json (arg_to_json v) = Some v"
  by (cases v) simp_all

lemma those_Some: "those (map Some xs) = Some xs"
  by (induction xs) simp_all

lemma those_args: "those (map ((\<lambda>(k, v). map_option (Pair k) (arg_from_json v)) \<circ> (\<lambda>(k, v). (k, arg_to_json v))) kvs) = Some kvs"
  by (induction kvs) auto

lemma args_round: "args_from_json (JObject (map (\<lambda>(k, v). (k, arg_to_json v)) kvs)) = Some (map_of kvs)"
  by (simp add: args_from_json_def those_args)

lemma row_round:
  assumes "storable items r"
  shows "row_from_json (row_to_json items r) = Some r"
proof -
  have "fromisoformat (isoformat (row_ts r)) = Some (row_ts r)"
    using assms by (intro fromisoformat_text) (simp add: storable_def)
  moreover have "map_of (items (row_args r)) = row_args r" using assms by (simp add: storable_def)
  ultimately show ?thesis
    by (simp add: row_from_json_def row_to_json_def nat_field_def text_field_def pair_from_json_def args_round)
qed

lemma row_writable: "storable items r \<Longrightarrow> writable fread fshow (row_to_json items r)"
proof -
  assume "storable items r"
  moreover have "writable fread fshow (arg_to_json v)" for v by (cases v) simp_all
  ultimately show ?thesis by (auto simp: row_to_json_def storable_def comp_def case_prod_beta list_all_iff)
qed

section \<open>A file comes back\<close>

text \<open>The text of a line: no line end in it, and nothing to strip at its ends.\<close>

definition one_line :: "string \<Rightarrow> bool" where
  "one_line s \<longleftrightarrow> list_all (\<lambda>c. c \<noteq> CHR 0x0A \<and> c \<noteq> CHR 0x0D) s"

lemma one_line_simps [simp]:
  "one_line []" "one_line (c # s) \<longleftrightarrow> c \<noteq> CHR 0x0A \<and> c \<noteq> CHR 0x0D \<and> one_line s"
  "one_line (s @ t) \<longleftrightarrow> one_line s \<and> one_line t"
  by (simp_all add: one_line_def)

lemma one_line_digits: "list_all is_digit_char s \<Longrightarrow> one_line s"
  by (induction s) (auto simp: is_digit_char_def)

lemma one_line_hex: "one_line (hex_digits k n)"
proof (induction k arbitrary: n)
  case (Suc k)
  have "n mod 16 \<in> {0..<16}" by simp
  moreover have "\<forall>m \<in> {0..<16}. hex_digit m \<noteq> CHR 0x0A \<and> hex_digit m \<noteq> CHR 0x0D" by code_simp
  ultimately show ?case using Suc.IH by simp
qed simp

lemma one_line_escape: "one_line (escape_char c)"
  by (simp add: escape_char_def one_line_hex)

lemma one_line_join: "one_line sep \<Longrightarrow> list_all one_line xs \<Longrightarrow> one_line (join_with sep xs)"
  by (induction sep xs rule: join_with.induct) simp_all

lemma one_line_concat: "list_all one_line xs \<Longrightarrow> one_line (concat xs)"
  by (induction xs) simp_all

lemma one_line_quoted: "one_line (quoted s)"
proof -
  have "list_all one_line (map escape_char s)" by (induction s) (simp_all add: one_line_escape)
  then show ?thesis by (simp add: quoted_def one_line_concat)
qed

lemma one_line_int: "one_line (int_text i)"
  using decimal_digits one_line_digits by (simp add: int_text_def)

lemma one_line_dumps: "(\<And>x. x \<in> set_json j \<Longrightarrow> one_line (fshow x)) \<Longrightarrow> one_line (dumps fshow None level j)"
proof (induction j arbitrary: level)
  case (JList xs)
  have "one_line (dumps fshow None (level + 1) x)" if "x \<in> set xs" for x
    by (rule JList.IH [OF that]) (use JList.prems that in auto)
  then have "list_all one_line (map (dumps fshow None (level + 1)) xs)" by (simp add: list_all_iff)
  then show ?case by (simp add: line_break_def item_separator_def one_line_join)
next
  case (JObject kvs)
  have "one_line (dumps fshow None (level + 1) v)" if "(k, v) \<in> set kvs" for k v
  proof (rule JObject.IH [OF that])
    fix x assume "x \<in> set_json v"
    then have "\<exists>kv \<in> set kvs. \<exists>w \<in> Basic_BNFs.snds kv. x \<in> set_json w"
      by (intro bexI [OF _ that]) (simp add: prod_set_simps)
    then show "one_line (fshow x)" by (intro JObject.prems) simp
  qed (simp add: prod_set_simps)
  then have "list_all one_line (map (\<lambda>(k, v). quoted k @ [CHR 0x3A, CHR 0x20] @ dumps fshow None (level + 1) v) kvs)"
    by (auto simp: list_all_iff one_line_quoted)
  then show ?case by (simp add: line_break_def item_separator_def one_line_join)
qed (simp_all add: one_line_int one_line_quoted)

lemma one_line_row: "one_line (dumps (\<lambda>t. t) None 0 (row_to_json items r))"
proof (rule one_line_dumps)
  have "set_json (arg_to_json v :: string json) = {}" for v by (cases v) simp_all
  then have "set_json (row_to_json items r :: string json) = {}" by (auto simp: row_to_json_def)
  then show "one_line x" if "x \<in> set_json (row_to_json items r)" for x using that by simp
qed

lemma universal_one_line: "one_line s \<Longrightarrow> universal (s @ CHR 0x0A # t) = s @ CHR 0x0A # universal t"
  "one_line s \<Longrightarrow> universal s = s"
  by (induction s) simp_all

lemma split_one_line: "one_line s \<Longrightarrow> split_lines (s @ CHR 0x0A # t) = s # split_lines t"
  "one_line s \<Longrightarrow> split_lines s = [s]"
  by (induction s) (simp_all split: list.splits)

text \<open>Lines that end, and what follows them.\<close>

lemma lines_of_text:
  assumes "list_all one_line ls" "one_line t"
  shows "split_lines (universal (concat (map (\<lambda>l. l @ [CHR 0x0A]) ls) @ t)) = ls @ [t]"
  using assms(1)
proof (induction ls)
  case Nil
  then show ?case using assms(2) by (simp add: universal_one_line split_one_line)
next
  case (Cons l ls)
  then show ?case by (simp add: universal_one_line split_one_line)
qed

lemma strip_object:
  assumes "s = CHR 0x7B # t @ [CHR 0x7D]"
  shows "strip s = s"
  by (simp add: assms strip_def is_blank_def)

lemma object_text: "\<exists>t. dumps fshow None level (JObject kvs) = CHR 0x7B # t @ [CHR 0x7D]"
  by (cases "kvs = []") (simp_all add: line_break_def)

lemma strip_row: "strip (dumps fshow None level (row_to_json items r)) = dumps fshow None level (row_to_json items r)"
  "dumps fshow None level (row_to_json items r) \<noteq> []"
  using object_text [of fshow level] strip_object unfolding row_to_json_def by (metis list.distinct(1))+

lemma rows_of_lines:
  assumes "list_all (storable items) rows" "one_line t"
  shows "rows_of_text (concat (map (row_line items) rows) @ t) =
    (if strip t = [] then Some rows
     else map_option (\<lambda>r. rows @ [r]) (Option.bind (loads (\<lambda>t. t) (strip t)) row_from_json))"
proof -
  let ?d = "\<lambda>r. dumps (\<lambda>t. t) None 0 (row_to_json items r)"
  have whole: "concat (map (row_line items) rows) = concat (map (\<lambda>l. l @ [CHR 0x0A]) (map ?d rows))"
    by (simp add: row_line_def [abs_def] json_line_def comp_def)
  have "split_lines (universal (concat (map (row_line items) rows) @ t)) = map ?d rows @ [t]"
    unfolding whole by (rule lines_of_text [OF _ assms(2)]) (simp add: list_all_iff one_line_row)
  moreover have "filter (\<lambda>l. l \<noteq> []) (map strip (map ?d rows)) = map ?d rows"
    by (induction rows) (simp_all add: strip_row)
  moreover have "map (\<lambda>l. Option.bind (loads (\<lambda>t. t) l) row_from_json) (map ?d rows) = map Some rows"
  proof -
    have "loads (\<lambda>t. t) (?d r) = Some (row_to_json items r)" if "r \<in> set rows" for r
      using loads_dumps [OF row_writable [of items r], of "[]" "\<lambda>t. t" "\<lambda>t. t"] assms(1) that by (simp add: list_all_iff)
    then show ?thesis using assms(1) by (simp add: list_all_iff row_round)
  qed
  ultimately have "rows_of_text (concat (map (row_line items) rows) @ t) = those (map Some rows @
      (if strip t = [] then [] else [Option.bind (loads (\<lambda>t. t) (strip t)) row_from_json]))"
    by (simp add: rows_of_text_def del: map_map)
  moreover have "those (map Some xs @ [y]) = map_option (\<lambda>r. xs @ [r]) y" for xs and y :: "event_row option"
    by (induction xs) (cases y; simp add: option.map_comp comp_def)+
  ultimately show ?thesis by (simp add: those_Some)
qed

section \<open>The text of the store is the store\<close>

definition all_storable :: "((string \<rightharpoonup> arg) \<Rightarrow> (string \<times> arg) list) \<Rightarrow> dep_dir \<Rightarrow> bool" where
  "all_storable items d \<longleftrightarrow> list_all (storable items) (file_rows d)"

lemma rows_of_file: "list_all (storable items) rows \<Longrightarrow> rows_of_text (concat (map (row_line items) rows)) = Some rows"
  using rows_of_lines [of items rows "[]"] by (simp add: strip_def)

lemma load_text_of: "all_storable items d \<Longrightarrow> load_text (text_of items d) = Some (load_event_log d)"
proof -
  assume "all_storable items d"
  then have "those (map ((\<lambda>(n, s). rows_of_text s) \<circ> (\<lambda>(n, rs). (n, concat (map (row_line items) rs)))) (dir_files d)) =
      Some (map snd (dir_files d))"
    unfolding all_storable_def file_rows_def
  proof (induction "dir_files d" arbitrary: d)
    case Nil
    then show ?case by simp
  next
    case (Cons f fs)
    have "list_all (storable items) (snd f)" "list_all (storable items) (concat (map snd fs))"
      using Cons.prems Cons.hyps(2) [symmetric] by simp_all
    moreover have "those (map ((\<lambda>(n, s). rows_of_text s) \<circ> (\<lambda>(n, rs). (n, concat (map (row_line items) rs)))) fs) =
        Some (map snd fs)"
      using Cons.hyps(1) [of "\<lparr>dir_files = fs, dir_head = None\<rparr>"] calculation(2) by simp
    ultimately show ?case unfolding Cons.hyps(2) [symmetric] by (cases f) (simp add: rows_of_file)
  qed
  then show ?thesis by (simp add: load_text_def text_of_def load_event_log_def file_rows_def)
qed

lemma load_head_text_of: "load_head_text (text_of items d) = Some (dir_head d)"
proof -
  have "loads (\<lambda>t. t) (head_text b) = Some (JObject [(''finalized_block'', JInt b)])" for b
    unfolding head_text_def json_line_def by (rule loads_dumps) (simp_all add: is_json_space_def)
  then show ?thesis by (cases "dir_head d") (simp_all add: load_head_text_def text_of_def)
qed

text \<open>One row at a time, or a file's rows at once.\<close>

abbreviation append_files :: "(string \<times> 'a list) list \<Rightarrow> (string \<times> 'a list) list \<Rightarrow> (string \<times> 'a list) list" where
  "append_files \<equiv> foldl (\<lambda>f (n, rs). append_file n rs f)"

lemma bucket_append_file: "bucket_append n r b = append_file n [r] b"
  by (induction n r b rule: bucket_append.induct) simp_all

lemma append_file_keys: "fst ` set (append_file n xs b) = insert n (fst ` set b)"
  by (induction n xs b rule: append_file.induct) auto

lemma append_file_twice: "append_file n ys (append_file n xs b) = append_file n (xs @ ys) b"
  by (induction n xs b rule: append_file.induct) simp_all

lemma append_file_commute:
  "n \<noteq> k \<Longrightarrow> k \<in> fst ` set b \<Longrightarrow> append_file n xs (append_file k ys b) = append_file k ys (append_file n xs b)"
  by (induction b) (auto simp: rev_image_eqI)

lemma append_files_commute:
  "k \<notin> fst ` set new \<Longrightarrow> k \<in> fst ` set b \<Longrightarrow> append_files (append_file k ys b) new = append_file k ys (append_files b new)"
proof (induction new arbitrary: b)
  case (Cons f new)
  obtain n xs where f: "f = (n, xs)" by (cases f)
  have "append_files (append_file n xs (append_file k ys b)) new = append_files (append_file k ys (append_file n xs b)) new"
    using append_file_commute [of n k b xs ys] Cons.prems f by auto
  also have "\<dots> = append_file k ys (append_files (append_file n xs b) new)"
    using Cons.prems by (intro Cons.IH) (simp_all add: append_file_keys)
  finally show ?case by (simp add: f)
qed simp

lemma append_files_bucket:
  "distinct (map fst new) \<Longrightarrow> append_files b (bucket_append k r new) = append_file k [r] (append_files b new)"
proof (induction new arbitrary: b)
  case (Cons f new)
  obtain n xs where f: "f = (n, xs)" by (cases f)
  show ?case
  proof (cases "n = k")
    case True
    have "append_files (append_file k (xs @ [r]) b) new = append_files (append_file k [r] (append_file k xs b)) new"
      by (simp add: append_file_twice)
    also have "\<dots> = append_file k [r] (append_files (append_file k xs b) new)"
      using Cons.prems f True by (intro append_files_commute) (auto simp: append_file_keys)
    finally show ?thesis using f True by simp
  next
    case False
    then show ?thesis using Cons f by simp
  qed
qed simp

lemma append_rows_files:
  "foldl (\<lambda>f r. bucket_append (row_event r) r f) b rows = append_files b (buckets rows)"
proof (induction rows rule: rev_induct)
  case Nil
  then show ?case by (simp add: buckets_def)
next
  case (snoc r rows)
  have "append_files b (buckets (rows @ [r])) = append_file (row_event r) [r] (append_files b (buckets rows))"
    unfolding buckets_snoc using buckets_keys [of rows] by (intro append_files_bucket) simp
  then show ?case using snoc by (simp add: bucket_append_file)
qed

lemma render_files:
  "map (\<lambda>(n, rs). (n, concat (map g rs))) (append_files b new) =
   append_files (map (\<lambda>(n, rs). (n, concat (map g rs))) b) (map (\<lambda>(n, rs). (n, concat (map g rs))) new)"
proof -
  have one: "map (\<lambda>(n, rs). (n, concat (map g rs))) (append_file n rs b) =
      append_file n (concat (map g rs)) (map (\<lambda>(n, rs). (n, concat (map g rs))) b)" for n rs b
    by (induction n rs b rule: append_file.induct) simp_all
  show ?thesis by (induction new arbitrary: b) (auto simp: one)
qed

lemma append_text_of: "append_text items rows (text_of items d) = text_of items (append_rows rows d)"
proof -
  have "foldl (\<lambda>f (n, rs). append_file n (concat (map (row_line items) rs)) f) b new =
      append_files b (map (\<lambda>(n, rs). (n, concat (map (row_line items) rs))) new)" for b new
    by (induction new arbitrary: b) auto
  then show ?thesis by (simp add: append_text_def text_of_def append_rows_def append_rows_files render_files)
qed

lemma save_head_text_of: "save_head_text b (text_of items d) = text_of items (save_head b d)"
  by (simp add: save_head_text_def text_of_def save_head_def)

lemma chunks_text_of:
  "foldl (sync_chunk_text items fetch) (text_of items d) cs = text_of items (foldl (sync_chunk fetch) d cs)"
  by (induction cs arbitrary: d) (auto simp: sync_chunk_text_def sync_chunk_def append_text_of save_head_text_of)

section \<open>Text that was cut off\<close>

lemma cut_line:
  assumes "writable (\<lambda>t. t) (\<lambda>t. t) j" "closed j" "json_line j = p @ q" "2 \<le> length q"
  shows "loads (\<lambda>t. t) p = None"
proof (rule loads_cut [OF assms(1,2)])
  have "dumps (\<lambda>t. t) None 0 j = butlast (p @ q)" using assms(3) by (metis json_line_def butlast_snoc)
  then show "dumps (\<lambda>t. t) None 0 j = p @ butlast q" using assms(4) by (auto simp: butlast_append)
  show "butlast q \<noteq> []" using assms(4) by (cases q rule: rev_cases) auto
qed

lemma strip_rest:
  assumes "p = c # cs" "\<not> is_blank c"
  obtains w where "p = strip p @ w" "strip p \<noteq> []"
proof -
  have "rev p = takeWhile is_blank (rev p) @ dropWhile is_blank (rev p)" by simp
  then have "p = rev (dropWhile is_blank (rev p)) @ rev (takeWhile is_blank (rev p))" by (metis rev_append rev_rev_ident)
  moreover have "strip p = rev (dropWhile is_blank (rev p))" using assms by (simp add: strip_def)
  moreover have "dropWhile is_blank (rev p) \<noteq> []" using assms by (auto simp: dropWhile_eq_Nil_conv)
  ultimately show ?thesis using that by simp
qed

lemma cut_row:
  assumes "list_all (storable items) rows" "storable items r" "row_line items r = p @ q" "p \<noteq> []" "2 \<le> length q"
  shows "rows_of_text (concat (map (row_line items) rows) @ p) = None"
proof -
  obtain t where t: "row_line items r = CHR 0x7B # t"
    using object_text [of "\<lambda>t. t" 0] unfolding row_line_def json_line_def row_to_json_def by (metis append_Cons)
  then obtain cs where "p = CHR 0x7B # cs" using assms(3,4) by (cases p) auto
  then obtain w where w: "p = strip p @ w" "strip p \<noteq> []" by (rule strip_rest) (simp add: is_blank_def)
  have "row_line items r = (strip p @ w) @ q" using assms(3) w(1) by simp
  then have json: "json_line (row_to_json items r) = strip p @ (w @ q)" by (simp add: row_line_def)
  have closed: "closed (row_to_json items r :: string json)" by (simp add: row_to_json_def)
  have "loads (\<lambda>t. t) (strip p) = None"
    using assms(5) by (intro cut_line [OF row_writable [OF assms(2)] closed json]) simp
  moreover have "one_line p"
  proof -
    have "butlast (row_line items r) = p @ butlast q" using assms(3,5) by (auto simp: butlast_append)
    then show ?thesis using one_line_row [of items r] by (simp add: row_line_def json_line_def)
  qed
  ultimately show ?thesis using rows_of_lines [OF assms(1), of p] w(2) by simp
qed

lemma those_raised: "None \<in> set xs \<Longrightarrow> those xs = None"
  by (induction xs) (auto split: option.splits)

lemma stuck_syncs:
  assumes "load_text d = None \<or> load_head_text d = None"
  shows "syncs_text items fetch chunk genesis heads d = Some (replicate (length heads) None, d)"
proof -
  have "sync_text items fetch chunk genesis b d = Some (None, d)" for b
    using assms by (auto simp: sync_text_def split: option.splits)
  then show ?thesis by (induction heads) simp_all
qed

section \<open>Properties\<close>

text \<open>The files are the store. From the text of a directory of rows, \<open>store.py\<close>'s reads and writes of JSON lines do what the
  sync over rows does: the sync loads every row back, resumes at the same block, hands the projector the same
  log, and leaves the text of the directory the rows' sync leaves.\<close>

lemma text_store_refines_rows:
  assumes "all_storable items d"
  shows "sync_text items fetch chunk genesis head_block (text_of items d) =
    map_option (\<lambda>(l, d'). (Some l, text_of items d')) (sync_events fetch chunk genesis head_block d)"
proof -
  have "(case dir_head d of None \<Rightarrow> genesis | Some h \<Rightarrow> h + 1) = sync_from genesis d" by (simp add: sync_from_def)
  then show ?thesis
    by (simp add: sync_text_def sync_events_def load_text_of [OF assms] load_head_text_of chunks_text_of Let_def
        split: option.splits)
qed

definition known_items :: "(string \<rightharpoonup> arg) \<Rightarrow> (string \<times> arg) list" where
  "known_items m = List.map_filter (\<lambda>k. map_option (Pair k) (m k)) [''owner'', ''payer'']"

definition stored_row :: event_row where
  "stored_row = \<lparr>row_deployment = (100, ''0xA''), row_block = 3, row_ts = 1700000000, row_tx = ''0xt'', row_tx_index = 0,
     row_log_index = 1, row_emitter = ''0xA'', row_event = ''AccountActivated'',
     row_args = [''owner'' \<mapsto> ArgText ''0xa'', ''payer'' \<mapsto> ArgText ''0xb'']\<rparr>"

lemma stored_row_ok: "storable known_items stored_row"
proof -
  have "known_items (row_args stored_row) = [(''owner'', ArgText ''0xa''), (''payer'', ArgText ''0xb'')]"
    by (simp add: known_items_def stored_row_def List.map_filter_def)
  then show ?thesis by (auto simp: storable_def stored_row_def)
qed

lemma text_store_refines_rows_witness:
  "\<exists>l d. sync_text known_items (\<lambda>a e. []) 10 1 5
      (text_of known_items \<lparr>dir_files = [(''AccountActivated'', [stored_row])], dir_head = Some 5\<rparr>) = Some (Some l, d) \<and>
    log_merged l = [stored_row]"
proof -
  let ?d = "\<lparr>dir_files = [(''AccountActivated'', [stored_row])], dir_head = Some 5\<rparr>"
  have "all_storable known_items ?d" using stored_row_ok by (simp add: all_storable_def file_rows_def)
  from text_store_refines_rows [OF this, of "\<lambda>a e. []" 10 1 5]
  have "sync_text known_items (\<lambda>a e. []) 10 1 5 (text_of known_items ?d) =
      map_option (\<lambda>(l, d'). (Some l, text_of known_items d')) (sync_events (\<lambda>a e. []) 10 1 5 ?d)" .
  moreover have merged: "log_merged (from_rows [stored_row]) = [stored_row]"
    by (subst log_merged_from_rows) (simp_all add: inj_on_def)
  moreover have "load_event_log ?d = from_rows [stored_row]" by (simp add: load_event_log_def file_rows_def)
  moreover have "sync_events (\<lambda>a e. []) 10 1 5 ?d = Some (from_rows [stored_row], ?d)"
    using merged calculation(3) by (simp add: sync_events_def sync_from_def log_chunks_simps Let_def)
  ultimately show ?thesis by simp
qed

text \<open>C29: A sync that is killed while it writes stops every later one. When the last line of a file is cut anywhere inside
  its JSON text, or the head marker is empty or cut, reading the store raises; and as a sync reads the store
  before it fetches, no later sync gets past that point or changes the directory. The text stays until
  someone removes it.\<close>

theorem cut_text_stops_syncs:
  assumes "list_all (storable items) (r # rows)" "row_line items r = p @ q" "p \<noteq> []" "2 \<le> length q"
    "head_text b = hp @ hq" "2 \<le> length hq"
  shows "(let d = \<lparr>td_files = before @ (n, concat (map (row_line items) rows) @ p) # after, td_head = h\<rparr> in
      syncs_text items fetch chunk genesis heads d = Some (replicate (length heads) None, d)) \<and>
    (let d = \<lparr>td_files = files, td_head = Some hp\<rparr> in
      syncs_text items fetch chunk genesis heads d = Some (replicate (length heads) None, d))"
proof -
  have cut: "rows_of_text (concat (map (row_line items) rows) @ p) = None"
    using assms(1-4) by (intro cut_row) simp_all
  have "those (map (\<lambda>(n, s). rows_of_text s) (before @ (n, concat (map (row_line items) rows) @ p) # after)) = None"
    by (rule those_raised) (simp add: cut)
  then have files: "load_text \<lparr>td_files = before @ (n, concat (map (row_line items) rows) @ p) # after, td_head = h\<rparr> = None"
    by (simp add: load_text_def)
  have "loads (\<lambda>t. t) hp = None"
    by (rule cut_line [OF _ _ assms(5) [unfolded head_text_def] assms(6)]) simp_all
  then have head: "load_head_text \<lparr>td_files = files, td_head = Some hp\<rparr> = None"
    by (simp add: load_head_text_def)
  show ?thesis using stuck_syncs files head by (simp add: Let_def)
qed

definition unfinished_line :: string where
  "unfinished_line = butlast (butlast (row_line known_items stored_row))"

lemma cut_text_stops_syncs_witness:
  "syncs_text known_items (\<lambda>a e. [stored_row]) 10 1 [5, 6]
      \<lparr>td_files = [(''AccountActivated'', row_line known_items stored_row @ unfinished_line)], td_head = None\<rparr> =
    Some ([None, None],
      \<lparr>td_files = [(''AccountActivated'', row_line known_items stored_row @ unfinished_line)], td_head = None\<rparr>)"
proof -
  obtain t where t: "row_line known_items stored_row = CHR 0x7B # t @ [CHR 0x7D, CHR 0x0A]"
    using object_text [of "\<lambda>t. t" 0] unfolding row_line_def json_line_def row_to_json_def by fastforce
  then have cut: "row_line known_items stored_row = unfinished_line @ [CHR 0x7D, CHR 0x0A]" "unfinished_line \<noteq> []"
    by (simp_all add: unfinished_line_def butlast_append)
  have rows: "list_all (storable known_items) [stored_row, stored_row]" using stored_row_ok by simp
  have head: "head_text 5 = [] @ head_text 5" "2 \<le> length (head_text 5)"
    by (simp_all add: head_text_def json_line_def)
  from cut_text_stops_syncs [OF rows cut _ head, where fetch = "\<lambda>a e. [stored_row]" and chunk = 10 and genesis = 1 and
      heads = "[5, 6]" and before = "[]" and n = "''AccountActivated''" and after = "[]" and h = None and files = "[]"]
  show ?thesis by (simp add: Let_def del: syncs_text.simps)
qed

end
