(* ===== verification/IndexerView.thy ===== *)
theory IndexerView
  imports IndexerProject
begin

text \<open>
  The client's read path, \<open>services/indexer/src/ethswarm_volumes/view.py\<close> and \<open>fiat.py\<close>: one entry of the published file
  folded into buckets of days. Dates are day indices, which order as their texts do; float operations are
  the parameters \<open>fsum\<close>, \<open>fmul\<close> and \<open>fzero\<close>. The rendering as text is not modelled.
\<close>

section \<open>Windows and buckets\<close>

datatype view_error = ViewValueError | ViewKeyError

definition BUCKET_WIDTHS :: "(string \<times> nat) list" where
  "BUCKET_WIDTHS = [(''1d'', 1), (''7d'', 7), (''30d'', 30)]"

datatype capacity_basis = Nominal | Effective

record view_options =
  vo_bucket_width :: string
  vo_bucket_count :: int
  vo_since :: "nat option"
  vo_basis :: capacity_basis
  vo_fiat :: "string option"

text \<open>\<open>xs[k:]\<close>: a negative index counts from the end, and 0 is the whole list.\<close>

definition slice_from :: "'a list \<Rightarrow> int \<Rightarrow> 'a list" where
  "slice_from xs k = (if k < 0 then drop (nat (int (length xs) + k)) xs else drop (nat k) xs)"

definition window_dates :: "view_options \<Rightarrow> nat \<Rightarrow> nat list \<Rightarrow> nat list" where
  "window_dates opts width dates =
     (case vo_since opts of
        Some since \<Rightarrow> filter (\<lambda>d. since \<le> d) dates
      | None \<Rightarrow> slice_from dates (- (vo_bucket_count opts * int width)))"

text \<open>\<open>range(0, len(window_dates), width)\<close> steps by the width, which is at least one.\<close>

function day_buckets :: "nat \<Rightarrow> 'a list \<Rightarrow> 'a list list" where
  "day_buckets width ds =
     (if ds = [] \<or> width = 0 then [] else take width ds # day_buckets width (drop width ds))"
  by pat_completeness auto
termination by (relation "measure (\<lambda>(width, ds). length ds)") auto

declare day_buckets.simps [simp del]

section \<open>Fiat\<close>

record 'f daily_price =
  price_date :: nat
  price_fiat :: "(string \<times> 'f) list"

text \<open>A \<open>dict\<close> comprehension keeps the last of several items of a date.\<close>

definition by_date :: "('d \<Rightarrow> nat) \<Rightarrow> ('d \<Rightarrow> 'v) \<Rightarrow> 'd list \<Rightarrow> nat \<rightharpoonup> 'v" where
  "by_date date value series = map_of (rev (map (\<lambda>d. (date d, value d)) series))"

fun fee_fiat_daily ::
  "('f \<Rightarrow> 'f \<Rightarrow> 'f) \<Rightarrow> 'f \<Rightarrow> (nat \<rightharpoonup> (string \<times> 'f) list) \<Rightarrow> 'f daily_fee list \<Rightarrow> string \<Rightarrow> view_error + 'f list" where
  "fee_fiat_daily fmul fzero rates [] currency = Inr []"
| "fee_fiat_daily fmul fzero rates (day # days) currency =
     (case (case rates (fee_date day) of
              None \<Rightarrow> Inr fzero
            | Some rs \<Rightarrow>
                (case map_of rs currency of None \<Rightarrow> Inl ViewValueError | Some r \<Rightarrow> Inr (fmul (fee_bzz day) r))) of
        Inl e \<Rightarrow> Inl e
      | Inr x \<Rightarrow>
          (case fee_fiat_daily fmul fzero rates days currency of Inl e \<Rightarrow> Inl e | Inr xs \<Rightarrow> Inr (x # xs)))"

definition fee_fiat_total ::
  "('f list \<Rightarrow> 'f) \<Rightarrow> ('f \<Rightarrow> 'f \<Rightarrow> 'f) \<Rightarrow> 'f \<Rightarrow> 'f daily_fee list \<Rightarrow> 'f daily_price list \<Rightarrow> string \<Rightarrow> view_error + 'f" where
  "fee_fiat_total fsum fmul fzero fee prices currency =
     map_sum id fsum (fee_fiat_daily fmul fzero (by_date price_date price_fiat prices) fee currency)"

section \<open>The view\<close>

record 'f fee_point =
  fp_start :: nat
  fp_bzz :: 'f
  fp_fiat :: "'f option"

record capacity_point =
  cp_start :: nat
  cp_volumes :: nat
  cp_bytes :: int

record account_point =
  ap_start :: nat
  ap_authorized :: nat

record 'f resolved_view =
  rv_unit :: string
  rv_fee_total :: 'f
  rv_fee_window :: 'f
  rv_fee :: "'f fee_point list"
  rv_volumes :: nat
  rv_bytes :: int
  rv_capacity :: "capacity_point list"
  rv_authorized :: nat
  rv_paid :: "(nat \<times> nat) list"
  rv_accounts :: "account_point list"

definition capacity_point_of :: "(nat \<rightharpoonup> daily_capacity) \<Rightarrow> capacity_basis \<Rightarrow> nat list \<Rightarrow> capacity_point" where
  "capacity_point_of cap_by_date basis bucket =
     (case cap_by_date (last bucket) of
        None \<Rightarrow> \<lparr>cp_start = hd bucket, cp_volumes = 0, cp_bytes = 0\<rparr>
      | Some edge \<Rightarrow> \<lparr>cp_start = hd bucket, cp_volumes = cap_volumes edge,
          cp_bytes = (case basis of Nominal \<Rightarrow> cap_nominal edge | Effective \<Rightarrow> cap_effective edge)\<rparr>)"

definition fee_fiat_at ::
  "('f \<Rightarrow> 'f \<Rightarrow> 'f) \<Rightarrow> 'f \<Rightarrow> (nat \<rightharpoonup> (string \<times> 'f) list) \<Rightarrow> string \<Rightarrow> nat \<Rightarrow> 'f \<Rightarrow> 'f" where
  "fee_fiat_at fmul fzero rates currency d bzz =
     (case Option.bind (rates d) (\<lambda>rs. map_of rs currency) of None \<Rightarrow> fzero | Some r \<Rightarrow> fmul bzz r)"

definition resolve_view ::
  "('f list \<Rightarrow> 'f) \<Rightarrow> ('f \<Rightarrow> 'f \<Rightarrow> 'f) \<Rightarrow> 'f \<Rightarrow> ('e, 'f, 'f daily_price) artifact_entry \<Rightarrow> view_options \<Rightarrow>
     view_error + 'f resolved_view" where
  "resolve_view fsum fmul fzero e opts =
     (if (case vo_fiat opts of None \<Rightarrow> False | Some c \<Rightarrow> c \<notin> set (dep_fiat (ent_deployment e))) then Inl ViewValueError
      else
        (case map_of BUCKET_WIDTHS (vo_bucket_width opts) of
           None \<Rightarrow> Inl ViewKeyError
         | Some width \<Rightarrow>
             (let days = window_dates opts width (map fee_date (ent_fee e));
                  buckets = day_buckets width days;
                  fee_at = (\<lambda>d. case by_date fee_date fee_bzz (ent_fee e) d of None \<Rightarrow> fzero | Some x \<Rightarrow> x);
                  cap_by_date = by_date cap_date (\<lambda>c. c) (ent_capacity e);
                  acc_by_date = by_date acc_date acc_authorized (ent_accounts e);
                  rates = by_date price_date price_fiat (ent_prices e);
                  fee_series = map (\<lambda>b. \<lparr>fp_start = hd b, fp_bzz = fsum (map fee_at b),
                    fp_fiat = map_option (\<lambda>c. fsum (map (\<lambda>d. fee_fiat_at fmul fzero rates c d (fee_at d)) b)) (vo_fiat opts)\<rparr>) buckets;
                  snap = ent_snapshot e
              in case (case vo_fiat opts of
                         None \<Rightarrow> Inr (snap_fee_total snap)
                       | Some c \<Rightarrow> fee_fiat_total fsum fmul fzero (ent_fee e) (ent_prices e) c) of
                   Inl err \<Rightarrow> Inl err
                 | Inr total_fee \<Rightarrow>
                     Inr \<lparr>rv_unit = (case vo_fiat opts of None \<Rightarrow> ''BZZ'' | Some c \<Rightarrow> c), rv_fee_total = total_fee,
                       rv_fee_window =
                         (case vo_fiat opts of
                            None \<Rightarrow> fsum (map fee_at days)
                          | Some c \<Rightarrow> fsum (map (\<lambda>d. fee_fiat_at fmul fzero rates c d (fee_at d)) days)),
                       rv_fee = fee_series, rv_volumes = snap_volumes snap,
                       rv_bytes = (case vo_basis opts of Nominal \<Rightarrow> snap_nominal snap | Effective \<Rightarrow> snap_effective snap),
                       rv_capacity = map (capacity_point_of cap_by_date (vo_basis opts)) buckets,
                       rv_authorized = snap_authorized snap, rv_paid = snap_paid snap,
                       rv_accounts = map (\<lambda>b. \<lparr>ap_start = hd b,
                         ap_authorized = (case acc_by_date (last b) of None \<Rightarrow> 0 | Some n \<Rightarrow> n)\<rparr>) buckets\<rparr>)))"

section \<open>Buckets\<close>

lemma day_buckets_partition:
  assumes "0 < width"
  shows "concat (day_buckets width ds) = ds \<and> list_all (\<lambda>b. b \<noteq> [] \<and> length b \<le> width) (day_buckets width ds) \<and>
    list_all (\<lambda>b. length b = width) (butlast (day_buckets width ds)) \<and>
    length ds \<le> length (day_buckets width ds) * width \<and> length (day_buckets width ds) * width < length ds + width"
  using assms
proof (induction width ds rule: day_buckets.induct)
  case (1 width ds)
  show ?case
  proof (cases "ds = []")
    case True
    then show ?thesis using 1(2) by (simp add: day_buckets.simps)
  next
    case False
    let ?rest = "day_buckets width (drop width ds)"
    have eq: "day_buckets width ds = take width ds # ?rest" using False 1(2) by (subst day_buckets.simps) simp
    have ih: "concat ?rest = drop width ds" "list_all (\<lambda>b. b \<noteq> [] \<and> length b \<le> width) ?rest"
      "list_all (\<lambda>b. length b = width) (butlast ?rest)" "length (drop width ds) \<le> length ?rest * width"
      "length ?rest * width < length (drop width ds) + width" using 1(1) [OF _ 1(2)] False 1(2) by blast+
    have full: "length (take width ds) = width" if "?rest \<noteq> []"
    proof (rule ccontr)
      assume "length (take width ds) \<noteq> width"
      then have "drop width ds = []" by simp
      then show False using that by (simp add: day_buckets.simps)
    qed
    have "length ?rest * width < length ds"
    proof (cases "?rest = []")
      case True
      then show ?thesis using False by simp
    next
      case False
      then have "width \<le> length ds" using full by simp
      then show ?thesis using ih(5) by simp
    qed
    moreover have "list_all (\<lambda>b. length b = width) (butlast (take width ds # ?rest))"
      using ih(3) full by (cases "?rest = []") simp_all
    ultimately show ?thesis unfolding eq using ih(1,2,4) False 1(2) by auto
  qed
qed

lemma slice_from_last: "0 < n \<Longrightarrow> slice_from xs (- n) = drop (length xs - nat n) xs"
  by (auto simp: slice_from_def nat_diff_distrib' nat_int_add)

text \<open>A count of zero buckets is \<open>dates[-0:]\<close>, all of them.\<close>

lemma slice_from_zero: "slice_from xs (- (0 * w)) = xs"
  by (simp add: slice_from_def)

lemma last_slice: "slice_from xs k \<noteq> [] \<Longrightarrow> last (slice_from xs k) = last xs"
  by (auto simp: slice_from_def intro!: last_drop)

lemma by_date_distinct:
  "distinct (map date series) \<Longrightarrow> x \<in> set series \<Longrightarrow> by_date date value series (date x) = Some (value x)"
  unfolding by_date_def
  by (rule map_of_is_SomeI) (auto simp: rev_map comp_def simp flip: rev_map)

lemma sum_buckets: "(\<Sum>b\<leftarrow>bs. \<Sum>x\<leftarrow>b. f x) = (\<Sum>x\<leftarrow>concat bs. f x :: int)"
  by (induction bs) simp_all

lemma last_bucket:
  assumes "0 < width" "ds \<noteq> []"
  shows "day_buckets width ds \<noteq> []" "last (last (day_buckets width ds)) = last ds"
proof -
  note p = day_buckets_partition [OF assms(1), of ds]
  show ne: "day_buckets width ds \<noteq> []" using p assms(2) by auto
  have "concat (butlast (day_buckets width ds)) @ last (day_buckets width ds) = ds"
    using p append_butlast_last_id [OF ne] by (metis concat.simps concat_append append_Nil2)
  moreover have "last (day_buckets width ds) \<noteq> []" using p ne by (simp add: list_all_iff)
  ultimately show "last (last (day_buckets width ds)) = last ds" by (metis last_append)
qed

lemma bucket_count:
  assumes "0 < width" "length ds \<le> n * width"
  shows "length (day_buckets width ds) \<le> n"
proof -
  have "length (day_buckets width ds) * width < (n + 1) * width"
    using day_buckets_partition [OF assms(1), of ds] assms(2) by simp
  then have "length (day_buckets width ds) < n + 1" by (simp only: mult_less_cancel2)
  then show ?thesis by simp
qed

section \<open>The view of a projected entry\<close>

lemma entry_snapshot:
  assumes "project_entry bzz fsum fzero d events prices block as_of = Some e"
  shows "snap_volumes (ent_snapshot e) = cap_volumes (last (ent_capacity e))"
    "snap_nominal (ent_snapshot e) = cap_nominal (last (ent_capacity e))"
    "snap_effective (ent_snapshot e) = cap_effective (last (ent_capacity e))"
    "snap_authorized (ent_snapshot e) = acc_authorized (last (ent_accounts e))"
    "ent_capacity e \<noteq> []" "ent_accounts e \<noteq> []"
  using assms by (auto simp: project_entry_def Let_def split: option.splits if_splits)

text \<open>
  In whole numbers and without fiat: the buckets' fees are the window's, there are no more points than asked
  for, and the last point of the stocks is the snapshot.
\<close>

lemma view_agrees_with_snapshot:
  assumes run: "project_entry bzz fsum fzero d events prices block as_of = Some e"
    and dated: "dated fee_date (ent_fee e) g t" "dated cap_date (ent_capacity e) g t" "dated acc_date (ent_accounts e) g t"
    and opts: "vo_fiat opts = None" "vo_since opts = None" "map_of BUCKET_WIDTHS (vo_bucket_width opts) = Some width"
      "1 \<le> vo_bucket_count opts"
  shows "\<exists>v. resolve_view sum_list (*) (0 :: int) e opts = Inr v \<and>
    sum_list (map fp_bzz (rv_fee v)) = rv_fee_window v \<and>
    length (rv_fee v) \<le> nat (vo_bucket_count opts) \<and> rv_capacity v \<noteq> [] \<and> rv_accounts v \<noteq> [] \<and>
    cp_volumes (last (rv_capacity v)) = rv_volumes v \<and> cp_bytes (last (rv_capacity v)) = rv_bytes v \<and>
    ap_authorized (last (rv_accounts v)) = rv_authorized v"
proof -
  have width: "0 < width" using opts(3) by (auto simp: BUCKET_WIDTHS_def split: if_splits)
  let ?n = "vo_bucket_count opts * int width"
  have n: "0 < ?n" using width opts(4) by simp
  have n': "0 < nat ?n" using n by simp
  define days where "days = window_dates opts width (map fee_date (ent_fee e))"
  define buckets where "buckets = day_buckets width days"
  have days: "days = drop (t - g - nat ?n) [g..<t]"
    using slice_from_last [OF n, of "[g..<t]"] by (simp add: days_def window_dates_def opts(2) dated(1))
  note snap = entry_snapshot [OF run]
  have gt: "g < t" using snap(5) dated(2) by (cases "g < t") auto
  then have ne: "days \<noteq> []" using n by (simp add: days)
  have "nat ?n = nat (vo_bucket_count opts) * width" using opts(4) by (simp add: nat_mult_distrib)
  then have few: "length buckets \<le> nat (vo_bucket_count opts)"
    unfolding buckets_def by (intro bucket_count [OF width]) (simp add: days)
  have "last days = last [g..<t]" unfolding days using gt
    by (intro last_drop) (use n' in \<open>unfold length_upt, linarith\<close>)
  then have edge: "buckets \<noteq> []" "last (last buckets) = t - 1"
    using last_bucket [OF width ne] gt by (simp_all add: buckets_def)
  have lasts: "cap_date (last (ent_capacity e)) = t - 1" "acc_date (last (ent_accounts e)) = t - 1"
    using gt snap(5,6) dated(2,3) by (simp_all flip: last_map)
  have cap: "by_date cap_date (\<lambda>c. c) (ent_capacity e) (t - 1) = Some (last (ent_capacity e))"
    and acc: "by_date acc_date acc_authorized (ent_accounts e) (t - 1) = Some (acc_authorized (last (ent_accounts e)))"
    using by_date_distinct [of cap_date "ent_capacity e" "last (ent_capacity e)" "\<lambda>c. c"]
      by_date_distinct [of acc_date "ent_accounts e" "last (ent_accounts e)" acc_authorized] dated(2,3) snap(5,6) lasts
    by simp_all
  have "concat buckets = days" using day_buckets_partition [OF width, of days] by (simp add: buckets_def)
  then show ?thesis using opts few edge cap acc snap
    by (simp add: resolve_view_def Let_def days_def [symmetric] buckets_def [symmetric] comp_def sum_buckets
        last_map capacity_point_of_def split: capacity_basis.splits)
qed

end
