(* ===== verification/IndexerWire.thy ===== *)
theory IndexerWire
  imports IndexerFiles IndexerView "HOL-Library.List_Lexorder" "HOL-Library.Char_ord"
begin

text \<open>
  \<open>services/indexer/src/ethswarm_volumes/serialize.py\<close>: the published artifact and its JSON document, down to the text of
  the file. \<open>None\<close> is a raised exception, as in \<open>IndexerFiles\<close>: text that is no JSON, a missing key, a time that does not
  read, or a value that a field of the model cannot hold, which Python would carry on. An \<open>int\<close> in a float's field is
  such a value: the projector writes floats there. Times are whole seconds, which is what \<open>_iso\<close> writes.
\<close>

section \<open>The artifact\<close>

definition SCHEMA_VERSION :: string where
  "SCHEMA_VERSION = ''1.0''"

text \<open>The time of a sync is in microseconds, as \<open>datetime.now\<close> gives it; \<open>_iso\<close> writes whole seconds.\<close>

definition SECOND :: nat where
  "SECOND = 1000000"

type_synonym 'f entry = "('f json, 'f, 'f daily_price) artifact_entry"

record 'f artifact =
  art_schema_version :: string
  art_generated_at :: nat
  art_deployments :: "'f entry list"
  art_latest :: "(string \<times> string) list"

section \<open>Writing\<close>

definition window_key :: "nat \<Rightarrow> string" where
  "window_key n = decimal n @ ''d''"

definition fee_to_dict :: "'f daily_fee \<Rightarrow> 'f json" where
  "fee_to_dict d = JObject [(''date'', JText (day_text (fee_date d))), (''bzz'', JFloat (fee_bzz d))]"

definition capacity_to_dict :: "daily_capacity \<Rightarrow> 'f json" where
  "capacity_to_dict d =
     JObject [(''date'', JText (day_text (cap_date d))), (''active_volumes'', JInt (int (cap_volumes d))),
       (''nominal_bytes'', JInt (cap_nominal d)), (''effective_bytes'', JInt (cap_effective d))]"

definition accounts_to_dict :: "daily_accounts \<Rightarrow> 'f json" where
  "accounts_to_dict d =
     JObject [(''date'', JText (day_text (acc_date d))), (''authorized'', JInt (int (acc_authorized d)))]"

definition price_to_dict :: "'f daily_price \<Rightarrow> 'f json" where
  "price_to_dict d =
     JObject [(''date'', JText (day_text (price_date d))),
       (''bzz_fiat'', JObject (map (\<lambda>(c, x). (c, JFloat x)) (price_fiat d)))]"

definition snapshot_to_dict :: "'f snapshot \<Rightarrow> 'f json" where
  "snapshot_to_dict s =
     JObject
       [(''fee_volume_total_bzz'', JFloat (snap_fee_total s)),
        (''capacity'', JObject
          [(''active_volumes'', JInt (int (snap_volumes s))), (''nominal_bytes'', JInt (snap_nominal s)),
           (''effective_bytes'', JInt (snap_effective s))]),
        (''accounts'', JObject
          [(''authorized'', JInt (int (snap_authorized s))),
           (''paid_in_window'', JObject (map (\<lambda>(n, k). (window_key n, JInt (int k))) (snap_paid s)))])]"

definition entry_to_dict :: "'f entry \<Rightarrow> 'f json" where
  "entry_to_dict e =
     (let d = ent_deployment e in
      JObject
        [(''label'', JText (dep_label d)),
         (''chain_id'', JInt (dep_chain_id d)),
         (''registry'', JText (dep_registry d)),
         (''registry_version'', JText (dep_version d)),
         (''genesis_ts'', JText (iso_text (dep_genesis_ts d))),
         (''as_of'', JObject [(''block'', JInt (ent_as_of_block e)), (''ts'', JText (iso_text (ent_as_of_ts e)))]),
         (''fiat_currencies'', JList (map JText (dep_fiat d))),
         (''extra'', dep_extra d),
         (''snapshot'', snapshot_to_dict (ent_snapshot e)),
         (''fee_volume_daily'', JList (map fee_to_dict (ent_fee e))),
         (''capacity_daily'', JList (map capacity_to_dict (ent_capacity e))),
         (''accounts_daily'', JList (map accounts_to_dict (ent_accounts e))),
         (''price_daily'', JList (map price_to_dict (ent_prices e)))])"

definition artifact_to_dict :: "'f artifact \<Rightarrow> 'f json" where
  "artifact_to_dict a =
     JObject
       [(''schema_version'', JText (art_schema_version a)),
        (''generated_at'', JText (iso_text (art_generated_at a div SECOND))),
        (''latest'', JObject (map (\<lambda>(n, l). (n, JText l)) (sort_key fst (art_latest a)))),
        (''deployments'', JList (map entry_to_dict (art_deployments a)))]"

definition artifact_to_json :: "('f \<Rightarrow> string) \<Rightarrow> 'f artifact \<Rightarrow> string" where
  "artifact_to_json fshow a = dumps fshow (Some 2) 0 (artifact_to_dict a)"

section \<open>Reading\<close>

definition int_field :: "string \<Rightarrow> 'f json \<Rightarrow> int option" where
  "int_field k j = Option.bind (field k j) as_int"

definition as_float :: "'f json \<Rightarrow> 'f option" where
  "as_float j = (case j of JFloat x \<Rightarrow> Some x | _ \<Rightarrow> None)"

definition float_field :: "string \<Rightarrow> 'f json \<Rightarrow> 'f option" where
  "float_field k j = Option.bind (field k j) as_float"

definition date_field :: "'f json \<Rightarrow> nat option" where
  "date_field j = Option.bind (text_field ''date'' j) parse_day"

definition iso_field :: "string \<Rightarrow> 'f json \<Rightarrow> nat option" where
  "iso_field k j = Option.bind (text_field k j) parse_iso"

definition each :: "('f json \<Rightarrow> 'a option) \<Rightarrow> string \<Rightarrow> 'f json \<Rightarrow> 'a list option" where
  "each f k j = do { l \<leftarrow> field k j; xs \<leftarrow> as_list l; those (map f xs) }"

definition items_of :: "(string \<times> 'f json \<Rightarrow> 'a option) \<Rightarrow> 'f json \<Rightarrow> 'a list option" where
  "items_of f j = do { kvs \<leftarrow> as_object j; those (map f kvs) }"

definition window_of_key :: "string \<Rightarrow> nat option" where
  "window_of_key k =
     (if k \<noteq> [] \<and> last k = CHR ''d'' \<and> list_all is_digit_char (butlast k) then Some (nat_value (butlast k)) else None)"

definition fee_from_dict :: "'f json \<Rightarrow> 'f daily_fee option" where
  "fee_from_dict j =
     do { d \<leftarrow> date_field j; x \<leftarrow> float_field ''bzz'' j; Some \<lparr>fee_date = d, fee_bzz = x\<rparr> }"

definition capacity_from_dict :: "'f json \<Rightarrow> daily_capacity option" where
  "capacity_from_dict j =
     do {
       d \<leftarrow> date_field j; v \<leftarrow> nat_field ''active_volumes'' j; n \<leftarrow> int_field ''nominal_bytes'' j;
       e \<leftarrow> int_field ''effective_bytes'' j;
       Some \<lparr>cap_date = d, cap_volumes = v, cap_nominal = n, cap_effective = e\<rparr>
     }"

definition accounts_from_dict :: "'f json \<Rightarrow> daily_accounts option" where
  "accounts_from_dict j =
     do { d \<leftarrow> date_field j; n \<leftarrow> nat_field ''authorized'' j; Some \<lparr>acc_date = d, acc_authorized = n\<rparr> }"

definition price_from_dict :: "'f json \<Rightarrow> 'f daily_price option" where
  "price_from_dict j =
     do {
       d \<leftarrow> date_field j;
       rates \<leftarrow> Option.bind (field ''bzz_fiat'' j) (items_of (\<lambda>(c, x). map_option (Pair c) (as_float x)));
       Some \<lparr>price_date = d, price_fiat = rates\<rparr>
     }"

definition snapshot_from_dict :: "'f json \<Rightarrow> 'f snapshot option" where
  "snapshot_from_dict snap =
     do {
       total_fee \<leftarrow> float_field ''fee_volume_total_bzz'' snap;
       cap \<leftarrow> field ''capacity'' snap;
       v \<leftarrow> nat_field ''active_volumes'' cap;
       n \<leftarrow> int_field ''nominal_bytes'' cap;
       e \<leftarrow> int_field ''effective_bytes'' cap;
       acc \<leftarrow> field ''accounts'' snap;
       k \<leftarrow> nat_field ''authorized'' acc;
       paid \<leftarrow> Option.bind (field ''paid_in_window'' acc)
         (items_of (\<lambda>(w, x). do { n \<leftarrow> window_of_key w; c \<leftarrow> as_nat x; Some (n, c) }));
       Some \<lparr>snap_fee_total = total_fee, snap_volumes = v, snap_nominal = n, snap_effective = e, snap_authorized = k,
             snap_paid = paid\<rparr>
     }"

definition entry_from_dict :: "'f json \<Rightarrow> 'f entry option" where
  "entry_from_dict obj =
     do {
       snap \<leftarrow> field ''snapshot'' obj;
       label \<leftarrow> text_field ''label'' obj;
       chain_id \<leftarrow> nat_field ''chain_id'' obj;
       registry \<leftarrow> text_field ''registry'' obj;
       version \<leftarrow> text_field ''registry_version'' obj;
       genesis_ts \<leftarrow> iso_field ''genesis_ts'' obj;
       as_of \<leftarrow> field ''as_of'' obj;
       block \<leftarrow> int_field ''block'' as_of;
       ts \<leftarrow> iso_field ''ts'' as_of;
       fiat \<leftarrow> each as_text ''fiat_currencies'' obj;
       extra \<leftarrow> field ''extra'' obj;
       snapshot \<leftarrow> snapshot_from_dict snap;
       fee \<leftarrow> each fee_from_dict ''fee_volume_daily'' obj;
       cap \<leftarrow> each capacity_from_dict ''capacity_daily'' obj;
       acc \<leftarrow> each accounts_from_dict ''accounts_daily'' obj;
       prices \<leftarrow> each price_from_dict ''price_daily'' obj;
       Some \<lparr>ent_deployment = \<lparr>dep_label = label, dep_chain_id = int chain_id, dep_registry = registry, dep_version = version,
               dep_genesis_ts = genesis_ts, dep_fiat = fiat, dep_extra = extra\<rparr>,
             ent_as_of_block = block, ent_as_of_ts = ts, ent_snapshot = snapshot, ent_fee = fee, ent_capacity = cap,
             ent_accounts = acc, ent_prices = prices\<rparr>
     }"

text \<open>\<open>obj.get("latest", {})\<close>.\<close>

definition artifact_from_dict :: "'f json \<Rightarrow> 'f artifact option" where
  "artifact_from_dict obj =
     do {
       version \<leftarrow> text_field ''schema_version'' obj;
       generated_at \<leftarrow> iso_field ''generated_at'' obj;
       deployments \<leftarrow> each entry_from_dict ''deployments'' obj;
       latest \<leftarrow> (case field ''latest'' obj of
           None \<Rightarrow> Some []
         | Some l \<Rightarrow> items_of (\<lambda>(n, x). map_option (Pair n) (as_text x)) l);
       Some \<lparr>art_schema_version = version, art_generated_at = generated_at * SECOND, art_deployments = deployments,
             art_latest = latest\<rparr>
     }"

definition artifact_from_json :: "(string \<Rightarrow> 'f) \<Rightarrow> string \<Rightarrow> 'f artifact option" where
  "artifact_from_json fread s = Option.bind (loads fread s) artifact_from_dict"

section \<open>An artifact comes back\<close>

text \<open>What the text can carry: years of four digits, floats with a text, and the different keys of a \<open>dict\<close>.\<close>

definition series_ok :: "(string \<Rightarrow> 'f) \<Rightarrow> ('f \<Rightarrow> string) \<Rightarrow> 'f entry \<Rightarrow> bool" where
  "series_ok fread fshow e \<longleftrightarrow>
     list_all (\<lambda>d. fee_date d < DAY_LIMIT \<and> float_ok fread fshow (fee_bzz d)) (ent_fee e) \<and>
     list_all (\<lambda>d. cap_date d < DAY_LIMIT) (ent_capacity e) \<and>
     list_all (\<lambda>d. acc_date d < DAY_LIMIT) (ent_accounts e) \<and>
     list_all (\<lambda>d. price_date d < DAY_LIMIT \<and> distinct (map fst (price_fiat d)) \<and>
       list_all (\<lambda>(c, x). float_ok fread fshow x) (price_fiat d)) (ent_prices e)"

definition entry_ok :: "(string \<Rightarrow> 'f) \<Rightarrow> ('f \<Rightarrow> string) \<Rightarrow> 'f entry \<Rightarrow> bool" where
  "entry_ok fread fshow e \<longleftrightarrow>
     0 \<le> dep_chain_id (ent_deployment e) \<and> dep_genesis_ts (ent_deployment e) < TIME_LIMIT \<and> ent_as_of_ts e < TIME_LIMIT \<and>
     writable fread fshow (dep_extra (ent_deployment e)) \<and>
     float_ok fread fshow (snap_fee_total (ent_snapshot e)) \<and> distinct (map fst (snap_paid (ent_snapshot e))) \<and>
     series_ok fread fshow e"

definition artifact_ok :: "(string \<Rightarrow> 'f) \<Rightarrow> ('f \<Rightarrow> string) \<Rightarrow> 'f artifact \<Rightarrow> bool" where
  "artifact_ok fread fshow a \<longleftrightarrow>
     art_generated_at a < TIME_LIMIT * SECOND \<and> distinct (map fst (art_latest a)) \<and>
     list_all (entry_ok fread fshow) (art_deployments a)"

lemma those_round: "list_all (\<lambda>x. f (g x) = Some x) xs \<Longrightarrow> those (map f (map g xs)) = Some xs"
  by (induction xs) simp_all

lemma each_round: "list_all (\<lambda>x. f (g x) = Some x) xs \<Longrightarrow> field k j = Some (JList (map g xs)) \<Longrightarrow> each f k j = Some xs"
  unfolding each_def by (simp add: those_round del: map_map)

lemma items_round: "list_all (\<lambda>x. f (g x) = Some x) xs \<Longrightarrow> items_of f (JObject (map g xs)) = Some xs"
  unfolding items_of_def by (simp add: those_round del: map_map)

lemma window_round: "window_of_key (window_key n) = Some n"
  using decimal_digits [of n] by (simp add: window_of_key_def window_key_def)

lemma inj_window_key: "inj window_key"
  by (rule injI) (metis window_round option.inject)

lemma field_simps_wire [simp]: "as_float (JFloat x) = Some x" "as_int (JInt i) = Some i"
  by (simp_all add: as_float_def)

lemmas field_defs = nat_field_def int_field_def text_field_def float_field_def date_field_def iso_field_def

lemma fee_round: "fee_date d < DAY_LIMIT \<Longrightarrow> fee_from_dict (fee_to_dict d) = Some d"
  by (simp add: fee_from_dict_def fee_to_dict_def field_defs parse_day_text)

lemma capacity_round: "cap_date d < DAY_LIMIT \<Longrightarrow> capacity_from_dict (capacity_to_dict d) = Some d"
  by (simp add: capacity_from_dict_def capacity_to_dict_def field_defs parse_day_text)

lemma accounts_round: "acc_date d < DAY_LIMIT \<Longrightarrow> accounts_from_dict (accounts_to_dict d) = Some d"
  by (simp add: accounts_from_dict_def accounts_to_dict_def field_defs parse_day_text)

lemma price_round: "price_date d < DAY_LIMIT \<Longrightarrow> price_from_dict (price_to_dict d) = Some d"
proof -
  have "items_of (\<lambda>(c, x). map_option (Pair c) (as_float x)) (JObject (map (\<lambda>(c, x). (c, JFloat x)) (price_fiat d))) =
      Some (price_fiat d)"
    by (rule items_round) (simp add: list_all_iff case_prod_beta)
  then show "price_date d < DAY_LIMIT \<Longrightarrow> ?thesis"
    by (simp add: price_from_dict_def price_to_dict_def field_defs parse_day_text)
qed

lemma paid_round:
  "items_of (\<lambda>(w, x). do { n \<leftarrow> window_of_key w; c \<leftarrow> as_nat x; Some (n, c) })
     (JObject (map (\<lambda>(n, k). (window_key n, JInt (int k))) paid)) = Some paid"
  by (rule items_round) (simp add: list_all_iff case_prod_beta window_round)

lemma latest_round:
  "items_of (\<lambda>(n, x). map_option (Pair n) (as_text x)) (JObject (map (\<lambda>(n, l). (n, JText l)) latest)) = Some latest"
  by (rule items_round) (simp add: list_all_iff case_prod_beta)

lemma snapshot_round: "snapshot_from_dict (snapshot_to_dict s) = Some s"
  by (simp add: snapshot_from_dict_def snapshot_to_dict_def field_defs paid_round)

lemma as_of_round:
  "t < TIME_LIMIT \<Longrightarrow> iso_field ''ts'' (JObject [(''block'', JInt b), (''ts'', JText (iso_text t))]) = Some t"
  "int_field ''block'' (JObject [(''block'', JInt b), ts]) = Some b"
  by (simp_all add: field_defs parse_iso_text)

lemma entry_round:
  assumes "entry_ok fread fshow e"
  shows "entry_from_dict (entry_to_dict e) = Some e"
proof -
  note ok = assms [unfolded entry_ok_def series_ok_def]
  have series: "list_all (\<lambda>d. fee_from_dict (fee_to_dict d) = Some d) (ent_fee e)"
    "list_all (\<lambda>d. capacity_from_dict (capacity_to_dict d :: 'a json) = Some d) (ent_capacity e)"
    "list_all (\<lambda>d. accounts_from_dict (accounts_to_dict d :: 'a json) = Some d) (ent_accounts e)"
    "list_all (\<lambda>d. price_from_dict (price_to_dict d) = Some d) (ent_prices e)"
    using ok by (simp_all add: list_all_iff fee_round capacity_round accounts_round price_round)
  have fiat: "list_all (\<lambda>c. as_text (JText c :: 'a json) = Some c) (dep_fiat (ent_deployment e))" by (simp add: list_all_iff)
  let ?j = "entry_to_dict e"
  have "each as_text ''fiat_currencies'' ?j = Some (dep_fiat (ent_deployment e))"
    "each fee_from_dict ''fee_volume_daily'' ?j = Some (ent_fee e)"
    "each capacity_from_dict ''capacity_daily'' ?j = Some (ent_capacity e)"
    "each accounts_from_dict ''accounts_daily'' ?j = Some (ent_accounts e)"
    "each price_from_dict ''price_daily'' ?j = Some (ent_prices e)"
    by (rule each_round [OF fiat] each_round [OF series(1)] each_round [OF series(2)] each_round [OF series(3)]
        each_round [OF series(4)], simp add: entry_to_dict_def Let_def)+
  moreover have "field ''snapshot'' ?j = Some (snapshot_to_dict (ent_snapshot e))"
    "text_field ''label'' ?j = Some (dep_label (ent_deployment e))"
    "nat_field ''chain_id'' ?j = Some (nat (dep_chain_id (ent_deployment e)))"
    "text_field ''registry'' ?j = Some (dep_registry (ent_deployment e))"
    "text_field ''registry_version'' ?j = Some (dep_version (ent_deployment e))"
    "iso_field ''genesis_ts'' ?j = Some (dep_genesis_ts (ent_deployment e))"
    "field ''as_of'' ?j = Some (JObject [(''block'', JInt (ent_as_of_block e)), (''ts'', JText (iso_text (ent_as_of_ts e)))])"
    "field ''extra'' ?j = Some (dep_extra (ent_deployment e))"
    using ok by (simp_all add: entry_to_dict_def Let_def field_defs parse_iso_text as_nat_def)
  ultimately show ?thesis unfolding entry_from_dict_def using ok by (simp add: snapshot_round as_of_round)
qed

lemma writable_list: "list_all (\<lambda>x. writable fread fshow (g x)) xs \<Longrightarrow> writable fread fshow (JList (map g xs))"
  by (simp add: list_all_iff)

lemma entry_writable:
  assumes "entry_ok fread fshow e"
  shows "writable fread fshow (entry_to_dict e)"
proof -
  note ok = assms [unfolded entry_ok_def series_ok_def]
  have "list_all (\<lambda>d. writable fread fshow (fee_to_dict d)) (ent_fee e)"
    "list_all (\<lambda>d. writable fread fshow (capacity_to_dict d)) (ent_capacity e)"
    "list_all (\<lambda>d. writable fread fshow (accounts_to_dict d)) (ent_accounts e)"
    "list_all (\<lambda>d. writable fread fshow (price_to_dict d)) (ent_prices e)"
    "list_all (\<lambda>c. writable fread fshow (JText c)) (dep_fiat (ent_deployment e))"
    using ok by (auto simp: list_all_iff fee_to_dict_def capacity_to_dict_def accounts_to_dict_def price_to_dict_def
        comp_def case_prod_beta)
  note series = this [THEN writable_list]
  have "distinct (map (\<lambda>x. window_key (fst x)) (snap_paid (ent_snapshot e)))"
    using ok distinct_map [of window_key "map fst (snap_paid (ent_snapshot e))"] inj_on_subset [OF inj_window_key]
    by (simp add: comp_def)
  then have "writable fread fshow (snapshot_to_dict (ent_snapshot e))"
    using ok by (simp add: snapshot_to_dict_def comp_def case_prod_beta list_all_iff)
  then show ?thesis using series ok by (simp add: entry_to_dict_def Let_def del: writable.simps(2))
qed

lemma artifact_writable:
  assumes "artifact_ok fread fshow a"
  shows "writable fread fshow (artifact_to_dict a)"
proof -
  note ok = assms [unfolded artifact_ok_def]
  have "distinct (map fst (sort_key fst (art_latest a)))"
    using ok by (metis distinct_sort distinct_map inj_on_def set_sort)
  then show ?thesis
    using ok entry_writable by (fastforce simp: artifact_to_dict_def comp_def case_prod_beta list_all_iff)
qed

lemma artifact_round:
  assumes "artifact_ok fread fshow a"
  shows "artifact_from_json fread (artifact_to_json fshow a @ [CHR 0x0A]) =
    Some (a\<lparr>art_generated_at := art_generated_at a div SECOND * SECOND, art_latest := sort_key fst (art_latest a)\<rparr>)"
proof -
  note ok = assms [unfolded artifact_ok_def]
  have entries: "list_all (\<lambda>e. entry_from_dict (entry_to_dict e) = Some e) (art_deployments a)"
    using ok entry_round by (fastforce simp: list_all_iff)
  have "loads fread (artifact_to_json fshow a @ [CHR 0x0A]) = Some (artifact_to_dict a)"
    unfolding artifact_to_json_def by (rule loads_dumps [OF artifact_writable [OF assms]]) (simp add: is_json_space_def)
  moreover have "each entry_from_dict ''deployments'' (artifact_to_dict a) = Some (art_deployments a)"
    by (rule each_round [OF entries]) (simp add: artifact_to_dict_def)
  moreover have "art_generated_at a div SECOND < TIME_LIMIT"
    using ok by (simp add: less_mult_imp_div_less SECOND_def)
  ultimately show ?thesis
    using ok by (simp add: artifact_from_json_def artifact_from_dict_def artifact_to_dict_def field_defs parse_iso_text
        latest_round)
qed

text \<open>A proper part of the text is not read.\<close>

lemma cut_artifact:
  assumes "artifact_ok fread fshow a" "k < length (artifact_to_json fshow a)"
  shows "artifact_from_json fread (take k (artifact_to_json fshow a)) = None"
proof -
  have "loads fread (take k (artifact_to_json fshow a)) = None"
  proof (rule loads_cut [OF artifact_writable [OF assms(1)]])
    show "dumps fshow (Some 2) 0 (artifact_to_dict a) = take k (artifact_to_json fshow a) @ drop k (artifact_to_json fshow a)"
      by (simp add: artifact_to_json_def)
    show "drop k (artifact_to_json fshow a) \<noteq> []" using assms(2) by simp
  qed (simp add: artifact_to_dict_def)
  then show ?thesis by (simp add: artifact_from_json_def)
qed

section \<open>Properties\<close>

text \<open>C28: The published file reads back. The text that a sync writes, with the line end behind it, is read by every client
  as the artifact that was written: every entry with its identity, snapshot and series, and the \<open>latest\<close>
  pointers, which the file has sorted by network; the time of the sync comes back cut to the whole second, as the
  file has it. What is relied on of Python's floats is that each has a
  text that reads as it.\<close>

theorem artifact_reads_back:
  assumes "artifact_ok fread fshow a"
  shows "artifact_from_json fread (artifact_to_json fshow a @ [CHR 0x0A]) =
    Some (a\<lparr>art_generated_at := art_generated_at a div SECOND * SECOND, art_latest := sort_key fst (art_latest a)\<rparr>)"
  by (rule artifact_round [OF assms])

text \<open>Whole amounts, whose text ends in \<open>.0\<close>, for the witnesses.\<close>

definition whole_text :: "int \<Rightarrow> string" where
  "whole_text i = int_text i @ ''.0''"

definition whole_value :: "string \<Rightarrow> int" where
  "whole_value s = int_value (take (length s - 2) s)"

lemma whole_ok: "float_ok whole_value whole_text i"
proof -
  have "scan_integer (int_text i) = Some (int_text i, [])" by (simp add: int_text_def decimal_scan)
  then have "scan_integer (whole_text i) = Some (int_text i, ''.0'')"
    unfolding whole_text_def using scan_integer_more [of "int_text i" "int_text i" "[]" "''.0''"] by simp
  moreover have "scan_fraction ''.0'' = (''.0'', [])" "scan_exponent [] = ([], [])"
    by (simp_all add: scan_fraction_def scan_exponent_def is_digit_char_def)
  ultimately have "float_text (whole_text i)" by (simp add: float_text_def scan_numeral_def)
  moreover have "whole_value (whole_text i) = i" by (simp add: whole_value_def whole_text_def int_text_scan(2))
  ultimately show ?thesis by (simp add: float_ok_def)
qed

definition sample_artifact :: "int artifact" where
  "sample_artifact =
     \<lparr>art_schema_version = SCHEMA_VERSION, art_generated_at = 1700000100250000,
      art_deployments =
        [\<lparr>ent_deployment = \<lparr>dep_label = ''gnosis-v1'', dep_chain_id = 100, dep_registry = ''0xA'', dep_version = ''v1'',
             dep_genesis_ts = 1700000000, dep_fiat = [''USD''], dep_extra = JObject [(''grace_blocks'', JInt 5)]\<rparr>,
           ent_as_of_block = 7, ent_as_of_ts = 1700000050,
           ent_snapshot = \<lparr>snap_fee_total = 4, snap_volumes = 1, snap_nominal = 8192, snap_effective = 4096,
             snap_authorized = 2, snap_paid = [(1, 1), (7, 1), (30, 2)]\<rparr>,
           ent_fee = [\<lparr>fee_date = 19675, fee_bzz = 4\<rparr>],
           ent_capacity = [\<lparr>cap_date = 19675, cap_volumes = 1, cap_nominal = 8192, cap_effective = 4096\<rparr>],
           ent_accounts = [\<lparr>acc_date = 19675, acc_authorized = 2\<rparr>],
           ent_prices = [\<lparr>price_date = 19675, price_fiat = [(''USD'', 3)]\<rparr>]\<rparr>],
      art_latest = [(''sepolia'', ''sepolia-v2''), (''gnosis'', ''gnosis-v1'')]\<rparr>"

lemma artifact_reads_back_witness:
  "artifact_from_json whole_value (artifact_to_json whole_text sample_artifact @ [CHR 0x0A]) =
     Some (sample_artifact\<lparr>art_generated_at := 1700000100000000, art_latest := [(''gnosis'', ''gnosis-v1''), (''sepolia'', ''sepolia-v2'')]\<rparr>)"
proof -
  have "artifact_ok whole_value whole_text sample_artifact"
    by (simp add: artifact_ok_def sample_artifact_def entry_ok_def series_ok_def whole_ok SECOND_def)
  moreover have "sort_key fst (art_latest sample_artifact) = [(''gnosis'', ''gnosis-v1''), (''sepolia'', ''sepolia-v2'')]"
    by (simp add: sample_artifact_def less_eq_char_def)
  moreover have "art_generated_at sample_artifact div SECOND * SECOND = 1700000100000000"
    by (simp add: sample_artifact_def SECOND_def)
  ultimately show ?thesis using artifact_reads_back [of whole_value whole_text sample_artifact] by simp
qed

end
