(* ===== verification/IndexerPrices.thy ===== *)
theory IndexerPrices
  imports IndexerWire
begin

text \<open>
  \<open>services/indexer/src/ethswarm_volumes/prices.py\<close>: the daily price history a sync bakes in. The request is the parameter
  \<open>http\<close>, from the address to the parsed body, \<open>None\<close> where \<open>_http_get_json\<close> raises. A quote's price is kept as the JSON value
  it came as. The whole seconds of a timestamp that is a float are the parameter \<open>secs\<close>; no quote is from before
  1970. Days are indices, which sort as their texts (\<open>day_text_order\<close>).
\<close>

section \<open>The request\<close>

definition LLAMA_CHAIN :: "(int \<times> string) list" where
  "LLAMA_CHAIN = [(1, ''ethereum''), (100, ''gnosis'')]"

definition price_span :: "nat \<Rightarrow> nat \<Rightarrow> int" where
  "price_span start_ts end_ts = max 1 ((int end_ts - int start_ts) div 86400 + 2)"

definition price_coin :: "string \<Rightarrow> string \<Rightarrow> string" where
  "price_coin slug token = slug @ '':'' @ token"

definition price_url :: "string \<Rightarrow> nat \<Rightarrow> int \<Rightarrow> string" where
  "price_url coin start days =
     ''https://coins.llama.fi/chart/'' @ coin @ ''?start='' @ decimal start @ ''&span='' @ int_text days
       @ ''&period=1d&searchWidth=12h''"

section \<open>The quotes\<close>

datatype 'p price_result = PriceRaises | PriceList "'p daily_price list"

text \<open>\<open>doc["coins"][coin]["prices"]\<close>, inside the \<open>try\<close>.\<close>

definition price_points :: "string \<Rightarrow> 'f json \<Rightarrow> 'f json option" where
  "price_points coin doc =
     do { coins \<leftarrow> field ''coins'' doc; c \<leftarrow> field coin coins; field ''prices'' c }"

text \<open>The items of a \<open>for\<close> over a JSON value; what cannot be iterated raises. The keys of an object and the characters
  of a string are strings.\<close>

definition iterate :: "'f json \<Rightarrow> 'f json list option" where
  "iterate j =
     (case j of
        JList xs \<Rightarrow> Some xs
      | JObject kvs \<Rightarrow> Some (map (\<lambda>(k, v). JText k) kvs)
      | JText s \<Rightarrow> Some (map (\<lambda>c. JText [c]) s)
      | _ \<Rightarrow> None)"

definition point_day :: "('f \<Rightarrow> nat) \<Rightarrow> 'f json \<Rightarrow> nat option" where
  "point_day secs t =
     (case t of
        JInt i \<Rightarrow> if 0 \<le> i then Some (nat i div 86400) else None
      | JBool b \<Rightarrow> Some 0
      | JFloat x \<Rightarrow> Some (secs x div 86400)
      | _ \<Rightarrow> None)"

fun by_day :: "('f \<Rightarrow> nat) \<Rightarrow> 'f json list \<Rightarrow> (nat \<times> 'f json) list \<Rightarrow> (nat \<times> 'f json) list option" where
  "by_day secs [] days = Some days"
| "by_day secs (point # points) days =
     (case Option.bind (field ''timestamp'' point) (point_day secs) of
        None \<Rightarrow> None
      | Some day \<Rightarrow>
     (case field ''price'' point of
        None \<Rightarrow> None
      | Some price \<Rightarrow> by_day secs points (AList.update day price days)))"

definition fetch_price_daily ::
  "('f \<Rightarrow> nat) \<Rightarrow> (string \<Rightarrow> 'f json option) \<Rightarrow> int \<Rightarrow> string \<Rightarrow> nat \<Rightarrow> nat \<Rightarrow> 'f json price_result" where
  "fetch_price_daily secs http chain_id token start_ts end_ts =
     (case map_of LLAMA_CHAIN chain_id of
        None \<Rightarrow> PriceList []
      | Some slug \<Rightarrow>
          (let coin = price_coin slug token;
               url = price_url coin start_ts (price_span start_ts end_ts)
           in case Option.bind (http url) (price_points coin) of
                None \<Rightarrow> PriceList []
              | Some points \<Rightarrow>
                  (case Option.bind (iterate points) (\<lambda>ps. by_day secs ps []) of
                     None \<Rightarrow> PriceRaises
                   | Some days \<Rightarrow>
                       PriceList (map (\<lambda>(d, p). \<lparr>price_date = d, price_fiat = [(''USD'', p)]\<rparr>) (sort_key fst days)))))"

section \<open>Quotes by day\<close>

text \<open>A quote as the service writes it.\<close>

definition quote_point :: "nat \<times> 'f json \<Rightarrow> 'f json" where
  "quote_point = (\<lambda>(t, p). JObject [(''timestamp'', JInt (int t)), (''price'', p)])"

lemma by_day_quotes:
  "by_day secs (map quote_point qs) days = Some (fold (\<lambda>(t, p) d. AList.update (t div 86400) p d) qs days)"
  by (induction qs arbitrary: days) (auto simp: quote_point_def point_day_def)

lemma fold_days:
  "distinct (map fst days) \<Longrightarrow> distinct (map fst (fold (\<lambda>(t, p) d. AList.update (t div 86400) p d) qs days)) \<and>
   fst ` set (fold (\<lambda>(t, p) d. AList.update (t div 86400) p d) qs days) = fst ` set days \<union> (\<lambda>(t, p). t div 86400) ` set qs \<and>
   map_of (fold (\<lambda>(t, p) d. AList.update (t div 86400) p d) qs days) =
     map_of days ++ map_of (rev (map (\<lambda>(t, p). (t div 86400, p)) qs))"
  for qs :: "(nat \<times> 'p) list"
proof (induction qs arbitrary: days)
  case (Cons q qs)
  obtain t p where q: "q = (t, p)" by fastforce
  let ?d = "AList.update (t div 86400) p days"
  have d: "distinct (map fst ?d)" using Cons.prems by (simp add: distinct_update)
  have "fst ` set ?d = insert (t div 86400) (fst ` set days)" by (simp add: update_conv' flip: dom_map_of_conv_image_fst)
  moreover have "map_of ?d ++ m = map_of days ++ ([t div 86400 \<mapsto> p] ++ m)" for m
    by (simp add: update_conv')
  ultimately show ?case using Cons.IH [OF d] q by simp
qed simp

lemma sorted_days:
  fixes days :: "(nat \<times> 'p) list"
  assumes "distinct (map fst days)"
  shows "map (\<lambda>(d, p). f d p) (sort_key fst days) =
    map (\<lambda>d. f d (the (map_of days d))) (sorted_list_of_set (fst ` set days))"
proof -
  let ?s = "sort_key fst days"
  have keys: "map fst ?s = sorted_list_of_set (fst ` set days)"
  proof (rule sorted_distinct_set_unique)
    show "distinct (map fst ?s)" using assms by (metis distinct_sort distinct_map set_sort inj_on_def)
  qed simp_all
  have "map (\<lambda>(d, p). f d p) ?s = map (\<lambda>x. f (fst x) (the (map_of days (fst x)))) ?s"
    using assms by (auto simp: map_of_is_SomeI)
  then show ?thesis unfolding keys [symmetric] by (simp add: comp_def)
qed

section \<open>Properties\<close>

text \<open>The baked prices. Of the quotes that the service returns for a supported chain, every day with a quote gets one
  price, the one of its last quote, and the days are in order.\<close>

lemma prices_by_day:
  assumes "map_of LLAMA_CHAIN chain_id = Some slug"
    "http (price_url (price_coin slug token) start_ts (price_span start_ts end_ts)) = Some doc"
    "price_points (price_coin slug token) doc = Some (JList (map quote_point quotes))"
  shows "fetch_price_daily secs http chain_id token start_ts end_ts =
    PriceList (map (\<lambda>d. \<lparr>price_date = d,
        price_fiat = [(''USD'', the (map_of (rev (map (\<lambda>(t, p). (t div 86400, p)) quotes)) d))]\<rparr>)
      (sorted_list_of_set ((\<lambda>(t, p). t div 86400) ` set quotes)))"
proof -
  let ?days = "fold (\<lambda>(t, p) d. AList.update (t div 86400) p d) quotes []"
  note f = fold_days [of "[]" quotes, simplified]
  have "fetch_price_daily secs http chain_id token start_ts end_ts =
      PriceList (map (\<lambda>(d, p). \<lparr>price_date = d, price_fiat = [(''USD'', p)]\<rparr>) (sort_key fst ?days))"
    using assms by (simp add: fetch_price_daily_def Let_def iterate_def by_day_quotes)
  also have "\<dots> = PriceList (map (\<lambda>d. \<lparr>price_date = d, price_fiat = [(''USD'', the (map_of ?days d))]\<rparr>)
      (sorted_list_of_set (fst ` set ?days)))"
    using f by (subst sorted_days) simp_all
  finally show ?thesis using f by simp
qed

text \<open>What fails a sync and what does not. A chain without a price feed, a failed request and a body without the expected
  path give the empty series. But a quote without its price in a body that has the path raises, although the
  documentation of the function promises the empty series for every malformed response.\<close>

lemma malformed_quote_raises:
  assumes "map_of LLAMA_CHAIN chain_id = Some slug" "field ''price'' bad = None"
  shows "(let url = price_url (price_coin slug token) start_ts (price_span start_ts end_ts);
           body = (\<lambda>points. JObject [(''coins'', JObject [(price_coin slug token, JObject [(''prices'', JList points)])])])
     in fetch_price_daily secs (\<lambda>u. None) chain_id token start_ts end_ts = PriceList [] \<and>
        fetch_price_daily secs (\<lambda>u. Some (JObject [])) chain_id token start_ts end_ts = PriceList [] \<and>
        fetch_price_daily secs (\<lambda>u. if u = url then Some (body (map quote_point quotes @ bad # later)) else None)
          chain_id token start_ts end_ts = PriceRaises)"
proof -
  have "by_day secs (map quote_point quotes @ bad # later) days = None" for days
  proof (induction quotes arbitrary: days)
    case Nil
    then show ?case using assms(2) by (simp split: option.splits)
  next
    case (Cons q qs)
    then show ?case by (cases q) (simp add: quote_point_def point_day_def)
  qed
  then show ?thesis using assms(1) by (simp add: fetch_price_daily_def Let_def price_points_def iterate_def field_def)
qed

text \<open>The witnesses: two quotes of one day and one of the next, out of order.\<close>

definition sample_body :: "int json" where
  "sample_body = JObject [(''coins'', JObject [(''gnosis:0xb'', JObject [(''prices'', JList (map quote_point
     [(172805, JFloat 5), (86400, JFloat 2), (86500, JFloat 3)]))])])]"

lemma prices_by_day_witness:
  "fetch_price_daily nat (\<lambda>u. Some sample_body) 100 ''0xb'' 0 86400 =
     PriceList [\<lparr>price_date = 1, price_fiat = [(''USD'', JFloat 3)]\<rparr>, \<lparr>price_date = 2, price_fiat = [(''USD'', JFloat 5)]\<rparr>]"
proof -
  have "price_points (price_coin ''gnosis'' ''0xb'') sample_body =
      Some (JList (map quote_point [(172805, JFloat 5), (86400, JFloat 2), (86500, JFloat 3)]))"
    by (simp add: price_points_def price_coin_def sample_body_def)
  from prices_by_day [where chain_id = 100 and http = "\<lambda>u. Some sample_body" and start_ts = 0 and
      end_ts = 86400 and secs = nat, OF _ _ this] show ?thesis
    by (simp add: LLAMA_CHAIN_def)
qed

lemma malformed_quote_raises_witness:
  "fetch_price_daily nat (\<lambda>u. if u = price_url ''gnosis:0xb'' 0 (price_span 0 86400) then Some (JObject [(''coins'',
       JObject [(''gnosis:0xb'', JObject [(''prices'', JList [JObject [(''timestamp'', JInt 5)]])])])]) else None) 100 ''0xb'' 0 86400 =
     PriceRaises"
  using malformed_quote_raises [of 100 "''gnosis''" "JObject [(''timestamp'', JInt 5)]" "''0xb''" 0 86400 nat "[]" "[]"]
  by (simp add: LLAMA_CHAIN_def price_coin_def Let_def cong: if_cong)

end
