(* ===== verification/IndexerCli.thy ===== *)
theory IndexerCli
  imports IndexerPrices
begin

text \<open>
  The two commands of \<open>services/indexer/src/ethswarm_volumes/cli.py\<close>, \<open>cmd_sync\<close> and \<open>cmd_stat\<close>, over the components they
  call, with \<open>resolve_extra\<close> of \<open>node.py\<close> and the two requests of a range of \<open>acquire.py\<close>. The state is the store's
  directories and the artifact file. The node, the price service, the clock and the file system's answer to the final write are
  parameters; any request of the node may fail, and is then \<open>None\<close>. An outcome \<open>Raises\<close> is an exception that the
  command does not catch, or a value that a field of the model cannot hold. A log's first topic is the signature
  it hashes. The store's own writes succeed here; what a write that stops early leaves there is \<open>IndexerFiles\<close>'s
  subject. What is printed is left out, but for the view.
\<close>

section \<open>The node\<close>

record 'f node =
  nd_connected :: bool
  nd_chain_id :: "nat option"
  nd_finalized :: "int option"
  nd_block_number :: "nat option"
  nd_has_code :: "string \<Rightarrow> nat \<Rightarrow> bool option"
  nd_call :: "string \<Rightarrow> string \<Rightarrow> 'f json option"
  nd_get_logs :: "int \<Rightarrow> int \<Rightarrow> string \<Rightarrow> string list option \<Rightarrow> raw_log list option"
  nd_block_ts :: "int \<Rightarrow> nat option"

text \<open>\<open>resolve_extra\<close>: the price oracle is left out when its call fails.\<close>

definition resolve_extra :: "'f node \<Rightarrow> string \<Rightarrow> (string \<times> 'f json) list option" where
  "resolve_extra nd registry =
     do {
       postage \<leftarrow> nd_call nd registry ''postage'';
       bzz \<leftarrow> nd_call nd registry ''bzz'';
       grace_blocks \<leftarrow> nd_call nd registry ''graceBlocks'';
       stamp \<leftarrow> as_text postage;
       Some ([(''grace_blocks'', grace_blocks), (''postage'', postage), (''bzz'', bzz)]
         @ (case nd_call nd stamp ''priceOracle'' of None \<Rightarrow> [] | Some oracle \<Rightarrow> [(''price_oracle'', oracle)]))
     }"

section \<open>One range of logs\<close>

definition TRANSFER_TOPIC :: string where
  "TRANSFER_TOPIC = ''Transfer(address,address,uint256)''"

definition topic_address :: "string \<Rightarrow> string" where
  "topic_address address =
     (let hex = lower_text (drop 2 address) in ''0x'' @ replicate (64 - length hex) (CHR ''0'') @ hex)"

definition range_logs :: "'f node \<Rightarrow> string \<Rightarrow> string \<Rightarrow> string \<Rightarrow> int \<times> int \<Rightarrow> raw_log list option" where
  "range_logs nd registry bzz_token postage = (\<lambda>(a, e).
     do {
       logs \<leftarrow> nd_get_logs nd a e registry None;
       fees \<leftarrow> nd_get_logs nd a e bzz_token (Some [TRANSFER_TOPIC, topic_address registry, topic_address postage]);
       Some (logs @ fees)
     })"

fun decode_logs :: "deployment_id \<Rightarrow> string \<Rightarrow> raw_log list \<Rightarrow> decode_error + event_row list" where
  "decode_logs dep version [] = Inr []"
| "decode_logs dep version (l # ls) =
     (case decode_log dep version l of
        Inl e \<Rightarrow> Inl e
      | Inr r \<Rightarrow> (case decode_logs dep version ls of Inl e \<Rightarrow> Inl e | Inr rs \<Rightarrow> Inr (r # rs)))"

text \<open>What a step of a sync of one deployment ends in: a value, the exception \<open>cmd_sync\<close> catches, or any other.\<close>

datatype 'a spec_result = Projected 'a | MissingTimestamp | SpecRaises

definition CHUNK_SIZE :: int where
  "CHUNK_SIZE = 10000"

definition spec_id :: "deployment_spec \<Rightarrow> deployment_id" where
  "spec_id s = (int (spec_chain_id s), spec_registry s)"

definition decode_range :: "'f node \<Rightarrow> deployment_spec \<Rightarrow> string \<Rightarrow> string \<Rightarrow> int \<times> int \<Rightarrow> event_row list spec_result" where
  "decode_range nd spec bzz postage r =
     (case range_logs nd (spec_registry spec) bzz postage r of
        None \<Rightarrow> SpecRaises
      | Some raw \<Rightarrow>
          (case decode_logs (spec_id spec) (spec_version spec) raw of
             Inl KeyError \<Rightarrow> SpecRaises
           | Inl MissingBlockTimestampError \<Rightarrow> MissingTimestamp
           | Inr rows \<Rightarrow> Projected rows))"

text \<open>Range by range: a range that is not read or does not decode is not stored, the ranges before it are.\<close>

fun sync_ranges ::
  "((string \<rightharpoonup> arg) \<Rightarrow> (string \<times> arg) list) \<Rightarrow> (int \<times> int \<Rightarrow> event_row list spec_result) \<Rightarrow> (int \<times> int) list \<Rightarrow>
     text_dir \<Rightarrow> event_row list \<Rightarrow> event_row list spec_result \<times> text_dir" where
  "sync_ranges items decoded [] d fresh = (Projected fresh, d)"
| "sync_ranges items decoded ((a, e) # cs) d fresh =
     (case decoded (a, e) of
        Projected rows \<Rightarrow> sync_ranges items decoded cs (save_head_text e (append_text items rows d)) (fresh @ rows)
      | MissingTimestamp \<Rightarrow> (MissingTimestamp, d)
      | SpecRaises \<Rightarrow> (SpecRaises, d))"

section \<open>One deployment\<close>

text \<open>A baked price is a float; a whole number that the service sends is read by \<open>whole\<close>.\<close>

definition bake :: "(int \<Rightarrow> 'f) \<Rightarrow> 'f json daily_price \<Rightarrow> 'f daily_price option" where
  "bake whole p =
     map_option (\<lambda>rates. \<lparr>price_date = price_date p, price_fiat = rates\<rparr>)
       (those (map (\<lambda>(c, x). case x of JFloat f \<Rightarrow> Some (c, f) | JInt i \<Rightarrow> Some (c, whole i) | _ \<Rightarrow> None) (price_fiat p)))"

text \<open>The final write of the artifact, \<open>path.write_text\<close>: opening the file empties it, so a write that raises leaves the
  old text when the file is not opened, and otherwise the beginning of the new one.\<close>

datatype write_outcome = Written | Unopened | Cut nat

text \<open>The arithmetic of floats and the services a sync uses; the clock is in microseconds.\<close>

record 'f services =
  sv_items :: "(string \<rightharpoonup> arg) \<Rightarrow> (string \<times> arg) list"
  sv_bzz :: "int \<Rightarrow> 'f"
  sv_sum :: "'f list \<Rightarrow> 'f"
  sv_mul :: "'f \<Rightarrow> 'f \<Rightarrow> 'f"
  sv_zero :: 'f
  sv_whole :: "int \<Rightarrow> 'f"
  sv_secs :: "'f \<Rightarrow> nat"
  sv_show :: "'f \<Rightarrow> string"
  sv_read :: "string \<Rightarrow> 'f"
  sv_http :: "string \<Rightarrow> 'f json option"
  sv_now :: nat
  sv_write :: "string \<Rightarrow> write_outcome"

definition baked_prices :: "'f services \<Rightarrow> int \<Rightarrow> string \<Rightarrow> nat \<Rightarrow> nat \<Rightarrow> 'f daily_price list option" where
  "baked_prices sv chain_id token start_ts end_ts =
     (case fetch_price_daily (sv_secs sv) (sv_http sv) chain_id token start_ts end_ts of
        PriceRaises \<Rightarrow> None
      | PriceList ps \<Rightarrow> those (map (bake (sv_whole sv)) ps))"

text \<open>What follows the ranges: times, prices, projection.\<close>

definition project_spec ::
  "'f services \<Rightarrow> 'f node \<Rightarrow> deployment_spec \<Rightarrow> nat \<Rightarrow> (string \<times> 'f json) list \<Rightarrow> string \<Rightarrow> int \<Rightarrow> event_log \<Rightarrow> 'f entry option" where
  "project_spec sv nd spec genesis extra bzz head_block events =
     do {
       as_of_ts \<leftarrow> nd_block_ts nd head_block;
       genesis_ts \<leftarrow> nd_block_ts nd (int genesis);
       price_daily \<leftarrow> baked_prices sv (int (spec_chain_id spec)) bzz genesis_ts as_of_ts;
       project_entry (sv_bzz sv) (sv_sum sv) (sv_zero sv)
         \<lparr>dep_label = spec_label spec, dep_chain_id = int (spec_chain_id spec), dep_registry = spec_registry spec,
          dep_version = spec_version spec, dep_genesis_ts = genesis_ts,
          dep_fiat = (if price_daily = [] then [] else [''USD'']), dep_extra = JObject extra\<rparr>
         events price_daily head_block as_of_ts
     }"

definition sync_and_project ::
  "'f services \<Rightarrow> 'f node \<Rightarrow> deployment_spec \<Rightarrow> int \<Rightarrow> text_dir \<Rightarrow> 'f entry spec_result \<times> text_dir" where
  "sync_and_project sv nd spec head_block d =
     (case (case spec_genesis_block spec of
              Some g \<Rightarrow> Some g
            | None \<Rightarrow> Option.bind (nd_block_number nd) (find_genesis_block (nd_has_code nd (spec_registry spec)))) of
        None \<Rightarrow> (SpecRaises, d)
      | Some genesis \<Rightarrow>
     (case do { extra \<leftarrow> resolve_extra nd (spec_registry spec);
                bzz \<leftarrow> Option.bind (map_of extra ''bzz'') as_text;
                postage \<leftarrow> Option.bind (map_of extra ''postage'') as_text;
                prior \<leftarrow> load_text d;
                head \<leftarrow> load_head_text d;
                cs \<leftarrow> log_chunks CHUNK_SIZE (case head of None \<Rightarrow> int genesis | Some h \<Rightarrow> h + 1) head_block;
                Some (extra, bzz, postage, prior, cs) } of
        None \<Rightarrow> (SpecRaises, d)
      | Some (extra, bzz, postage, prior, cs) \<Rightarrow>
     (case sync_ranges (sv_items sv) (decode_range nd spec bzz postage) cs d [] of
        (SpecRaises, d') \<Rightarrow> (SpecRaises, d')
      | (MissingTimestamp, d') \<Rightarrow> (MissingTimestamp, d')
      | (Projected fresh, d') \<Rightarrow>
          (case project_spec sv nd spec genesis extra bzz head_block (from_rows (log_merged prior @ fresh)) of
             None \<Rightarrow> (SpecRaises, d')
           | Some e \<Rightarrow> (Projected e, d')))))"

section \<open>The sync command\<close>

record disk =
  dk_dirs :: "deployment_id \<Rightarrow> text_dir"
  dk_artifact :: "string option"

datatype outcome = Exit nat | Raises

fun sync_specs ::
  "'f services \<Rightarrow> 'f node \<Rightarrow> int \<Rightarrow> deployment_spec list \<Rightarrow> (deployment_id \<Rightarrow> text_dir) \<Rightarrow>
     'f entry list spec_result \<times> (deployment_id \<Rightarrow> text_dir)" where
  "sync_specs sv nd head_block [] dirs = (Projected [], dirs)"
| "sync_specs sv nd head_block (spec # specs) dirs =
     (case sync_and_project sv nd spec head_block (dirs (spec_id spec)) of
        (MissingTimestamp, d) \<Rightarrow> (MissingTimestamp, dirs(spec_id spec := d))
      | (SpecRaises, d) \<Rightarrow> (SpecRaises, dirs(spec_id spec := d))
      | (Projected e, d) \<Rightarrow>
          (case sync_specs sv nd head_block specs (dirs(spec_id spec := d)) of
             (Projected es, dirs') \<Rightarrow> (Projected (e # es), dirs')
           | (r, dirs') \<Rightarrow> (r, dirs')))"

record sync_args =
  sa_deployment :: "string option"
  sa_rpc :: "string option"
  sa_to_block :: "int option"

definition CHAIN_SHORT_NAMES :: "(nat \<times> string) list" where
  "CHAIN_SHORT_NAMES = [(1, ''ETH''), (100, ''GNO''), (11155111, ''SEP'')]"

definition rpc_env :: "nat \<Rightarrow> string option" where
  "rpc_env chain_id = map_option (\<lambda>short. short @ ''_RPC_URL'') (map_of CHAIN_SHORT_NAMES chain_id)"

text \<open>\<open>args.rpc or (os.environ.get(env) if env else None)\<close>, of which the empty string is none.\<close>

definition rpc_url :: "(string \<rightharpoonup> string) \<Rightarrow> string option \<Rightarrow> nat \<Rightarrow> string option" where
  "rpc_url environ rpc chain_id =
     (case rpc of
        Some (c # cs) \<Rightarrow> rpc
      | _ \<Rightarrow> (case Option.bind (rpc_env chain_id) environ of Some (c # cs) \<Rightarrow> Some (c # cs) | _ \<Rightarrow> None))"

definition entry_named :: "'f entry \<Rightarrow> named" where
  "entry_named e = \<lparr>nm_label = dep_label (ent_deployment e), nm_chain_id = nat (dep_chain_id (ent_deployment e)),
     nm_registry = dep_registry (ent_deployment e)\<rparr>"

definition merged_artifact :: "'f services \<Rightarrow> fleet \<Rightarrow> 'f artifact option \<Rightarrow> 'f entry list \<Rightarrow> 'f artifact" where
  "merged_artifact sv reg existing entries =
     (let old = (case existing of None \<Rightarrow> [] | Some a \<Rightarrow> art_deployments a);
          latest = (case existing of None \<Rightarrow> [] | Some a \<Rightarrow> art_latest a);
          deployments = merge_entries entry_named old entries
      in \<lparr>art_schema_version = SCHEMA_VERSION, art_generated_at = sv_now sv, art_deployments = deployments,
          art_latest = merge_latest entry_named deployments latest (fleet_latest reg)\<rparr>)"

definition load_existing :: "'f services \<Rightarrow> disk \<Rightarrow> 'f artifact option option" where
  "load_existing sv dk =
     (case dk_artifact dk of None \<Rightarrow> Some None | Some s \<Rightarrow> map_option Some (artifact_from_json (sv_read sv) s))"

definition artifact_text :: "'f services \<Rightarrow> 'f artifact \<Rightarrow> string" where
  "artifact_text sv a = artifact_to_json (sv_show sv) a @ [CHR 0x0A]"

definition publish :: "'f services \<Rightarrow> fleet \<Rightarrow> 'f entry list \<Rightarrow> disk \<Rightarrow> outcome \<times> disk" where
  "publish sv reg entries dk =
     (case load_existing sv dk of
        None \<Rightarrow> (Raises, dk)
      | Some existing \<Rightarrow>
          (let text_out = artifact_text sv (merged_artifact sv reg existing entries)
           in case sv_write sv text_out of
                Written \<Rightarrow> (Exit 0, dk\<lparr>dk_artifact := Some text_out\<rparr>)
              | Unopened \<Rightarrow> (Raises, dk)
              | Cut k \<Rightarrow> (Raises, dk\<lparr>dk_artifact := Some (take k text_out)\<rparr>)))"

text \<open>The deployment a sync names, if it names one; \<open>None\<close> is an unknown name.\<close>

definition chosen_spec :: "fleet \<Rightarrow> string option \<Rightarrow> deployment_spec option option" where
  "chosen_spec reg deployment =
     (case deployment of Some (c # cs) \<Rightarrow> map_option Some (select reg deployment) | _ \<Rightarrow> Some None)"

text \<open>The targets, once the node is connected: the chosen deployment, or every deployment of the node's chain.\<close>

definition targets_on :: "fleet \<Rightarrow> deployment_spec option \<Rightarrow> nat \<Rightarrow> deployment_spec list" where
  "targets_on reg chosen chain_id =
     (case chosen of
        Some c \<Rightarrow> if spec_chain_id c \<noteq> chain_id then [] else [c]
      | None \<Rightarrow> filter (\<lambda>s. spec_chain_id s = chain_id) (fleet_deployments reg))"

definition cmd_sync ::
  "'f services \<Rightarrow> (string \<Rightarrow> 'f node) \<Rightarrow> (string \<rightharpoonup> string) \<Rightarrow> raw_document \<Rightarrow> sync_args \<Rightarrow> disk \<Rightarrow> outcome \<times> disk" where
  "cmd_sync sv connect environ config args dk =
     (case fleet_from_dict config of
        Inl e \<Rightarrow> (Exit 2, dk)
      | Inr reg \<Rightarrow>
     (case chosen_spec reg (sa_deployment args) of
        None \<Rightarrow> (Exit 2, dk)
      | Some chosen \<Rightarrow>
     (case rpc_url environ (sa_rpc args) (case chosen of None \<Rightarrow> 100 | Some c \<Rightarrow> spec_chain_id c) of
        None \<Rightarrow> (Exit 2, dk)
      | Some url \<Rightarrow>
          (let nd = connect url
           in if \<not> nd_connected nd then (Exit 2, dk)
              else
     (case nd_chain_id nd of
        None \<Rightarrow> (Raises, dk)
      | Some chain_id \<Rightarrow>
          (let targets = targets_on reg chosen chain_id
           in if targets = [] then (Exit 2, dk)
              else
     (case (case sa_to_block args of Some b \<Rightarrow> Some b | None \<Rightarrow> nd_finalized nd) of
        None \<Rightarrow> (Raises, dk)
      | Some head_block \<Rightarrow>
          if unsupported targets \<noteq> [] then (Exit 2, dk)
          else
            (case sync_specs sv nd head_block targets (dk_dirs dk) of
               (MissingTimestamp, dirs) \<Rightarrow> (Exit 2, dk\<lparr>dk_dirs := dirs\<rparr>)
             | (SpecRaises, dirs) \<Rightarrow> (Raises, dk\<lparr>dk_dirs := dirs\<rparr>)
             | (Projected entries, dirs) \<Rightarrow> publish sv reg entries (dk\<lparr>dk_dirs := dirs\<rparr>)))))))))"

section \<open>The stat command\<close>

datatype 'f stat_outcome = StatExit nat | StatRaises | StatView string "'f resolved_view"

definition cmd_stat ::
  "'f services \<Rightarrow> raw_document \<Rightarrow> string option \<Rightarrow> view_options \<Rightarrow> disk \<Rightarrow> 'f stat_outcome" where
  "cmd_stat sv config selector opts dk =
     (case fleet_from_dict config of
        Inl e \<Rightarrow> StatExit 2
      | Inr reg \<Rightarrow>
     (case dk_artifact dk of
        None \<Rightarrow> StatExit 2
      | Some s \<Rightarrow>
     (case artifact_from_json (sv_read sv) s of
        None \<Rightarrow> StatRaises
      | Some a \<Rightarrow>
          (let labels = map (\<lambda>e. dep_label (ent_deployment e)) (art_deployments a) in
           if (case selector of
                 None \<Rightarrow> False
               | Some n \<Rightarrow> (case map_of (fleet_latest reg) n of None \<Rightarrow> False | Some l \<Rightarrow> n \<notin> set labels \<and> l \<notin> set labels))
           then StatExit 2
           else
             (case resolve entry_named (art_deployments a) (fleet_latest reg) selector of
                None \<Rightarrow> StatExit 2
              | Some e \<Rightarrow>
                  (case resolve_view (sv_sum sv) (sv_mul sv) (sv_zero sv) e opts of
                     Inl ViewValueError \<Rightarrow> StatExit 2
                   | Inl ViewKeyError \<Rightarrow> StatRaises
                   | Inr v \<Rightarrow> StatView (dep_label (ent_deployment e)) v))))))"

section \<open>What a sync leaves\<close>

lemma sync_specs_dirs:
  "sync_specs sv nd head_block specs dirs = (r, dirs') \<Longrightarrow> i \<notin> spec_id ` set specs \<Longrightarrow> dirs' i = dirs i"
proof (induction specs arbitrary: dirs dirs' r)
  case (Cons spec specs)
  obtain q d where run: "sync_and_project sv nd spec head_block (dirs (spec_id spec)) = (q, d)" by fastforce
  have "(dirs(spec_id spec := d)) i = dirs i" using Cons.prems(2) by simp
  moreover obtain r2 dirs2 where rest: "sync_specs sv nd head_block specs (dirs(spec_id spec := d)) = (r2, dirs2)" by fastforce
  moreover have "dirs2 i = (dirs(spec_id spec := d)) i" by (rule Cons.IH [OF rest]) (use Cons.prems(2) in simp)
  ultimately show ?case using Cons.prems(1) run by (cases q; cases r2) auto
qed simp

lemma find_member: "find P xs = Some x \<Longrightarrow> x \<in> set xs"
  by (auto simp: find_Some_iff)

lemma resolve_member: "resolve nm items latest sel = Some i \<Longrightarrow> i \<in> set items"
proof -
  have "by_label l items x = Some j \<Longrightarrow> j \<in> set items" for l x and j by (rule by_label_some [THEN conjunct1])
  then show "resolve nm items latest sel = Some i \<Longrightarrow> i \<in> set items"
    by (auto simp: resolve_def Let_def find_member bind_eq_Some_conv split: option.splits list.splits dest: find_member)
qed

lemma load_existing_dirs [simp]: "load_existing sv (dk\<lparr>dk_dirs := dirs\<rparr>) = load_existing sv dk"
  by (simp add: load_existing_def)

lemma publish_keeps: "publish sv reg es dk = (out, dk') \<Longrightarrow> dk_dirs dk' = dk_dirs dk"
  by (auto simp: publish_def Let_def split: option.splits write_outcome.splits)

text \<open>What may become of the file when its new text is \<open>t\<close>.\<close>

definition written :: "'f services \<Rightarrow> outcome \<Rightarrow> string \<Rightarrow> string option \<Rightarrow> string option \<Rightarrow> bool" where
  "written sv out t old new =
     (case sv_write sv t of
        Written \<Rightarrow> out = Exit 0 \<and> new = Some t
      | Unopened \<Rightarrow> out = Raises \<and> new = old
      | Cut k \<Rightarrow> out = Raises \<and> new = Some (take k t))"

lemma publish_writes:
  assumes "publish sv reg es dk = (out, dk')"
  shows "(case load_existing sv dk of
      None \<Rightarrow> out = Raises \<and> dk_artifact dk' = dk_artifact dk
    | Some old \<Rightarrow> written sv out (artifact_text sv (merged_artifact sv reg old es)) (dk_artifact dk) (dk_artifact dk'))"
  using assms by (auto simp: publish_def written_def Let_def split: option.splits write_outcome.splits)

text \<open>A run of the command, where it gets past its checks.\<close>

lemma cmd_sync_cases:
  assumes "cmd_sync sv connect environ config args dk = (out, dk')"
  obtains "out \<noteq> Exit 0" "dk' = dk"
  | reg url chosen chain_id head_block targets r dirs where
      "fleet_from_dict config = Inr reg" "chosen_spec reg (sa_deployment args) = Some chosen"
      "nd_chain_id (connect url) = Some chain_id"
      "(case sa_to_block args of Some b \<Rightarrow> Some b | None \<Rightarrow> nd_finalized (connect url)) = Some head_block"
      "targets = targets_on reg chosen chain_id" "targets \<noteq> []" "set targets \<subseteq> set (fleet_deployments reg)"
      "sync_specs sv (connect url) head_block targets (dk_dirs dk) = (r, dirs)"
      "(out, dk') = (case r of
          MissingTimestamp \<Rightarrow> (Exit 2, dk\<lparr>dk_dirs := dirs\<rparr>)
        | SpecRaises \<Rightarrow> (Raises, dk\<lparr>dk_dirs := dirs\<rparr>)
        | Projected es \<Rightarrow> publish sv reg es (dk\<lparr>dk_dirs := dirs\<rparr>))"
proof (cases "\<exists>o'. o' \<noteq> Exit 0 \<and> (out, dk') = (o', dk)")
  case True
  then show thesis using that(1) by auto
next
  case False
  then have go: "(out, dk') \<noteq> (Exit 2, dk)" "(out, dk') \<noteq> (Raises, dk)" by auto
  obtain reg where reg: "fleet_from_dict config = Inr reg"
    using assms go by (cases "fleet_from_dict config") (simp_all add: cmd_sync_def)
  obtain chosen where chosen: "chosen_spec reg (sa_deployment args) = Some chosen"
    using assms go reg by (cases "chosen_spec reg (sa_deployment args)") (simp_all add: cmd_sync_def)
  obtain url where url: "rpc_url environ (sa_rpc args) (case chosen of None \<Rightarrow> 100 | Some c \<Rightarrow> spec_chain_id c) = Some url"
    using assms go reg chosen
    by (cases "rpc_url environ (sa_rpc args) (case chosen of None \<Rightarrow> 100 | Some c \<Rightarrow> spec_chain_id c)") (simp_all add: cmd_sync_def)
  have connected: "nd_connected (connect url)"
    using assms go reg chosen url by (cases "nd_connected (connect url)") (simp_all add: cmd_sync_def Let_def)
  obtain c where c: "nd_chain_id (connect url) = Some c"
    using assms go reg chosen url connected by (cases "nd_chain_id (connect url)") (simp_all add: cmd_sync_def Let_def)
  have some: "targets_on reg chosen c \<noteq> []"
    using assms go reg chosen url connected c by (cases "targets_on reg chosen c = []") (simp_all add: cmd_sync_def Let_def)
  obtain h where h: "(case sa_to_block args of Some b \<Rightarrow> Some b | None \<Rightarrow> nd_finalized (connect url)) = Some h"
    using assms go reg chosen url connected c some
    by (cases "case sa_to_block args of Some b \<Rightarrow> Some b | None \<Rightarrow> nd_finalized (connect url)") (simp_all add: cmd_sync_def Let_def)
  have sup: "unsupported (targets_on reg chosen c) = []"
    using assms go reg chosen url connected c some h
    by (cases "unsupported (targets_on reg chosen c) = []") (simp_all add: cmd_sync_def Let_def)
  obtain r dirs where run: "sync_specs sv (connect url) h (targets_on reg chosen c) (dk_dirs dk) = (r, dirs)" by fastforce
  have "x \<in> set (fleet_deployments reg)" if "chosen = Some x" for x
    using chosen that by (auto simp: chosen_spec_def select_def split: option.splits list.splits dest!: resolve_member)
  then have sub: "set (targets_on reg chosen c) \<subseteq> set (fleet_deployments reg)"
    by (auto simp: targets_on_def split: option.splits if_splits)
  have "(out, dk') = (case r of
          MissingTimestamp \<Rightarrow> (Exit 2, dk\<lparr>dk_dirs := dirs\<rparr>)
        | SpecRaises \<Rightarrow> (Raises, dk\<lparr>dk_dirs := dirs\<rparr>)
        | Projected es \<Rightarrow> publish sv reg es (dk\<lparr>dk_dirs := dirs\<rparr>))"
    using assms reg chosen url connected c some h sup run by (cases r) (simp_all add: cmd_sync_def Let_def)
  then show thesis by (rule that(2) [OF reg chosen c h refl some sub run])
qed

section \<open>What a sync publishes\<close>

lemma project_entry_deployment:
  "project_entry bzz fsum fzero d events prices block as_of = Some e \<Longrightarrow> ent_deployment e = d"
  by (auto simp: project_entry_def Let_def split: option.splits if_splits)

lemma synced_entry:
  assumes "sync_and_project sv nd spec head_block d = (Projected e, d')"
  shows "entry_named e = spec_named spec"
proof -
  obtain genesis extra bzz events where "project_spec sv nd spec genesis extra bzz head_block events = Some e"
    using assms by (auto simp: sync_and_project_def split: option.splits prod.splits spec_result.splits)
  then show ?thesis
    by (auto simp: project_spec_def bind_eq_Some_conv entry_named_def spec_named_def dest: project_entry_deployment)
qed

lemma sync_specs_entries:
  "sync_specs sv nd head_block specs dirs = (Projected es, dirs') \<Longrightarrow> map entry_named es = map spec_named specs"
proof (induction specs arbitrary: dirs dirs' es)
  case (Cons spec specs)
  obtain e d where e: "sync_and_project sv nd spec head_block (dirs (spec_id spec)) = (Projected e, d)"
    using Cons.prems by (cases "sync_and_project sv nd spec head_block (dirs (spec_id spec))") (auto split: spec_result.splits)
  obtain es' dirs'' where "sync_specs sv nd head_block specs (dirs(spec_id spec := d)) = (Projected es', dirs'')" "es = e # es'"
    using Cons.prems e by (auto split: spec_result.splits prod.splits)
  then show ?case using Cons.IH synced_entry [OF e] by simp
qed simp

lemma merge_first:
  assumes "distinct (map (entry_id nm) es)"
  shows "merge_entries nm [] es = es"
proof -
  have "distinct (map (entry_id nm) (xs @ ys)) \<Longrightarrow>
      fold (\<lambda>e d. AList.update (entry_id nm e) e d) ys (map (\<lambda>e. (entry_id nm e, e)) xs) =
      map (\<lambda>e. (entry_id nm e, e)) (xs @ ys)" for xs ys
  proof (induction ys arbitrary: xs)
    case (Cons y ys)
    have "AList.update (entry_id nm y) y (map (\<lambda>e. (entry_id nm e, e)) xs) = map (\<lambda>e. (entry_id nm e, e)) (xs @ [y])"
      using Cons.prems by (subst update_new) auto
    then show ?case using Cons.IH [of "xs @ [y]"] Cons.prems by simp
  qed simp
  from this [of "[]" es] assms show ?thesis by (simp add: merge_entries_def comp_def)
qed

lemma merged_latest_distinct:
  assumes "distinct (map fst old)"
  shows "distinct (map fst (merge_latest nm ds old new))"
proof -
  have "distinct (map fst (fold (\<lambda>(net, label) d. AList.update net label d) new d))" if "distinct (map fst d)" for d
    using that by (induction new arbitrary: d) (auto simp: distinct_update)
  from this [OF assms] show ?thesis unfolding merge_latest_def by (rule distinct_map_filter)
qed

lemma same_keys: "map f es = map g ts \<Longrightarrow> (\<And>e. e \<in> set es \<Longrightarrow> P (f e) e) \<Longrightarrow> list_all2 (\<lambda>t e. P (g t) e) ts es"
proof (induction es arbitrary: ts)
  case (Cons e es)
  obtain t ts' where t: "ts = t # ts'" "f e = g t" "map f es = map g ts'" using Cons.prems(1) by auto
  have "P (f e) e" by (rule Cons.prems(2)) simp
  moreover have "list_all2 (\<lambda>t e. P (g t) e) ts' es" by (rule Cons.IH [OF t(3)]) (rule Cons.prems(2), simp)
  ultimately show ?case by (simp add: t(1,2))
qed simp

text \<open>The outcome of \<open>stat\<close> for an entry.\<close>

definition stat_of_entry :: "'f services \<Rightarrow> view_options \<Rightarrow> 'f entry \<Rightarrow> 'f stat_outcome" where
  "stat_of_entry sv opts e =
     (case resolve_view (sv_sum sv) (sv_mul sv) (sv_zero sv) e opts of
        Inl ViewValueError \<Rightarrow> StatExit 2
      | Inl ViewKeyError \<Rightarrow> StatRaises
      | Inr v \<Rightarrow> StatView (dep_label (ent_deployment e)) v)"

lemma stat_label:
  assumes "fleet_from_dict config = Inr reg" "dk_artifact dk = Some s" "artifact_from_json (sv_read sv) s = Some a"
    "distinct (map (\<lambda>e. nm_label (entry_named e)) (art_deployments a))" "e \<in> set (art_deployments a)"
  shows "cmd_stat sv config (Some (nm_label (entry_named e))) opts dk = stat_of_entry sv opts e"
proof -
  have "by_label (\<lambda>e. nm_label (entry_named e)) (art_deployments a) (nm_label (entry_named e)) = Some e"
    using by_label_distinct [OF assms(4,5)] .
  then have "resolve entry_named (art_deployments a) (fleet_latest reg) (Some (nm_label (entry_named e))) = Some e"
    by (simp add: resolve_def Let_def)
  moreover have "nm_label (entry_named e) \<in> set (map (\<lambda>e. dep_label (ent_deployment e)) (art_deployments a))"
    using assms(5) by (simp add: entry_named_def)
  ultimately show ?thesis using assms(1-3)
    by (simp add: cmd_stat_def Let_def stat_of_entry_def split: option.splits sum.splits view_error.splits)
qed

lemma first_publication:
  assumes es: "distinct (map (entry_id entry_named) es)" "list_all (entry_ok (sv_read sv) (sv_show sv)) es"
    and now: "sv_now sv < TIME_LIMIT * SECOND" and none: "dk_artifact dk = None"
    and run: "publish sv reg es dk = (Exit 0, dk')"
  shows "\<exists>s a. dk_artifact dk' = Some s \<and> artifact_from_json (sv_read sv) s = Some a \<and> art_deployments a = es"
proof -
  let ?a = "merged_artifact sv reg None es"
  have deployments: "art_deployments ?a = es" by (simp add: merged_artifact_def Let_def merge_first [OF es(1)])
  have "artifact_ok (sv_read sv) (sv_show sv) ?a"
    using es(2) now merged_latest_distinct [of "[]"]
    by (simp add: artifact_ok_def deployments) (simp add: merged_artifact_def Let_def)
  from artifact_round [OF this] deployments show ?thesis
    using publish_writes [OF run] none
    by (auto simp: load_existing_def written_def artifact_text_def split: write_outcome.splits)
qed

text \<open>A file cut before the end of its JSON text is not read: until somebody repairs it, every further \<open>sync\<close> that gets to
  the file and every \<open>stat\<close> ends in an exception.\<close>

lemma cut_publication_blocks:
  assumes "artifact_ok (sv_read sv) (sv_show sv) a" "k < length (artifact_to_json (sv_show sv) a)"
    and "dk_artifact dk = Some (take k (artifact_text sv a))"
  shows "publish sv reg es dk = (Raises, dk)"
    and "fleet_from_dict config = Inr reg' \<Longrightarrow> cmd_stat sv config selector opts dk = StatRaises"
proof -
  have "dk_artifact dk = Some (take k (artifact_to_json (sv_show sv) a))" using assms(2,3) by (simp add: artifact_text_def)
  then have unread: "artifact_from_json (sv_read sv) (the (dk_artifact dk)) = None" "dk_artifact dk \<noteq> None"
    using cut_artifact [OF assms(1,2)] by auto
  then show "publish sv reg es dk = (Raises, dk)" by (auto simp: publish_def load_existing_def)
  show "fleet_from_dict config = Inr reg' \<Longrightarrow> cmd_stat sv config selector opts dk = StatRaises"
    using unread by (auto simp: cmd_stat_def)
qed

text \<open>Ranges whose logs decode are the ranges of the row store.\<close>

lemma sync_ranges_text:
  assumes "\<And>a e. decoded (a, e) = Projected (fetch a e)"
  shows "sync_ranges items decoded cs (text_of items d) fresh =
    (Projected (fresh @ concat (map (\<lambda>(a, e). fetch a e) cs)), text_of items (foldl (sync_chunk fetch) d cs))"
  by (induction cs arbitrary: d fresh) (auto simp: assms append_text_of save_head_text_of sync_chunk_def)

section \<open>Properties\<close>

text \<open>C27: What a sync may change. Whatever the node, the price service, the disk and the files hold: a sync that ends with exit
  code 0 has replaced the published file by the whole text of what was read from it, merged with the entries that it projected for its targets;
  a refusal (exit code 2) leaves the file as it was, and so does an exception, except one out of the final write
  itself, which is not atomic and leaves the beginning of the new text. The
  directories that change are those of deployments that the registry names.\<close>

theorem only_success_publishes:
  "(case cmd_sync sv connect environ config args dk of
      (out, dk') \<Rightarrow>
        (if out = Exit 0
         then \<exists>reg chosen url chain_id head_block old es.
           fleet_from_dict config = Inr reg \<and> chosen_spec reg (sa_deployment args) = Some chosen \<and>
           nd_chain_id (connect url) = Some chain_id \<and>
           sync_specs sv (connect url) head_block (targets_on reg chosen chain_id) (dk_dirs dk) = (Projected es, dk_dirs dk') \<and>
           load_existing sv dk = Some old \<and>
           dk_artifact dk' = Some (artifact_text sv (merged_artifact sv reg old es))
         else dk_artifact dk' = dk_artifact dk \<or>
           out = Raises \<and> (\<exists>reg old es k. load_existing sv dk = Some old \<and>
             sv_write sv (artifact_text sv (merged_artifact sv reg old es)) = Cut k \<and>
             dk_artifact dk' = Some (take k (artifact_text sv (merged_artifact sv reg old es))))) \<and>
        (dk_dirs dk' i = dk_dirs dk i \<or>
         (\<exists>reg. fleet_from_dict config = Inr reg \<and> i \<in> spec_id ` set (fleet_deployments reg))))"
proof -
  obtain out dk' where run: "cmd_sync sv connect environ config args dk = (out, dk')" by fastforce
  from run show ?thesis
  proof (cases rule: cmd_sync_cases)
    case 1
    then show ?thesis by (simp add: run)
  next
    case (2 reg url chosen chain_id head_block targets r dirs)
    have "dirs i = dk_dirs dk i \<or> i \<in> spec_id ` set (fleet_deployments reg)"
      using sync_specs_dirs [OF 2(8), of i] 2(7) by blast
    then show ?thesis
    proof (cases r)
      case (Projected es)
      then have p: "publish sv reg es (dk\<lparr>dk_dirs := dirs\<rparr>) = (out, dk')" using 2(9) by simp
      have ran: "sync_specs sv (connect url) head_block (targets_on reg chosen chain_id) (dk_dirs dk) = (Projected es, dk_dirs dk')"
        using 2(5,8) Projected publish_keeps [OF p] by simp
      have done_: ?thesis if "load_existing sv dk = Some old" "out = Exit 0"
          "dk_artifact dk' = Some (artifact_text sv (merged_artifact sv reg old es))" for old
        using that 2(1-3) ran \<open>dirs i = _ \<or> _\<close> publish_keeps [OF p] by (simp add: run) blast
      show ?thesis
        using publish_writes [OF p] publish_keeps [OF p] 2(1) done_ \<open>dirs i = _ \<or> _\<close>
        by (auto simp: run written_def split: option.splits write_outcome.splits)
    qed (use 2(1,9) in \<open>auto simp: run\<close>)
  qed
qed

text \<open>C25: The command syncs the store. For ranges that the node answers and whose logs decode, what \<open>sync\<close> does for a deployment over the JSON lines of its
  directory is the sync over rows: it resumes where the directory's head says, asks the same ranges, projects
  the log that the row store projects, and leaves the text of the directory that the row store leaves.\<close>

theorem command_syncs_the_store:
  assumes "all_storable (sv_items sv) d" "spec_genesis_block spec = Some genesis"
    "resolve_extra nd (spec_registry spec) = Some extra" "map_of extra ''bzz'' = Some (JText bzz)"
    "map_of extra ''postage'' = Some (JText postage)"
    "\<And>a e. decode_range nd spec bzz postage (a, e) = Projected (fetch a e)"
  shows "sync_and_project sv nd spec head_block (text_of (sv_items sv) d) =
    (case sync_events fetch CHUNK_SIZE (int genesis) head_block d of
       None \<Rightarrow> (SpecRaises, text_of (sv_items sv) d)
     | Some (l, d') \<Rightarrow>
         (case project_spec sv nd spec genesis extra bzz head_block l of None \<Rightarrow> SpecRaises | Some e \<Rightarrow> Projected e,
          text_of (sv_items sv) d'))"
proof -
  have start: "(case dir_head d of None \<Rightarrow> int genesis | Some h \<Rightarrow> h + 1) = sync_from (int genesis) d"
    by (simp add: sync_from_def)
  have ranges: "sync_ranges items
      (decode_range nd spec bzz postage) cs (text_of items d) [] =
      (Projected (concat (map (\<lambda>(a, e). fetch a e) cs)), text_of items (foldl (sync_chunk fetch) d cs))" for items cs
    by (subst sync_ranges_text [where fetch = fetch]) (simp_all add: assms(6))
  show ?thesis
    using assms(2-5) by (simp add: sync_and_project_def load_text_of [OF assms(1)] load_head_text_of start
        ranges sync_events_def Let_def split: option.split)
qed

text \<open>C26: From the chain to the screen. When a first sync ends with exit code 0, then \<open>stat\<close>, asked for the label of any of
  the deployments it synced, reads the file back and shows exactly the view of the entry that the sync
  projected for that deployment.\<close>

theorem stat_shows_synced:
  assumes "fleet_from_dict config = Inr reg" "distinct (map (entry_id spec_named) (fleet_deployments reg))"
    "dk_artifact dk = None" "cmd_sync sv (\<lambda>url. nd) environ config args dk = (Exit 0, dk')"
    "sv_now sv < TIME_LIMIT * SECOND"
  shows "\<exists>chosen chain_id head_block es. chosen_spec reg (sa_deployment args) = Some chosen \<and>
    nd_chain_id nd = Some chain_id \<and>
    (case sa_to_block args of Some b \<Rightarrow> Some b | None \<Rightarrow> nd_finalized nd) = Some head_block \<and>
    (let targets = targets_on reg chosen chain_id
     in targets \<noteq> [] \<and> sync_specs sv nd head_block targets (dk_dirs dk) = (Projected es, dk_dirs dk') \<and>
        (list_all (entry_ok (sv_read sv) (sv_show sv)) es \<longrightarrow>
          list_all2 (\<lambda>spec e. cmd_stat sv config (Some (spec_label spec)) opts dk' = stat_of_entry sv opts e) targets es))"
  using assms(4)
proof (cases rule: cmd_sync_cases)
  case 1
  then show ?thesis by simp
next
  case (2 reg' url chosen chain_id head_block targets r dirs)
  have reg: "reg' = reg" using 2(1) assms(1) by simp
  obtain es where es: "r = Projected es" "publish sv reg es (dk\<lparr>dk_dirs := dirs\<rparr>) = (Exit 0, dk')"
    using 2(9) reg by (cases r) auto
  have dirs: "dk_dirs dk' = dirs" using publish_keeps [OF es(2)] by simp
  note named = sync_specs_entries [OF 2(8) [unfolded es(1)]]
  have "distinct targets" "distinct (fleet_deployments reg)"
    using 2(5) loaded_fleet(1) [OF assms(1)] reg
    by (auto simp: targets_on_def distinct_map split: option.splits if_splits)
  then have targets: "distinct (map spec_label targets)" "distinct (map (entry_id spec_named) targets)"
    using 2(7) reg assms(2) loaded_fleet(1) [OF assms(1)] by (simp_all add: distinct_map inj_on_subset)
  have ids: "map (entry_id entry_named) es = map (entry_id spec_named) targets"
    and labels: "map (\<lambda>e. nm_label (entry_named e)) es = map spec_label targets"
    using arg_cong [OF named, of "map (\<lambda>n. (nm_chain_id n, lower_text (nm_registry n)))"] arg_cong [OF named, of "map nm_label"]
    by (simp_all add: entry_id_def [abs_def] comp_def spec_named_def)
  have "list_all2 (\<lambda>spec e. cmd_stat sv config (Some (spec_label spec)) opts dk' = stat_of_entry sv opts e) targets es"
    if ok: "list_all (entry_ok (sv_read sv) (sv_show sv)) es"
  proof -
    obtain s a where stored: "dk_artifact dk' = Some s" "artifact_from_json (sv_read sv) s = Some a" "art_deployments a = es"
      using first_publication [OF _ ok assms(5) _ es(2)] ids targets(2) assms(3) by auto
    have "cmd_stat sv config (Some (nm_label (entry_named e))) opts dk' = stat_of_entry sv opts e" if "e \<in> set es" for e
      using that targets(1) by (intro stat_label [OF assms(1) stored(1,2)]) (simp_all add: stored(3) labels)
    then show ?thesis by (rule same_keys [OF labels])
  qed
  then show ?thesis using 2(2-6,8) reg es(1) dirs by (auto simp: Let_def)
qed

text \<open>No deployment stands in for another. When \<open>stat\<close> is given a network whose pointer in the registry names a
  deployment, and no entry has the network's name as its label, then the view it shows is that of the
  deployment the pointer names; an artifact without it is refused.\<close>

lemma stat_shows_pointed:
  assumes "fleet_from_dict config = Inr reg" "map_of (fleet_latest reg) network = Some label"
    "cmd_stat sv config (Some network) opts dk = StatView shown v"
  shows "shown = label \<or> shown = network"
proof -
  obtain s a where stored: "dk_artifact dk = Some s" "artifact_from_json (sv_read sv) s = Some a"
    using assms by (auto simp: cmd_stat_def split: option.splits)
  let ?es = "art_deployments a" and ?by = "by_label (\<lambda>e. nm_label (entry_named e)) (art_deployments a)"
  have in_labels: "l \<in> set (map (\<lambda>e. dep_label (ent_deployment e)) ?es) \<longleftrightarrow> ?by l \<noteq> None" for l
    by (force simp: by_label_def map_of_eq_None_iff entry_named_def)
  obtain e where e: "resolve entry_named ?es (fleet_latest reg) (Some network) = Some e" "shown = dep_label (ent_deployment e)"
    "network \<in> set (map (\<lambda>e. dep_label (ent_deployment e)) ?es) \<or> label \<in> set (map (\<lambda>e. dep_label (ent_deployment e)) ?es)"
    using assms stored by (auto simp: cmd_stat_def Let_def split: option.splits sum.splits view_error.splits if_splits)
  have "?by network = Some e \<or> ?by network = None \<and> ?by label = Some e"
    using e(1) e(3) [unfolded in_labels] assms(2) by (auto simp: resolve_def Let_def split: option.splits)
  then have "nm_label (entry_named e) = network \<or> nm_label (entry_named e) = label"
    by (auto dest: by_label_some)
  then show ?thesis using e(2) by (auto simp: entry_named_def)
qed

section \<open>A sync of two deployments without a log, for the witnesses\<close>

definition whole_services :: "int services" where
  "whole_services = \<lparr>sv_items = known_items, sv_bzz = id, sv_sum = sum_list, sv_mul = (*), sv_zero = 0, sv_whole = id,
     sv_secs = nat, sv_show = whole_text, sv_read = whole_value, sv_http = (\<lambda>url. None), sv_now = 1700000100250000,
     sv_write = (\<lambda>t. Written)\<rparr>"

definition quiet_node :: "int node" where
  "quiet_node = \<lparr>nd_connected = True, nd_chain_id = Some 100, nd_finalized = Some 7, nd_block_number = Some 9,
     nd_has_code = (\<lambda>a b. Some True), nd_call = (\<lambda>a f. if f = ''graceBlocks'' then Some (JInt 5) else Some (JText f)),
     nd_get_logs = (\<lambda>a e addr topics. Some []), nd_block_ts = (\<lambda>b. Some 1700000000)\<rparr>"

definition empty_disk :: disk where
  "empty_disk = \<lparr>dk_dirs = (\<lambda>i. \<lparr>td_files = [], td_head = None\<rparr>), dk_artifact = None\<rparr>"

definition sample_fleet :: fleet where
  "sample_fleet = \<lparr>fleet_deployments = [gnosis_spec ''v1'' ''0xA'', gnosis_spec ''v2-rc4'' ''0xB''],
     fleet_latest = [(''gnosis'', ''gnosis-v2-rc4'')]\<rparr>"

definition sample_config :: raw_document where
  "sample_config = \<lparr>rd_deployments = Some [fleet_entry ''v1'' ''0xA'', fleet_entry ''v2-rc4'' ''0xB''],
     rd_latest = Some [(''gnosis'', ''gnosis-v2-rc4'')]\<rparr>"

definition quiet_entry :: "deployment_spec \<Rightarrow> int entry" where
  "quiet_entry spec =
     \<lparr>ent_deployment = \<lparr>dep_label = spec_label spec, dep_chain_id = int (spec_chain_id spec), dep_registry = spec_registry spec,
        dep_version = spec_version spec, dep_genesis_ts = 1700000000, dep_fiat = [],
        dep_extra = JObject [(''grace_blocks'', JInt 5), (''postage'', JText ''postage''), (''bzz'', JText ''bzz''),
          (''price_oracle'', JText ''priceOracle'')]\<rparr>,
      ent_as_of_block = 7, ent_as_of_ts = 1700000000,
      ent_snapshot = \<lparr>snap_fee_total = 0, snap_volumes = 0, snap_nominal = 0, snap_effective = 0, snap_authorized = 0,
        snap_paid = [(1, 0), (7, 0), (30, 0)]\<rparr>,
      ent_fee = [\<lparr>fee_date = 19675, fee_bzz = 0\<rparr>],
      ent_capacity = [\<lparr>cap_date = 19675, cap_volumes = 0, cap_nominal = 0, cap_effective = 0\<rparr>],
      ent_accounts = [\<lparr>acc_date = 19675, acc_authorized = 0\<rparr>], ent_prices = []\<rparr>"

lemma sample_config_loads: "fleet_from_dict sample_config = Inr sample_fleet"
  by code_simp

lemma quiet_entry_ok: "entry_ok whole_value whole_text (quiet_entry spec)"
  by (simp add: entry_ok_def series_ok_def quiet_entry_def whole_ok)

lemma quiet_projection: "project_spec whole_services quiet_node spec 5
    [(''grace_blocks'', JInt 5), (''postage'', JText ''postage''), (''bzz'', JText ''bzz''), (''price_oracle'', JText ''priceOracle'')]
    ''bzz'' 7 (from_rows []) = Some (quiet_entry spec)"
proof -
  have log: "from_rows [] = []" by (simp add: from_rows_def buckets_def)
  have none: "log_of (for_deployment dep []) names = []" for dep names
  proof -
    have "set (log_of (for_deployment dep []) names) = {}"
      unfolding set_log_of by (simp add: for_deployment_def rows_named_def)
    then show ?thesis by simp
  qed
  have prices: "baked_prices whole_services c ''bzz'' 1700000000 1700000000 = Some []" for c
    by (simp add: baked_prices_def fetch_price_daily_def whole_services_def Let_def split: option.splits)
  show ?thesis
    by (simp add: project_spec_def quiet_node_def prices)
      (simp add: whole_services_def project_entry_def Let_def log none fee_volume_daily_def capacity_daily_def capacity_day_def
        active_set_at_def first_day_of_def accounts_daily_def authorized_at_def paid_in_window_def owner_timeline_def payments_def
        by_tx_def PAID_IN_WINDOW_DAYS_def pad_front_def quiet_entry_def)
qed

lemma quiet_sync:
  assumes "spec = gnosis_spec version registry"
  shows "sync_and_project whole_services quiet_node spec 7 \<lparr>td_files = [], td_head = None\<rparr> =
    (Projected (quiet_entry spec), \<lparr>td_files = [], td_head = Some (head_text 7)\<rparr>)"
proof -
  have chunks: "log_chunks CHUNK_SIZE 5 7 = Some [(5, 7)]" by (simp add: log_chunks_simps CHUNK_SIZE_def)
  have load: "load_text \<lparr>td_files = [], td_head = None\<rparr> = Some (from_rows [])" by (simp add: load_text_def)
  have head: "load_head_text \<lparr>td_files = [], td_head = None\<rparr> = Some None" by (simp add: load_head_text_def)
  have extra: "resolve_extra quiet_node r = Some [(''grace_blocks'', JInt 5), (''postage'', JText ''postage''),
      (''bzz'', JText ''bzz''), (''price_oracle'', JText ''priceOracle'')]" for r
    by (simp add: resolve_extra_def quiet_node_def)
  have logs: "decode_range quiet_node spec b p c = Projected []" for b p c
    by (cases c) (simp add: decode_range_def range_logs_def quiet_node_def)
  have empty: "log_merged (from_rows []) = []" by (simp add: log_merged_def log_of_def from_rows_def buckets_def)
  have append: "save_head_text 7 (append_text items [] \<lparr>td_files = [], td_head = None\<rparr>) =
      \<lparr>td_files = [], td_head = Some (head_text 7)\<rparr>" for items
    by (simp add: save_head_text_def append_text_def buckets_def)
  have genesis: "spec_genesis_block spec = Some 5" by (simp add: assms gnosis_spec_def)
  show ?thesis
    by (simp add: sync_and_project_def genesis extra load head chunks logs empty append quiet_projection)
qed

lemma quiet_targets: "targets_on sample_fleet None 100 = fleet_deployments sample_fleet"
  by (simp add: targets_on_def sample_fleet_def gnosis_spec_def)

lemma quiet_node_heads: "nd_connected quiet_node" "nd_chain_id quiet_node = Some 100" "nd_finalized quiet_node = Some 7"
  by (simp_all add: quiet_node_def)

lemma whole_services_reads: "sv_read whole_services = whole_value" "sv_show whole_services = whole_text"
  by (simp_all add: whole_services_def)

definition quiet_dirs :: "deployment_id \<Rightarrow> text_dir" where
  "quiet_dirs = (dk_dirs empty_disk)((100, ''0xA'') := \<lparr>td_files = [], td_head = Some (head_text 7)\<rparr>,
     (100, ''0xB'') := \<lparr>td_files = [], td_head = Some (head_text 7)\<rparr>)"

lemma quiet_sync_specs: "sync_specs whole_services quiet_node 7 (fleet_deployments sample_fleet) (dk_dirs empty_disk) =
    (Projected (map quiet_entry (fleet_deployments sample_fleet)), quiet_dirs)"
proof -
  have ids: "spec_id (gnosis_spec v r) = (100, r)" for v r by (simp add: spec_id_def gnosis_spec_def)
  show ?thesis by (simp add: sample_fleet_def ids empty_disk_def quiet_dirs_def quiet_sync [OF refl])
qed

lemma quiet_run:
  "cmd_sync whole_services (\<lambda>url. quiet_node) Map.empty sample_config
      \<lparr>sa_deployment = None, sa_rpc = Some ''u'', sa_to_block = None\<rparr> empty_disk =
    (Exit 0, snd (publish whole_services sample_fleet (map quiet_entry (fleet_deployments sample_fleet))
      (empty_disk\<lparr>dk_dirs := quiet_dirs\<rparr>)))"
proof -
  have "unsupported (fleet_deployments sample_fleet) = []"
    by (simp add: unsupported_def sample_fleet_def gnosis_spec_def supported_versions_def versions_def)
  moreover have "fleet_deployments sample_fleet \<noteq> []" by (simp add: sample_fleet_def)
  ultimately show ?thesis
    by (simp add: cmd_sync_def sample_config_loads chosen_spec_def rpc_url_def quiet_targets quiet_node_heads quiet_sync_specs Let_def)
      (simp add: publish_def load_existing_def empty_disk_def whole_services_def Let_def)
qed

definition day_options :: view_options where
  "day_options = \<lparr>vo_bucket_width = ''1d'', vo_bucket_count = 30, vo_since = None, vo_basis = Nominal, vo_fiat = None\<rparr>"

lemma stat_shows_synced_witness:
  "cmd_stat whole_services sample_config (Some ''gnosis-v1'') day_options
      (snd (cmd_sync whole_services (\<lambda>url. quiet_node) Map.empty sample_config
        \<lparr>sa_deployment = None, sa_rpc = Some ''u'', sa_to_block = None\<rparr> empty_disk)) =
    stat_of_entry whole_services day_options (quiet_entry (gnosis_spec ''v1'' ''0xA''))"
proof -
  let ?args = "\<lparr>sa_deployment = None, sa_rpc = Some ''u'', sa_to_block = None\<rparr>"
  let ?run = "cmd_sync whole_services (\<lambda>url. quiet_node) Map.empty sample_config ?args empty_disk"
  have low: "lower_text ''0xA'' = ''0xa''" "lower_text ''0xB'' = ''0xb''" by code_simp+
  have ids: "distinct (map (entry_id spec_named) (fleet_deployments sample_fleet))"
    by (simp add: sample_fleet_def entry_id_def spec_named_def gnosis_spec_def low)
  have exit: "?run = (Exit 0, snd ?run)" by (simp add: quiet_run)
  have none: "dk_artifact empty_disk = None" by (simp add: empty_disk_def)
  have now: "sv_now whole_services < TIME_LIMIT * SECOND" by (simp add: whole_services_def SECOND_def)
  from stat_shows_synced [OF sample_config_loads ids none exit now, of day_options]
  obtain es where es: "sync_specs whole_services quiet_node 7 (fleet_deployments sample_fleet) (dk_dirs empty_disk) =
      (Projected es, dk_dirs (snd ?run))"
    and stat: "list_all (entry_ok (sv_read whole_services) (sv_show whole_services)) es \<Longrightarrow>
      list_all2 (\<lambda>spec e. cmd_stat whole_services sample_config (Some (spec_label spec)) day_options (snd ?run) =
        stat_of_entry whole_services day_options e) (fleet_deployments sample_fleet) es"
    by (auto simp: chosen_spec_def Let_def quiet_targets quiet_node_heads)
  have "es = map quiet_entry (fleet_deployments sample_fleet)" using es unfolding quiet_sync_specs by simp
  then have "cmd_stat whole_services sample_config (Some (spec_label (gnosis_spec ''v1'' ''0xA''))) day_options (snd ?run) =
      stat_of_entry whole_services day_options (quiet_entry (gnosis_spec ''v1'' ''0xA''))"
    using stat by (simp add: sample_fleet_def quiet_entry_ok whole_services_reads)
  then show ?thesis by (simp add: spec_label_def deployment_label_def gnosis_spec_def)
qed

definition pointed_config :: raw_document where
  "pointed_config = \<lparr>rd_deployments = Some [fleet_entry ''v1'' ''0xA''], rd_latest = Some [(''gnosis'', ''gnosis-v1'')]\<rparr>"

lemma pointed_config_loads: "fleet_from_dict pointed_config =
    Inr \<lparr>fleet_deployments = [gnosis_spec ''v1'' ''0xA''], fleet_latest = [(''gnosis'', ''gnosis-v1'')]\<rparr>"
  by code_simp

lemma stat_shows_pointed_witness:
  "\<exists>shown v. cmd_stat whole_services pointed_config (Some ''gnosis'') day_options
      (empty_disk\<lparr>dk_artifact := Some (artifact_to_json whole_text sample_artifact @ [CHR 0x0A])\<rparr>) = StatView shown v \<and>
    (shown = ''gnosis-v1'' \<or> shown = ''gnosis'')"
proof -
  let ?dk = "empty_disk\<lparr>dk_artifact := Some (artifact_to_json whole_text sample_artifact @ [CHR 0x0A])\<rparr>"
  have "artifact_ok whole_value whole_text sample_artifact"
    by (simp add: artifact_ok_def sample_artifact_def entry_ok_def series_ok_def whole_ok SECOND_def)
  from artifact_round [OF this]
  have stored: "artifact_from_json (sv_read whole_services) (artifact_to_json whole_text sample_artifact @ [CHR 0x0A]) =
      Some (sample_artifact\<lparr>art_generated_at := art_generated_at sample_artifact div SECOND * SECOND,
        art_latest := sort_key fst (art_latest sample_artifact)\<rparr>)"
    by (simp add: whole_services_reads)
  define e where "e = hd (art_deployments sample_artifact)"
  have one: "art_deployments sample_artifact = [e]" "dep_label (ent_deployment e) = ''gnosis-v1''"
    by (simp_all add: e_def sample_artifact_def)
  obtain v where v: "resolve_view (sv_sum whole_services) (sv_mul whole_services) (sv_zero whole_services) e day_options = Inr v"
    by (simp add: resolve_view_def day_options_def BUCKET_WIDTHS_def Let_def)
  have shown: "cmd_stat whole_services pointed_config (Some ''gnosis'') day_options ?dk = StatView ''gnosis-v1'' v"
    using v by (simp add: cmd_stat_def pointed_config_loads stored one Let_def resolve_def by_label_def entry_named_def)
  have "map_of (fleet_latest \<lparr>fleet_deployments = [gnosis_spec ''v1'' ''0xA''], fleet_latest = [(''gnosis'', ''gnosis-v1'')]\<rparr>)
      ''gnosis'' = Some ''gnosis-v1''" by simp
  from stat_shows_pointed [OF pointed_config_loads this shown] shown show ?thesis by blast
qed

lemma command_syncs_the_store_witness:
  "sync_and_project whole_services quiet_node (gnosis_spec ''v1'' ''0xA'') 7 (text_of known_items empty_dir) =
    (Projected (quiet_entry (gnosis_spec ''v1'' ''0xA'')), \<lparr>td_files = [], td_head = Some (head_text 7)\<rparr>)"
proof -
  have empty: "from_rows [] = []" by (simp add: from_rows_def buckets_def)
  have "sync_events (\<lambda>a e. []) CHUNK_SIZE 5 7 empty_dir = Some (from_rows [], \<lparr>dir_files = [], dir_head = Some 7\<rparr>)"
    by (simp add: sync_events_def empty_dir_def sync_from_def CHUNK_SIZE_def log_chunks_simps load_event_log_def file_rows_def
        empty log_merged_def log_of_def sync_chunk_def save_head_def append_rows_def Let_def)
  moreover have "all_storable (sv_items whole_services) empty_dir"
    by (simp add: all_storable_def file_rows_def empty_dir_def)
  moreover have "resolve_extra quiet_node (spec_registry (gnosis_spec ''v1'' ''0xA'')) = Some
      [(''grace_blocks'', JInt 5), (''postage'', JText ''postage''), (''bzz'', JText ''bzz''), (''price_oracle'', JText ''priceOracle'')]"
    by (simp add: resolve_extra_def quiet_node_def)
  moreover have "spec_genesis_block (gnosis_spec ''v1'' ''0xA'') = Some 5" by (simp add: gnosis_spec_def)
  moreover have "decode_range quiet_node s b q (a, e) = Projected []" for s b q a e
    by (simp add: decode_range_def range_logs_def quiet_node_def)
  ultimately show ?thesis
    using command_syncs_the_store [of whole_services empty_dir "gnosis_spec ''v1'' ''0xA''" 5 quiet_node _ "''bzz''" "''postage''"
        "\<lambda>a e. []" 7] quiet_projection [of "gnosis_spec ''v1'' ''0xA''"]
    by (simp add: whole_services_def text_of_def)
qed

end
