(* ===== verification/IndexerText.thy ===== *)
theory IndexerText
  imports IndexerCli
begin

text \<open>
  \<open>render_text\<close> of \<open>services/indexer/src/ethswarm_volumes/view.py\<close>, the table that \<open>stat\<close> prints, with \<open>_format_bytes\<close>.
  How a float is written (\<open>:,.2f\<close>), and the quotient of bytes by a unit (a float of Python, \<open>:.2f\<close> or \<open>:,.0f\<close>), are
  parameters; the grouping of whole numbers, the padding of columns and the choice of the unit are not. What a view
  repeats of its entry and of its options is read from these.
\<close>

section \<open>Numbers and columns\<close>

text \<open>\<open>f"{n:,}"\<close>: digits in groups of three.\<close>

fun grouped :: "nat \<Rightarrow> string" where
  "grouped n = (if n < 1000 then decimal n else grouped (n div 1000) @ [CHR '',''] @ padded 3 (n mod 1000))"

declare grouped.simps [simp del]

text \<open>\<open>f"{s:<w}"\<close> and \<open>f"{s:>w}"\<close>.\<close>

definition left_aligned :: "nat \<Rightarrow> string \<Rightarrow> string" where
  "left_aligned w s = s @ replicate (w - length s) (CHR '' '')"

definition right_aligned :: "nat \<Rightarrow> string \<Rightarrow> string" where
  "right_aligned w s = replicate (w - length s) (CHR '' '') @ s"

definition BINARY_UNITS :: "(string \<times> int) list" where
  "BINARY_UNITS = [(''TiB'', 2 ^ 40), (''GiB'', 2 ^ 30), (''MiB'', 2 ^ 20), (''KiB'', 2 ^ 10), (''B'', 1)]"

record 'f rendering =
  rn_amount :: "'f \<Rightarrow> string"
  rn_quotient :: "int \<Rightarrow> int \<Rightarrow> string"
  rn_chunks :: "int \<Rightarrow> int \<Rightarrow> string"

definition format_bytes :: "'f rendering \<Rightarrow> int \<Rightarrow> string \<Rightarrow> string" where
  "format_bytes R n unit =
     (if unit = ''chunks'' then rn_chunks R n 4096 @ '' chunks''
      else if unit \<in> {''GiB'', ''TiB''} then rn_quotient R n (if unit = ''TiB'' then 2 ^ 40 else 2 ^ 30) @ '' '' @ unit
      else
        (case find (\<lambda>(name, width). width \<le> n) BINARY_UNITS of
           None \<Rightarrow> ''0 B''
         | Some (name, width) \<Rightarrow> rn_quotient R n width @ '' '' @ name))"

section \<open>The table\<close>

definition series_line ::
  "'f rendering \<Rightarrow> string \<Rightarrow> string \<Rightarrow> 'f fee_point \<Rightarrow> capacity_point \<Rightarrow> account_point \<Rightarrow> string" where
  "series_line R unit capacity_unit f c a =
     (let fee_val = (if unit \<noteq> ''BZZ'' then (case fp_fiat f of None \<Rightarrow> fp_bzz f | Some x \<Rightarrow> x) else fp_bzz f) in
      ''    '' @ left_aligned 12 (day_text (fp_start f)) @ ''  '' @ right_aligned 14 (rn_amount R fee_val) @ ''  '' @
      right_aligned 9 (grouped (cp_volumes c)) @ ''  '' @ right_aligned 18 (format_bytes R (cp_bytes c) capacity_unit) @ ''  '' @
      right_aligned 6 (grouped (ap_authorized a)))"

definition basis_text :: "capacity_basis \<Rightarrow> string" where
  "basis_text b = (case b of Nominal \<Rightarrow> ''nominal'' | Effective \<Rightarrow> ''effective'')"

definition view_lines ::
  "'f rendering \<Rightarrow> ('e, 'f, 'p) artifact_entry \<Rightarrow> view_options \<Rightarrow> string \<Rightarrow> 'f resolved_view \<Rightarrow> string list" where
  "view_lines R e opts capacity_unit v =
     (let d = ent_deployment e; unit = rv_unit v in
      [dep_label d @ ''  (chain '' @ int_text (dep_chain_id d) @ '', '' @ dep_registry d @ '', '' @ dep_version d @ '')'',
       ''  as of block '' @ int_text (ent_as_of_block e) @ ''  ('' @ iso_text (ent_as_of_ts e) @ '')'',
       [],
       ''  fee volume   total '' @ rn_amount R (rv_fee_total v) @ '' '' @ unit @ ''   window '' @
         rn_amount R (rv_fee_window v) @ '' '' @ unit,
       ''  capacity     '' @ grouped (rv_volumes v) @ '' volumes   '' @ format_bytes R (rv_bytes v) capacity_unit @ '' ('' @
         basis_text (vo_basis opts) @ '')'',
       ''  accounts     '' @ grouped (rv_authorized v) @ '' authorized   paid '' @
         join_with '', '' (map (\<lambda>(n, k). window_key n @ ''='' @ decimal k) (rv_paid v)),
       [],
       ''  per-'' @ vo_bucket_width opts @ '' series:'',
       ''    '' @ left_aligned 12 ''start'' @ ''  '' @ right_aligned 14 (''fee/'' @ unit) @ ''  '' @
         right_aligned 9 ''volumes'' @ ''  '' @ right_aligned 18 ''capacity'' @ ''  '' @ right_aligned 6 ''auth''] @
      map (\<lambda>(f, c, a). series_line R unit capacity_unit f c a) (zip (rv_fee v) (zip (rv_capacity v) (rv_accounts v))))"

definition render_text ::
  "'f rendering \<Rightarrow> ('e, 'f, 'p) artifact_entry \<Rightarrow> view_options \<Rightarrow> string \<Rightarrow> 'f resolved_view \<Rightarrow> string" where
  "render_text R e opts capacity_unit v = join_with [CHR 0x0A] (view_lines R e opts capacity_unit v)"

section \<open>Lemmas\<close>

text \<open>Without its commas a grouped number is its decimal text.\<close>

lemma digit_groups:
  "n div 100 mod 10 = n mod 1000 div 100 mod 10" "n div 10 mod 10 = n mod 1000 div 10 mod 10" "n mod 10 = n mod 1000 mod 10"
  for n :: nat
proof -
  have "n mod (100 * 10) = 100 * (n div 100 mod 10) + n mod 100" by (rule mod_mult2_eq)
  then show "n div 100 mod 10 = n mod 1000 div 100 mod 10" by simp
  have "n mod (10 * 100) = 10 * (n div 10 mod 100) + n mod 10" by (rule mod_mult2_eq)
  then have "n mod 1000 div 10 = n div 10 mod 100" by simp
  then show "n div 10 mod 10 = n mod 1000 div 10 mod 10" by (simp add: mod_mod_cancel)
  show "n mod 10 = n mod 1000 mod 10" by (simp add: mod_mod_cancel)
qed

lemma decimal_thousands:
  assumes "1000 \<le> n"
  shows "decimal n = decimal (n div 1000) @ padded 3 (n mod 1000)"
proof -
  have step: "decimal m = decimal (m div 10) @ [''0123456789'' ! (m mod 10)]" if "10 \<le> m" for m
    using that by (subst decimal.simps) simp
  have "10 \<le> n" "10 \<le> n div 10" "10 \<le> n div 10 div 10" using assms by simp_all
  from this [THEN step] have "decimal n = decimal (n div 10 div 10 div 10) @
      [''0123456789'' ! (n div 10 div 10 mod 10), ''0123456789'' ! (n div 10 mod 10), ''0123456789'' ! (n mod 10)]" by simp
  moreover have "n div 10 div 10 div 10 = n div 1000" "n div 10 div 10 = n div 100" "n mod 1000 div 10 div 10 = n mod 1000 div 100"
    by (simp_all add: div_mult2_eq [symmetric])
  ultimately show ?thesis by (simp add: numeral_3_eq_3 digit_groups [of n] del: mod_mod_cancel)
qed

lemma decimal_no_comma: "filter (\<lambda>c. c \<noteq> CHR '','') (decimal n) = decimal n"
proof (induction n rule: decimal.induct)
  case (1 n)
  have digit: "''0123456789'' ! k \<noteq> CHR '',''" if "k < 10" for k
    using nth_mem [of k "''0123456789''"] that by auto
  show ?case
    using 1 digit [of n] digit [of "n mod 10"] by (subst (1 2) decimal.simps) simp
qed

lemma grouped_digits: "filter (\<lambda>c. c \<noteq> CHR '','') (grouped n) = decimal n"
proof (induction n rule: grouped.induct)
  case (1 n)
  show ?case
  proof (cases "n < 1000")
    case True
    then show ?thesis by (simp add: grouped.simps decimal_no_comma)
  next
    case False
    have "filter (\<lambda>c. c \<noteq> CHR '','') (padded 3 (n mod 1000)) = padded 3 (n mod 1000)"
      using decimal_no_comma [of n] False unfolding decimal_thousands [of n, OF leI [OF False]] filter_append decimal_no_comma
      by simp
    then show ?thesis
      using 1 False by (subst grouped.simps) (simp add: decimal_thousands)
  qed
qed

text \<open>The unit chosen for a positive number of bytes is the largest in which it is at least one.\<close>

lemma unit_is_largest:
  assumes "1 \<le> n" "unit \<notin> {''chunks'', ''GiB'', ''TiB''}"
  shows "\<exists>name width. (name, width) \<in> set BINARY_UNITS \<and> format_bytes R n unit = rn_quotient R n width @ '' '' @ name \<and>
    width \<le> n \<and> (\<forall>(other, wider) \<in> set BINARY_UNITS. wider \<le> n \<longrightarrow> wider \<le> width)"
proof -
  have bytes: "(''B'', 1) \<in> set BINARY_UNITS" by (simp add: BINARY_UNITS_def)
  have falling: "sorted_wrt (\<lambda>a b. snd b \<le> snd a) BINARY_UNITS" by (simp add: BINARY_UNITS_def)
  have "find (\<lambda>(name, width). width \<le> n) BINARY_UNITS \<noteq> None"
    using bytes assms(1) by (auto simp: find_None_iff)
  then obtain name width where found: "find (\<lambda>(name, width). width \<le> n) BINARY_UNITS = Some (name, width)" by auto
  then obtain i where i: "i < length BINARY_UNITS" "BINARY_UNITS ! i = (name, width)" "width \<le> n"
    "\<And>j. j < i \<Longrightarrow> \<not> snd (BINARY_UNITS ! j) \<le> n"
    unfolding find_Some_iff by (metis (mono_tags, lifting) case_prod_unfold snd_conv)
  have "wider \<le> width" if other: "(other, wider) \<in> set BINARY_UNITS" "wider \<le> n" for other wider
  proof -
    obtain j where j: "j < length BINARY_UNITS" "BINARY_UNITS ! j = (other, wider)" using other(1) by (auto simp: in_set_conv_nth)
    then have "\<not> j < i" using i(4) [of j] other(2) by auto
    then show ?thesis
      using sorted_wrt_nth_less [OF falling, of i j] i(2) j by (cases "i = j") auto
  qed
  moreover have "(name, width) \<in> set BINARY_UNITS" using i(1,2) nth_mem by metis
  moreover have "format_bytes R n unit = rn_quotient R n width @ '' '' @ name"
    using assms(2) by (simp add: format_bytes_def found)
  ultimately show ?thesis using i(3) by blast
qed

text \<open>The three series of a view have one point for each bucket, with one first day, so the table has a line for each
  bucket and drops none.\<close>

lemma view_series:
  assumes "resolve_view fsum fmul fzero e opts = Inr v"
  shows "\<exists>width. map_of BUCKET_WIDTHS (vo_bucket_width opts) = Some width \<and>
    (let starts = map hd (day_buckets width (window_dates opts width (map fee_date (ent_fee e))))
     in map fp_start (rv_fee v) = starts \<and> map cp_start (rv_capacity v) = starts \<and> map ap_start (rv_accounts v) = starts)"
  using assms
  by (auto simp: resolve_view_def Let_def capacity_point_of_def split: option.splits sum.splits if_splits)

lemma table_has_every_bucket:
  assumes "resolve_view fsum fmul fzero e opts = Inr v" "map_of BUCKET_WIDTHS (vo_bucket_width opts) = Some width"
  shows "length (view_lines R e opts capacity_unit v) =
    9 + length (day_buckets width (window_dates opts width (map fee_date (ent_fee e))))"
proof -
  have "length (rv_fee v) = n" "length (rv_capacity v) = n" "length (rv_accounts v) = n"
    if "n = length (day_buckets width (window_dates opts width (map fee_date (ent_fee e))))" for n
    using view_series [OF assms(1)] assms(2) that by (auto simp: Let_def dest: map_eq_imp_length_eq)
  then show ?thesis by (simp add: view_lines_def Let_def)
qed

text \<open>A column that is too narrow for its cell still ends before the next one begins.\<close>

lemma aligned_keeps: "\<exists>k. left_aligned w s = s @ replicate k (CHR '' '')" "\<exists>k. right_aligned w s = replicate k (CHR '' '') @ s"
  unfolding left_aligned_def right_aligned_def by blast+

end
