(* ===== verification/IndexerDerive.thy ===== *)
theory IndexerDerive
  imports IndexerFleet "HOL-Library.List_Lexorder" "HOL-Library.Char_ord"
begin

text \<open>
  \<open>services/indexer/scripts/derive_deployments.py\<close>, which proposes the registry document from the committed deployment
  records, and \<open>to_dict\<close> of \<open>registry.py\<close>, which writes it. The records are given as the directory lists them: for each
  network its versioned records and the version that its \<open>VolumeRegistry.json\<close> names. What the script prints is left
  out.
\<close>

section \<open>The document of a registry\<close>

definition spec_to_dict :: "deployment_spec \<Rightarrow> raw_entry" where
  "spec_to_dict s = \<lparr>re_network = Some (spec_network s), re_version = Some (spec_version s),
     re_chain_id = Some (spec_chain_id s), re_registry = Some (spec_registry s), re_genesis_block = spec_genesis_block s\<rparr>"

definition fleet_to_dict :: "fleet \<Rightarrow> raw_document" where
  "fleet_to_dict reg = \<lparr>rd_deployments = Some (map spec_to_dict (fleet_deployments reg)),
     rd_latest = Some (sort_key fst (fleet_latest reg))\<rparr>"

section \<open>The records\<close>

record deployment_record =
  rc_stem :: string
  rc_version :: string
  rc_chain_id :: nat
  rc_address :: string
  rc_block :: nat

record network_records =
  nr_network :: string
  nr_records :: "deployment_record list"
  nr_latest :: "string option"

text \<open>\<open>_record_fact\<close>; \<open>None\<close> exits, for a file whose name disagrees with the version it records.\<close>

definition record_fact :: "string \<Rightarrow> deployment_record \<Rightarrow> deployment_spec option" where
  "record_fact network r =
     (if rc_stem r \<noteq> ''VolumeRegistry-'' @ rc_version r then None
      else Some \<lparr>spec_network = network, spec_version = rc_version r, spec_chain_id = rc_chain_id r,
             spec_registry = lower_text (rc_address r), spec_genesis_block = Some (rc_block r)\<rparr>)"

definition record_facts :: "network_records list \<Rightarrow> (deployment_spec list \<times> (string \<times> string) list) option" where
  "record_facts nets =
     map_option (\<lambda>facts. (facts, List.map_filter (\<lambda>n. map_option (Pair (nr_network n)) (nr_latest n)) nets))
       (those (concat (map (\<lambda>n. map (record_fact (nr_network n)) (nr_records n)) nets)))"

section \<open>The derivation\<close>

definition spec_key :: "deployment_spec \<Rightarrow> nat \<times> string" where
  "spec_key s = (spec_chain_id s, lower_text (spec_registry s))"

text \<open>The loop over the facts; \<open>None\<close> exits, for a label that is registered at another address.\<close>

fun register_facts ::
  "(nat \<times> string) set \<Rightarrow> string set \<Rightarrow> deployment_spec list \<Rightarrow> deployment_spec list \<Rightarrow> deployment_spec list option" where
  "register_facts registered excluded [] specs = Some specs"
| "register_facts registered excluded (new # facts) specs =
     (if (spec_chain_id new, spec_registry new) \<in> registered \<or> spec_label new \<in> excluded then
        register_facts registered excluded facts specs
      else if spec_version new \<notin> set supported_versions then register_facts registered excluded facts specs
      else if spec_label new \<in> spec_label ` set specs then None
      else register_facts registered excluded facts (specs @ [new]))"

fun point_latest :: "string set \<Rightarrow> (string \<times> string) list \<Rightarrow> (string \<times> string) list \<Rightarrow> (string \<times> string) list" where
  "point_latest labels [] latest = latest"
| "point_latest labels ((network, version) # pointers) latest =
     (let label = deployment_label network version in
      if map_of latest network = Some label \<or> label \<notin> labels then point_latest labels pointers latest
      else point_latest labels pointers (AList.update network label latest))"

datatype derivation = DeriveFails | UpToDate | Written raw_document

definition derive_deployments :: "string list \<Rightarrow> network_records list \<Rightarrow> fleet \<Rightarrow> derivation" where
  "derive_deployments excluded nets reg =
     (case record_facts nets of
        None \<Rightarrow> DeriveFails
      | Some (facts, pointers) \<Rightarrow>
     (case register_facts (spec_key ` set (fleet_deployments reg)) (set excluded) facts (fleet_deployments reg) of
        None \<Rightarrow> DeriveFails
      | Some specs \<Rightarrow>
          (let latest = point_latest (spec_label ` set specs) pointers (fleet_latest reg) in
           if specs = fleet_deployments reg \<and> latest = fleet_latest reg then UpToDate
           else
             (let doc = fleet_to_dict \<lparr>fleet_deployments = specs, fleet_latest = latest\<rparr> in
              case fleet_from_dict doc of Inl e \<Rightarrow> DeriveFails | Inr reg' \<Rightarrow> Written doc))))"

section \<open>Lemmas\<close>

lemma specs_from_dicts: "list_all (\<lambda>s. is_network_name (spec_network s) \<and> is_version_name (spec_version s)) ss \<Longrightarrow>
    specs_from (map spec_to_dict ss) = Inr ss"
  by (induction ss) (simp_all add: spec_from_dict_def spec_to_dict_def key_of_def)

lemma specs_from_result: "specs_from (map spec_to_dict ss) = Inr ts \<Longrightarrow> ts = ss"
  by (induction ss arbitrary: ts)
    (auto simp: spec_from_dict_def spec_to_dict_def key_of_def split: if_splits sum.splits)

text \<open>A document that loads is the registry it was written from.\<close>

lemma loaded_document:
  assumes "fleet_from_dict (fleet_to_dict reg) = Inr reg'"
  shows "fleet_deployments reg' = fleet_deployments reg" "fleet_latest reg' = sort_key fst (fleet_latest reg)"
  using assms specs_from_result
  by (auto simp: fleet_from_dict_def fleet_to_dict_def key_of_def Let_def split: sum.splits option.splits)

text \<open>The loop keeps what is registered and appends supported deployments only.\<close>

lemma register_facts_appends:
  assumes "register_facts registered excluded facts specs = Some ss"
  shows "\<exists>added. ss = specs @ added \<and> set added \<subseteq> set facts \<and>
    list_all (\<lambda>s. spec_version s \<in> set supported_versions \<and> spec_label s \<notin> excluded) added"
  using assms
proof (induction registered excluded facts specs rule: register_facts.induct)
  case (2 registered excluded new facts specs)
  then show ?case
    by (fastforce split: if_splits)
qed simp

lemma register_facts_settled:
  assumes "\<And>f. f \<in> set facts \<Longrightarrow> (spec_chain_id f, spec_registry f) \<in> registered \<or> spec_label f \<in> excluded
    \<or> spec_version f \<notin> set supported_versions"
  shows "register_facts registered excluded facts specs = Some specs"
  using assms by (induction facts) auto

lemma register_facts_covers:
  assumes "register_facts registered excluded facts specs = Some ss" "f \<in> set facts"
  shows "(spec_chain_id f, spec_registry f) \<in> registered \<or> spec_label f \<in> excluded
    \<or> spec_version f \<notin> set supported_versions \<or> f \<in> set ss"
  using assms
proof (induction registered excluded facts specs rule: register_facts.induct)
  case (2 registered excluded new facts specs)
  show ?case
  proof (cases "f = new")
    case True
    with 2(4) show ?thesis
      using register_facts_appends by (fastforce split: if_splits)
  next
    case False
    with 2 show ?thesis
      by (auto split: if_splits)
  qed
qed simp

lemma point_latest_other: "network \<notin> fst ` set pointers \<Longrightarrow>
    map_of (point_latest labels pointers latest) network = map_of latest network"
  by (induction labels pointers latest rule: point_latest.induct) (auto simp: Let_def update_conv')

lemma point_latest_settled:
  assumes "\<And>network version. (network, version) \<in> set pointers \<Longrightarrow>
    map_of latest network = Some (deployment_label network version) \<or> deployment_label network version \<notin> labels"
  shows "point_latest labels pointers latest = latest"
  using assms by (induction pointers) (auto simp: Let_def)

lemma point_latest_covers:
  assumes "distinct (map fst pointers)" "(network, version) \<in> set pointers"
  shows "map_of (point_latest labels pointers latest) network = Some (deployment_label network version)
    \<or> deployment_label network version \<notin> labels"
  using assms
  by (induction labels pointers latest rule: point_latest.induct)
    (auto simp: Let_def update_conv' point_latest_other)

text \<open>Sorting by the key is stable, so it keeps what a lookup finds.\<close>

lemma map_of_insort: "map_of (insort_key fst x xs) k = (if k = fst x then Some (snd x) else map_of xs k)"
  for x :: "'k::linorder \<times> 'v"
  by (induction xs) auto

lemma map_of_sort: "map_of (sort_key fst xs) k = map_of xs k"
  for xs :: "('k::linorder \<times> 'v) list"
  by (induction xs) (auto simp: map_of_insort)

lemma lower_char_idem: "lower_char (lower_char c) = lower_char c"
  by (cases c) (auto simp: lower_char_def is_capital_def char_of_def)

lemma lower_text_idem: "lower_text (lower_text s) = lower_text s"
  by (simp add: lower_text_def lower_char_idem)

lemma those_member: "those xs = Some ys \<Longrightarrow> y \<in> set ys \<Longrightarrow> Some y \<in> set xs"
  by (induction xs arbitrary: ys) (auto split: option.splits)

lemma record_facts_lower:
  assumes "record_facts nets = Some (facts, pointers)" "f \<in> set facts"
  shows "spec_key f = (spec_chain_id f, spec_registry f)"
proof -
  from assms obtain n r where "record_fact n r = Some f"
    using those_member by (fastforce simp: record_facts_def)
  then show ?thesis
    by (auto simp: record_fact_def spec_key_def lower_text_idem split: if_splits)
qed

lemma record_facts_pointers:
  assumes "record_facts nets = Some (facts, pointers)" "distinct (map nr_network nets)"
  shows "distinct (map fst pointers)"
proof -
  have "distinct (map nr_network nets) \<Longrightarrow>
      distinct (map fst (List.map_filter (\<lambda>n. map_option (Pair (nr_network n)) (nr_latest n)) nets))
      \<and> fst ` set (List.map_filter (\<lambda>n. map_option (Pair (nr_network n)) (nr_latest n)) nets) \<subseteq> nr_network ` set nets"
    by (induction nets) (auto simp: List.map_filter_simps split: option.splits)
  with assms show ?thesis
    by (auto simp: record_facts_def)
qed

text \<open>A second run over the same records, from the registry the first one wrote, has nothing to do.\<close>

lemma second_run:
  assumes facts: "record_facts nets = Some (facts, pointers)" and nets: "distinct (map nr_network nets)"
    and specs: "register_facts (spec_key ` set (fleet_deployments reg)) (set excluded) facts (fleet_deployments reg) = Some ss"
    and latest: "l = point_latest (spec_label ` set ss) pointers (fleet_latest reg)"
    and reg': "fleet_deployments reg' = ss" "fleet_latest reg' = sort_key fst l"
  shows "derive_deployments excluded nets reg' = UpToDate"
proof -
  have "set (fleet_deployments reg) \<subseteq> set ss"
    using register_facts_appends [OF specs] by auto
  then have "register_facts (spec_key ` set ss) (set excluded) facts ss = Some ss"
    using register_facts_covers [OF specs] record_facts_lower [OF facts]
    by (intro register_facts_settled) (metis (no_types, lifting) image_eqI image_mono subsetD)
  moreover have "point_latest (spec_label ` set ss) pointers (sort_key fst l) = sort_key fst l"
    using point_latest_covers [OF record_facts_pointers [OF facts nets]]
    by (intro point_latest_settled) (auto simp: map_of_sort latest)
  ultimately show ?thesis
    using facts reg' by (simp add: derive_deployments_def)
qed

text \<open>C30: Registering is safe and settles. What \<open>derive_deployments.py\<close> writes is a document that every loader of the
  registry accepts; it keeps the deployments that were registered, in their order, and adds only deployments of a supported
  version that the operator did not exclude. A second run over the same records finds nothing to do.\<close>

theorem derivation_settles:
  assumes "derive_deployments excluded nets reg = Written doc" "distinct (map nr_network nets)"
  shows "\<exists>reg' added. fleet_from_dict doc = Inr reg' \<and> fleet_deployments reg' = fleet_deployments reg @ added
    \<and> list_all (\<lambda>s. spec_version s \<in> set supported_versions \<and> spec_label s \<notin> set excluded) added
    \<and> derive_deployments excluded nets reg' = UpToDate"
proof -
  obtain facts pointers ss l reg' where steps: "record_facts nets = Some (facts, pointers)"
    "register_facts (spec_key ` set (fleet_deployments reg)) (set excluded) facts (fleet_deployments reg) = Some ss"
    "l = point_latest (spec_label ` set ss) pointers (fleet_latest reg)"
    "doc = fleet_to_dict \<lparr>fleet_deployments = ss, fleet_latest = l\<rparr>" "fleet_from_dict doc = Inr reg'"
    using assms(1) by (auto simp: derive_deployments_def Let_def split: option.splits prod.splits if_splits sum.splits)
  note loaded = loaded_document [OF steps(5) [unfolded steps(4)], simplified]
  show ?thesis
    using second_run [OF steps(1) assms(2) steps(2,3) loaded] register_facts_appends [OF steps(2)] steps(5) loaded(1)
    by auto
qed

definition sample_records :: "network_records list" where
  "sample_records = [\<lparr>nr_network = ''gnosis'', nr_records = [\<lparr>rc_stem = ''VolumeRegistry-v1'', rc_version = ''v1'',
     rc_chain_id = 100, rc_address = ''0xAB'', rc_block = 7\<rparr>], nr_latest = Some ''v1''\<rparr>]"

lemma derivation_settles_witness:
  "\<exists>doc reg' added. derive_deployments [] sample_records \<lparr>fleet_deployments = [], fleet_latest = []\<rparr> = Written doc
    \<and> fleet_from_dict doc = Inr reg' \<and> fleet_deployments reg' = added \<and> added \<noteq> []
    \<and> derive_deployments [] sample_records reg' = UpToDate"
proof -
  let ?doc = "fleet_to_dict \<lparr>fleet_deployments = [\<lparr>spec_network = ''gnosis'', spec_version = ''v1'', spec_chain_id = 100,
      spec_registry = ''0xab'', spec_genesis_block = Some 7\<rparr>], fleet_latest = [(''gnosis'', ''gnosis-v1'')]\<rparr>"
  have run: "derive_deployments [] sample_records \<lparr>fleet_deployments = [], fleet_latest = []\<rparr> = Written ?doc"
    by code_simp
  obtain reg' added where settled: "fleet_from_dict ?doc = Inr reg'" "fleet_deployments reg' = added"
      "derive_deployments [] sample_records reg' = UpToDate"
    using derivation_settles [OF run] by (auto simp: sample_records_def)
  have "added \<noteq> []"
    using loaded_document(1) [OF settled(1)] settled(2) by simp
  with run settled show ?thesis by blast
qed

end
