(* ===== verification/Spec2Isabelle.thy ===== *)
theory Spec2Isabelle
  imports WorkerProperties RegistryAbi CycleTime SampleNodes IndexedRegistry IndexerText IndexerDerive
begin

text \<open>
  The Swarm VolumeRegistry, its keeper and its indexer: a model of the keeper Worker
  (\<open>services/keeper/src\<close>, TypeScript), of the contract it drives (\<open>contracts/src/VolumeRegistry.sol\<close>) and of
  the indexer that reads the contract's events (\<open>services/indexer/src\<close>, Python), with the theorems that
  make each of them correct and those that join them.

  The program. A volume is a postage batch whose runway the registry keeps topped up from its payer's
  BZZ. The contract records volumes and accounts, keeps the array of Active volumes, and decides per
  \<open>trigger\<close> whether to top up, retire, skip or leave alone. The keeper is a Cloudflare Worker: a cron
  event reads the bindings into a configuration, probes the RPC endpoints, reads the Active volumes at
  a pinned block, sends one \<open>trigger\<close> transaction per volume, reads each receipt, and makes one report,
  which is scrubbed of secrets, logged, and sent to Telegram where it warrants an alert. The indexer
  asks a node for the registry's events and the fee transfers range by range, keeps them in a cache that
  survives being killed between two rows, and folds them into daily series and a snapshot.

  How the theories follow the code.

  \<^item> \<open>KeeperPrelude\<close>, \<open>JsText\<close>, \<open>JsNumber\<close>: JavaScript's values. Strings are lists of 16-bit code units;
    \<open>trim\<close>, \<open>split\<close>, \<open>join\<close>, \<open>includes\<close>; the rounding of \<open>Number(digits)\<close> to a double; thrown values.
  \<^item> \<open>KeeperTypes\<close> (\<open>keeper/types.ts\<close>, the tables of \<open>keeper/abi.ts\<close>) and \<open>KeeperEvents\<close>
    (\<open>keeper/events.ts\<close>): rows, outcomes, results; the decoding of a receipt and its summary.
  \<^item> \<open>ChainClient\<close>: viem's client as a record of functions of the outside world, each of which answers
    or throws. \<open>ActiveVolumes\<close> (\<open>getActiveVolumeCount.ts\<close>, \<open>collectActiveVolumes.ts\<close>) and
    \<open>TriggerTx\<close> (\<open>trigger.ts\<close>) are functions of it.
  \<^item> \<open>KeeperCycle\<close> (\<open>runKeeperCycle.ts\<close>): \<open>sendOne\<close>, \<open>cycle_loop\<close>, \<open>cycle_body\<close>, \<open>runKeeperCycle\<close>. The state
    is the \<open>result\<close> being filled in, the shared \<open>sending\<close> values (nonce and fees) and the world.
    \<open>CycleAccounting\<close>, \<open>CycleSchedule\<close>, \<open>WalletProtocol\<close>, \<open>CycleClock\<close> hold its lemmas: the result agrees with
    itself; which volumes are attempted and in which order; how the wallet is used; when the deadline cuts a
    cycle, by the readings that the cycle itself takes of the clock.
  \<^item> \<open>Scrubbing\<close>, \<open>KeeperReporting\<close>, \<open>ReportProperties\<close> (\<open>reporting.ts\<close>): what is masked and what is
    reported.
  \<^item> \<open>RpcEndpoints\<close> (\<open>client.ts\<close>), \<open>KeeperConfig\<close> (\<open>config.ts\<close>), \<open>TelegramAlert\<close>
    (\<open>notifications/telegram.ts\<close>), \<open>KeeperWorker\<close> and \<open>WorkerProperties\<close> (\<open>index.ts\<close>).
  \<^item> \<open>VolumeRegistry\<close>: the contract, one function per Solidity function, at its machine widths, reverts as
    the left side of a sum. \<open>RegistryInvariants\<close> has its life as a step relation over all external
    operations and the invariants of every reachable state; \<open>RegistryProperties\<close> the decision table of a
    trigger, what PostageStamp and the token document and when a trigger can therefore revert, what a topup
    charges and restores; \<open>RegistryLife\<close> the registry over a recorded
    history of calls: who has consented to pay for whom, which ids are issued, who is charged.
  \<^item> \<open>KeeperAbi\<close>: the ABI literal of \<open>keeper/abi.ts\<close>, from which the events that reach the keeper are read.
    \<open>RegistryAbi\<close>: that literal beside the declarations of the contract's interfaces.
    \<open>RegistryDuties\<close>: no batch is topped up twice in a block, every retirement has its cause, an import
    leaves its batch funded. \<open>RegistryLog\<close>: what the events alone say of the storage.
  \<^item> \<open>CycleTime\<close>: the time a cycle takes when every request is answered within a bound. \<open>CycleReads\<close>: the
    reads of a cycle, for any client whose reads keep a relation. \<open>KeeperOnChain\<close>: what an honest node
    promises, and the cycle on a chain that runs the registry. \<open>KeeperFaults\<close>: a node that refuses, loses,
    delays and is shared, and the cycle on it. \<open>SampleNodes\<close>: one node of each kind, for the witnesses.
  \<^item> \<open>IndexerLog\<close> (\<open>model.py\<close>), \<open>IndexerStore\<close> (\<open>acquire.py\<close>, \<open>store.py\<close>, the sync loop of \<open>cli.py\<close>),
    \<open>IndexerDecode\<close> (\<open>decode.py\<close>), \<open>IndexerProject\<close> (\<open>project.py\<close>, \<open>capacity.py\<close>), \<open>IndexerFleet\<close>
    (\<open>registry.py\<close>, the genesis search of \<open>node.py\<close>, the targets and the file of \<open>cli.py\<close>),
    \<open>IndexerView\<close> (\<open>view.py\<close>, \<open>fiat.py\<close>), and \<open>IndexedRegistry\<close>, the projector over the log of a registry.
  \<^item> \<open>JsonText\<close> (what \<open>json.dumps\<close> writes and \<open>json.loads\<close> reads, character by character), \<open>IndexerDates\<close> (days
    and times as text), \<open>IndexerFiles\<close> (the lines and the head marker of \<open>store.py\<close> as text, refining
    \<open>IndexerStore\<close>), \<open>IndexerWire\<close> (\<open>serialize.py\<close>), \<open>IndexerPrices\<close> (\<open>prices.py\<close>), \<open>IndexerCli\<close> (the commands
    \<open>sync\<close> and \<open>stat\<close> of \<open>cli.py\<close>, whose state is the directories of the store and the published file),
    \<open>IndexerText\<close> (the table of \<open>view.py\<close>), and \<open>IndexerDerive\<close> (\<open>scripts/derive_deployments.py\<close>).
  \<^item> This theory joins them: what the keeper enumerates is the registry's active set, what it reports of a
    mined trigger is the registry's decision, and a whole cycle is the registry's triggers in turn.

  Interfaces. What one part relies on in another is a locale, proved once and interpreted on the model's
  own definitions: \<open>turn_contract\<close> (what one volume's turn keeps, so that the loop keeps it; provided by
  \<open>sendOne\<close>), \<open>paged_index\<close> (what a paged view promises, so that its pages are the index; provided by the
  registry's \<open>getActiveVolumes\<close>), \<open>text_scrubber\<close> (what a report relies on when scrubbed; provided by
  \<open>makeScrubber\<close>), and \<open>registry_operation\<close> with the stronger \<open>plain_operation\<close> (what every external
  operation keeps of the storage; provided by each of the ten, creating or not), \<open>telling_operation\<close> (that
  an operation's events account for what it does, which is all the indexer sees of it; provided by each
  of the ten), and \<open>client_reads\<close> (a client whose reads move its world by a relation; provided by the
  honest and by the faulty node). The state machine of the wallet (\<open>wallet_step\<close>) is the abstract specification that
  a cycle's calls implement, and the decision table that of a trigger.

  What the groups of theorems show.

  \<^item> Cycle: the wallet discipline (nonces without gaps, one transaction outstanding, a fresh nonce after
    any failure), at most one transaction per entry of the attempted list and only for it, the accounting of the
    result, the prefix attempted, cut short only where the clock passed the deadline, fairness of the rotation, a dry run sends nothing; a
    cycle whose requests are answered in bounded time returns in bounded time.
  \<^item> Registry: the active array is exactly the Active volumes in every reachable state, terms of a volume
    are final, a trigger is its decision table and reverts only where PostageStamp documents that it refuses,
    a topup restores the runway at the cost of exactly its charge, money is pulled from consenting payers only, ids never
    collide, a batch is topped up at most once while time stands still, a volume is retired for a reason
    that held.
  \<^item> Both: the keeper's ABI is the contract's, its enumeration the active set, its reading of a receipt the
    decision, and a cycle on an honest node the registry's triggers in turn, of distinct Active volumes, as many as
    cap and deadline admit, each reported as decided or, where the contract reverted it, as failed.
    On a faulty node: at most one transaction and one mined trigger for each entry of the list, and every success
    reported is the decision made on the chain.
  \<^item> Indexer: the ranges of a sync end and cover; the cache is exactly once up to its head after any
    kills between two rows; a resumed sync projects what a sync from genesis does, unless it was killed, and then what it
    projects twice; every event decodes; the active volumes and accounts projected for any moment are the
    registry's; fees are counted once; the series run from genesis day to the last without a gap. The
    command syncs the text of its files as the row store says; the published file reads back as what was
    written (its time cut to the second), only a sync that succeeds replaces it, and one whose final write
    fails may leave the beginning of the new text, which nothing reads, and \<open>stat\<close> shows the entry a sync projected; text cut
    in the middle of a line stops every later sync; deriving the registry keeps what is registered, adds
    supported versions only, and settles.
  \<^item> Reporting: report and result agree, counts are a tally, texts are bounded, scrubbing hides secrets and
    keeps the status; the private key is in no line or alert of a run.
  \<^item> Configuration and Worker: accepted exactly when every setting is right, problems tell no secret,
    one report per run, success of an invocation means that the cycle ran, health answers.
  \<^item> Divergences, proved as theorems: \<open>trigger_of_inactive_is_unknown_skip\<close>, \<open>padded_key_is_not_masked\<close>,
    \<open>empty_error_is_not_a_failure\<close>, \<open>long_problem_exceeds_limit\<close>, \<open>divided_secret_survives\<close>,
    \<open>keeper_abi_lacks_one_error\<close>, \<open>sync_projects\<close> (rows a killed sync left are projected twice),
    \<open>unknown_depth_stops_projection\<close>, \<open>cut_text_stops_syncs\<close>, \<open>malformed_quote_raises\<close>, \<open>cut_publication_blocks\<close>, and the one throw in
    \<open>run_logs_once_and_alerts\<close>.

  Bounds. Only the JSON reader has fuel, twice the length of its text and two, which \<open>loads_dumps\<close> shows to be
  enough for every text that is written. Times are before the year 9994 and text is Latin-1, which holds the
  hexadecimal, names and dates that the indexer writes. The loops of the keeper run over lists, and the loops of the contract
  over arrays; the range loop of the indexer is a partial function, with the theorem that says when it
  has a result, and the genesis search a function with a measure. The keeper's page arithmetic is exact for page sizes up to \<open>2 ^ 53\<close>; counts in the
  contract are \<open>uint32\<close>, and a history of calls is one whose calls find fewer than \<open>2 ^ 32\<close> active volumes. The
  clock of a sync is in microseconds. The gas multiplier is the whole percentage that \<open>Math.round\<close> makes of it. A
  text is lowered in its ASCII letters only.

  Parameters. viem (client, event parsing, keccak256, formatting), the URL parser and number literals
  other than digit strings, the network, the clock, the console, the Telegram endpoint, PostageStamp,
  the BZZ token and the contract's keccak256 are arguments. Theorems hold for all of them unless a
  hypothesis says otherwise (\<open>token_documented\<close> and \<open>postage_documented\<close>, which state when the token and PostageStamp answer and
  when \<open>topUp\<close> refuses, \<open>postage_books\<close>, \<open>pinned_to\<close>, \<open>honest_node\<close>, \<open>faulty_node\<close>, \<open>prompt\<close>, and for the indexer \<open>serves_chain\<close>, a node that returns the logs of finalized
  blocks as they are, and \<open>holds_log\<close>), and each
  such theorem has a witness with concrete functions. What the source starts in one \<open>Promise.all\<close> runs in
  list order.

  Not modelled. The generated runtime types of
  \<open>worker-configuration.d.ts\<close> other than \<open>Env\<close>; stack traces and \<open>JSON.stringify\<close> of a log line; the
  tests and their in-memory chain; the scripts that deploy. Of the indexer: the root path of the store, the
  parsing of arguments, progress and messages. Floats are a
  parameter, with their arithmetic and their text; the order in which a row's arguments are written, the
  node, any request of which may fail, the price service, the clock and what becomes of the final write
  (\<open>sv_write\<close>) are parameters too, and a raised exception is \<open>None\<close> or an outcome
  of its own where the code tells exceptions apart.
\<close>

section \<open>The keeper and the registry together\<close>

text \<open>
  C6: a cycle's enumeration is the registry's active set. Pinned to a block whose registry satisfies its
  storage invariant, the cycle finds every Active volume exactly once and nothing else, whatever the
  page size; and where the cap admits them all, the volumes it sets out to attempt are exactly the
  Active ones, each once.
\<close>

theorem cycle_covers_active_set:
  assumes "active_set r" "pinned_to C P T r b w" "inj (text32 T)"
    and "nullish (cp_mode P) AllVolumes = AllVolumes"
    and "1 \<le> nullish (cp_pageSize P) 100" "nullish (cp_pageSize P) 100 \<le> 2 ^ 53"
    and "length (activeVolumeIds r) \<le> nullish (cp_maxVolumesPerCycle P) 50"
  shows "\<exists>ids. enumeration C P w = Some (b, ids) \<and> distinct (attempt_list V P b ids) \<and>
    set (attempt_list V P b ids) = text32 T ` {v. v_status (volumes r v) = StatusActive} \<and>
    length (attempt_list V P b ids) = length (activeVolumeIds r)"
proof -
  let ?ids = "map (text32 T) (activeVolumeIds r)"
  have whole: "attempt_list V P b ?ids = rotateVolumes V ?ids b"
    using assms(7) by (simp add: attempt_list_whole)
  have "distinct ?ids"
    using assms(1,3) by (auto simp: active_set_def distinct_map intro: inj_on_subset)
  moreover have "{v. v_status (volumes r v) = StatusActive} = set (activeVolumeIds r)"
    using assms(1) by (auto simp: active_set_def)
  ultimately show ?thesis using enumeration_active [OF assms(1,2,4-6)]
    by (intro exI [of _ ?ids]) (simp add: whole)
qed

definition sample_reader :: "unit client" where
  "sample_reader = silent_client
     \<lparr>get_block_number := (\<lambda>w. (Inr 7, w)),
      read_active_count := (\<lambda>_ _ w. (Inr 1, w)),
      multicall_active_pages := (\<lambda>_ _ calls w.
        (Inr (map (\<lambda>(off, len). registry_page sample_text sample_registry off len) calls), w))\<rparr>"

theorem cycle_covers_active_set_witness:
  "\<exists>ids. enumeration sample_reader sample_params () = Some (7, ids) \<and>
     distinct (attempt_list sample_viem sample_params 7 ids) \<and>
     set (attempt_list sample_viem sample_params 7 ids) =
       text32 sample_text ` {v. v_status (volumes sample_registry v) = StatusActive} \<and>
     length (attempt_list sample_viem sample_params 7 ids) = length (activeVolumeIds sample_registry)"
proof (rule cycle_covers_active_set)
  show "active_set sample_registry" using sample_active_set by (simp add: sample_chain_def)
  show "pinned_to sample_reader sample_params sample_text sample_registry 7 ()"
    by (simp add: pinned_to_def reads_index_def sample_reader_def silent_client_def
        activeVolumeCount_def sample_registry_def)
  show "inj (text32 sample_text)" proof (rule injI)
    fix x y :: bytes32
    assume "text32 sample_text x = text32 sample_text y"
    then have "unat x = unat y" by (simp add: sample_text_def)
    then show "x = y" by (rule unsigned_word_eqI)
  qed
qed (simp_all add: sample_params_def sample_registry_def)

text \<open>
  C7: what the keeper reports of a mined trigger is what the registry decided: topped up with the amount
  charged, retired or skipped, or nothing to do. The reason it names is the member of the contract's enum that
  the decision has, and for a volume that is not Active, whose two reasons the keeper does not know,
  \<open>Unknown(3)\<close> or \<open>Unknown(4)\<close>. The receipt's events, decoded from whatever logs carry them, tell the
  decision of that very call.
\<close>

theorem keeper_reports_decision:
  assumes "active_set (st_registry s)" "triggerOne X w c v s = Inr (oc, s')"
    and "st_events s' = st_events s @ es"
    and "parseLogs (from_registry reg logs) = List.map_filter (event_of T) es"
  shows "summarizeVolume (decodeCycleEvents parseLogs logs reg) (text32 T v) =
    verdict_summary (volumes (st_registry s) v) (decide X w c v s)"
  by (rule receipt_tells_verdict; fact assms)

theorem keeper_reports_decision_witness:
  "summarizeVolume (decodeCycleEvents
       (\<lambda>_. [Toppedup (text32 sample_text 11) (100 * 2 ^ 20) 250]) [] (js ''0xr'')) (text32 sample_text 11) =
     SummaryToppedUp (100 * 2 ^ 20)"
proof -
  let ?es = "[LogToppedup 11 (push_bit 20 100) 250]"
  obtain oc s' where t: "triggerOne sample_externals sample_wiring sample_call 11 sample_chain = Inr (oc, s')"
    "st_events s' = st_events sample_chain @ ?es"
    unfolding triggerOne_decides sample_decision
    by (simp add: pay_topup_def require_call_def checked_add_def sample_externals_def sample_chain_def
        sample_registry_def Let_def)
  from keeper_reports_decision [OF sample_active_set t, where T = sample_text and reg = "js ''0xr''" and
      logs = "[]" and parseLogs = "\<lambda>_. [Toppedup (text32 sample_text 11) (100 * 2 ^ 20) 250]"]
  show ?thesis
    by (simp add: map_filter_simps sample_decision) (simp add: sample_chain_def sample_registry_def)
qed

text \<open>
  A trigger of an id the registry does not know, or of a retired volume, does not revert; it is
  mined with a skip event, and the keeper names its reason \<open>Unknown(3)\<close> or \<open>Unknown(4)\<close>, as its table
  of reasons ends before them.
\<close>

lemma trigger_of_inactive_is_unknown_skip:
  "case v_status (volumes (st_registry s) v) of
     StatusActive \<Rightarrow> True
   | StatusNone \<Rightarrow>
       triggerOne X w c v s = Inr (OutcomeSkipped, emit (LogTopupSkipped v SkipNotFound) s) \<and>
       verdict_summary (volumes (st_registry s) v) (decide X w c v s) = SummaryTopupSkipped (js ''Unknown(3)'')
   | StatusRetired \<Rightarrow>
       triggerOne X w c v s = Inr (OutcomeSkipped, emit (LogTopupSkipped v SkipNotActive) s) \<and>
       verdict_summary (volumes (st_registry s) v) (decide X w c v s) = SummaryTopupSkipped (js ''Unknown(4)'')"
  by (simp add: triggerOne_decides decide_def decision_table_def Let_def split: volume_status.split)

section \<open>A cycle on a chain that runs the registry\<close>

text \<open>
  C1: a cycle is the registry's triggers. Take a node that answers reads truly, mines what it is sent, and
  refuses to estimate a trigger that would revert; and a cycle that enumerates the chain's registry (mode
  \<open>all\<close>, no dry run, pages of 1 to 2^53, a gas multiplier of at least 100 percent). It brings the chain
  exactly where its triggers, one after the other, would: each of an Active volume, none twice, in the
  rotated order, a trigger that the contract reverts (as under a paused PostageStamp) changing nothing. Its
  result says of each volume, in order, what the registry decided, or that it failed where the trigger
  reverted, and is ok exactly when none did. As many of the Active volumes are tried as
  \<open>maxVolumesPerCycle\<close> admits, unless the deadline cuts the cycle, and then after at least one and with a
  warning that counts the rest.
\<close>

theorem cycle_runs_the_registry:
  assumes "honest_node N X wr T V (cp_registry P) C"
    and "active_set (st_registry (nd_chain N w))" and "pinned_to C P T (st_registry (nd_chain N w)) b w"
    and "nullish (cp_mode P) AllVolumes = AllVolumes"
    and "1 \<le> nullish (cp_pageSize P) 100" "nullish (cp_pageSize P) 100 \<le> 2 ^ 53"
    and "\<not> nullish (cp_dryRun P) False" "100 \<le> nullish (cp_gasPercent P) 120"
  shows "\<exists>calls outs.
    trigger_tries X wr calls (nd_chain N w) = (outs, nd_chain N (snd (runKeeperCycle C V P w))) \<and>
    list_all2 reports_of outs (cr_volumes (fst (runKeeperCycle C V P w))) \<and>
    map vr_volumeId (cr_volumes (fst (runKeeperCycle C V P w))) = map (\<lambda>(c, v). text32 T v) calls \<and>
    cr_ok (fst (runKeeperCycle C V P w)) = (None \<notin> set outs) \<and>
    distinct (map snd calls) \<and>
    set (map snd calls) \<subseteq> {v. v_status (volumes (st_registry (nd_chain N w)) v) = StatusActive} \<and>
    map snd calls = take (length calls) (rotate (hexToBigInt V (keccak256 V (numberToHex32 V b)))
      (activeVolumeIds (st_registry (nd_chain N w)))) \<and>
    set (map fst calls) \<subseteq> range (nd_context N) \<and>
    (length calls = min (nullish (cp_maxVolumesPerCycle P) 50)
       (card {v. v_status (volumes (st_registry (nd_chain N w)) v) = StatusActive}) \<or>
     cut_by_deadline P (clock_readings C V P w) (length calls)
       (min (nullish (cp_maxVolumesPerCycle P) 50)
         (card {v. v_status (volumes (st_registry (nd_chain N w)) v) = StatusActive}))
       (fst (runKeeperCycle C V P w)))"
proof -
  let ?ids = "activeVolumeIds (st_registry (nd_chain N w))"
  let ?k = "hexToBigInt V (keccak256 V (numberToHex32 V b))" and ?max = "nullish (cp_maxVolumesPerCycle P) 50"
  have active: "set ?ids = {v. v_status (volumes (st_registry (nd_chain N w)) v) = StatusActive}"
    "distinct ?ids" using assms(2) by (auto simp: active_set_def)
  have card: "card {v. v_status (volumes (st_registry (nd_chain N w)) v) = StatusActive} = length ?ids"
    unfolding active(1) [symmetric] by (rule distinct_card [OF active(2)])
  obtain calls outs where c:
    "trigger_tries X wr calls (nd_chain N w) = (outs, nd_chain N (snd (runKeeperCycle C V P w)))"
    "list_all2 reports_of outs (cr_volumes (fst (runKeeperCycle C V P w)))"
    "map vr_volumeId (cr_volumes (fst (runKeeperCycle C V P w))) = map (\<lambda>(c, v). text32 T v) calls"
    "cr_ok (fst (runKeeperCycle C V P w)) = (None \<notin> set outs)"
    "map snd calls = take (length calls) (take ?max (rotate ?k ?ids))"
    "set (map fst calls) \<subseteq> range (nd_context N)"
    "length calls = min ?max (length ?ids) \<or>
     cut_by_deadline P (clock_readings C V P w) (length calls) (min ?max (length ?ids)) (fst (runKeeperCycle C V P w))"
    using cycle_on_chain [OF assms(1,7,8,2) enumeration_active [OF assms(2-6)]] by blast
  have "length calls \<le> ?max" using c(7) by (auto simp: cut_by_deadline_def)
  then have order: "map snd calls = take (length calls) (rotate ?k ?ids)" using c(5) by (simp add: min_absorb1)
  then have "distinct (map snd calls)" "set (map snd calls) \<subseteq> set ?ids"
    using active(2) set_take_subset [of "length calls" "rotate ?k ?ids"] by (metis distinct_rotate distinct_take, simp)
  then show ?thesis unfolding card using c(1-4,6,7) order unfolding active(1) by blast
qed

theorem cycle_runs_the_registry_witness:
  "\<exists>calls outs.
     trigger_tries sample_externals sample_wiring calls sample_chain =
       (outs, fst (snd (runKeeperCycle (node_client sample_externals) node_viem sample_params (sample_chain, 3, None)))) \<and>
     list_all2 reports_of outs
       (cr_volumes (fst (runKeeperCycle (node_client sample_externals) node_viem sample_params (sample_chain, 3, None)))) \<and>
     map snd calls = [11]"
proof -
  let ?w = "(sample_chain, 3, None) :: unit node_world" and ?C = "node_client sample_externals"
  have chain: "nd_chain sample_node u = fst u" for u by (simp add: sample_node_def)
  have reg: "cp_registry sample_params = js ''0xr''" by (simp add: sample_params_def)
  have pinned: "pinned_to ?C sample_params sample_text (st_registry (fst ?w)) 7 ?w"
    by (simp add: pinned_to_def reads_index_def node_client_def sample_chain_def)
  have inv: "active_set (st_registry (fst ?w))" using sample_active_set by simp
  have ids: "activeVolumeIds (st_registry (fst ?w)) = [11]"
    by (simp add: sample_chain_def sample_registry_def)
  have active: "{v. v_status (volumes (st_registry (fst ?w)) v) = StatusActive} = {11}"
    by (auto simp: sample_chain_def sample_registry_def zero_volume_def empty_registry_def)
  have P: "nullish (cp_mode sample_params) AllVolumes = AllVolumes"
    "1 \<le> nullish (cp_pageSize sample_params) 100" "nullish (cp_pageSize sample_params) 100 \<le> 2 ^ 53"
    "\<not> nullish (cp_dryRun sample_params) False" "100 \<le> nullish (cp_gasPercent sample_params) 120"
    "nullish (cp_maxVolumesPerCycle sample_params) 50 = 2"
    by (simp_all add: sample_params_def)
  obtain calls outs where c:
    "trigger_tries sample_externals sample_wiring calls (fst ?w) =
       (outs, fst (snd (runKeeperCycle ?C node_viem sample_params ?w)))"
    "list_all2 reports_of outs (cr_volumes (fst (runKeeperCycle ?C node_viem sample_params ?w)))"
    "set (map snd calls) \<subseteq> {11}" "distinct (map snd calls)"
    "length calls = min 2 (card {11 :: bytes32}) \<or>
     cut_by_deadline sample_params (clock_readings ?C node_viem sample_params ?w) (length calls)
       (min 2 (card {11 :: bytes32})) (fst (runKeeperCycle ?C node_viem sample_params ?w))"
    using cycle_runs_the_registry [OF sample_honest [folded reg, of sample_externals], of ?w 7,
        unfolded chain active P(6),
        OF inv pinned P(1-5)] by blast
  then have "length calls = 1" by (auto simp: cut_by_deadline_def)
  then have "map snd calls = [11]" using c(3) by (cases calls) auto
  with c(2) c(1) [unfolded fst_conv] show ?thesis
    by (intro exI [of _ calls] exI [of _ outs] conjI)
qed

text \<open>The failure is real: on this chain, with Postage paused, the trigger of the volume reverts.\<close>

lemma paused_trigger_reverts:
  "trigger_try purse_externals sample_wiring (sample_call, 11) (purse_chain True) = (None, purse_chain True)"
  by (simp add: trigger_try_def triggerOne_decides decide_def decision_table_def deficit_of_def
      purse_externals_def purse_topup_def sample_wiring_def sample_call_def purse_chain_def sample_registry_def
      canPull_def expired_def pay_topup_def require_call_def Let_def)

section \<open>A cycle on a node that fails\<close>

text \<open>
  C2: whatever the node does to it, a cycle is safe. On a node that may refuse requests, lose answers,
  mine late or not at all, and that other users share, a cycle hands over at most one transaction for
  each entry of the list it enumerated (a volume that \<open>VOLUME_IDS\<close> names twice may get two), and however the
  node goes on afterwards, of each entry at most one trigger is mined for it. The registry keeps its storage
  invariant, and no volume's terms change. Every hash in the result is that of a transaction for the volume it
  is listed under, and every success is the registry's decision on the very chain that the transaction was
  mined on: topped up with the amount charged, retired or skipped with the reason, or nothing to do.
\<close>

theorem faulty_cycle_is_safe:
  assumes "faulty_node N X wr T V (cp_registry P) C" and "node_sound (N w)"
    and "enumeration C P w = Some (b, map (text32 T) vs)"
  shows "\<exists>acc.
    ns_accepted (N (snd (runKeeperCycle C V P w))) = ns_accepted (N w) @ acc \<and>
    mset (map snd acc) \<subseteq># mset vs \<and>
    keeps (st_registry (ns_chain (N w))) (st_registry (ns_chain (N (snd (runKeeperCycle C V P w))))) \<and>
    list_all (backed X wr T (N (snd (runKeeperCycle C V P w))) acc) (cr_volumes (fst (runKeeperCycle C V P w))) \<and>
    (\<forall>n. node_runs X wr (N (snd (runKeeperCycle C V P w))) n \<longrightarrow>
       mset (map (\<lambda>(h, v, c, s). v) (mined_for acc n)) \<subseteq># mset (map snd acc))"
proof -
  let ?n = "N (snd (runKeeperCycle C V P w))"
  let ?vs = "take (nullish (cp_maxVolumesPerCycle P) 50)
    (rotate (hexToBigInt V (keccak256 V (numberToHex32 V b))) vs)"
  obtain acc where acc: "node_advances acc (N w) ?n" "subseq (map snd acc) ?vs"
    "list_all (backed X wr T ?n acc) (cr_volumes (fst (runKeeperCycle C V P w)))"
    using cycle_faulty [OF assms] by blast
  have n: "node_sound ?n" "ns_accepted ?n = ns_accepted (N w) @ acc"
    "keeps (st_registry (ns_chain (N w))) (st_registry (ns_chain ?n))"
    using acc(1) assms(2) by (simp_all add: node_advances_def)
  have few: "mset (map snd acc) \<subseteq># mset vs"
    using subset_mset.order_trans [OF subseq_mset [OF acc(2)] attempts_mset] .
  have "mset (map (\<lambda>(h, v, c, s). v) (mined_for acc m)) \<subseteq># mset (map snd acc)" if "node_runs X wr ?n m" for m
    by (rule mined_once) (use runs_advance [OF that] n in \<open>simp_all add: node_advances_def\<close>)
  then show ?thesis using n few acc(3) by blast
qed

theorem faulty_cycle_is_safe_witness:
  "\<exists>acc.
    ns_accepted (snd (runKeeperCycle disturbed_client node_viem sample_params sample_node_state)) = acc \<and>
    mset (map snd acc) \<subseteq># {#11#} \<and>
    list_all (backed sample_externals sample_wiring sample_text
        (snd (runKeeperCycle disturbed_client node_viem sample_params sample_node_state)) acc)
      (cr_volumes (fst (runKeeperCycle disturbed_client node_viem sample_params sample_node_state)))"
proof -
  have reg: "cp_registry sample_params = js ''0xr''" by (simp add: sample_params_def)
  have ids: "activeVolumeIds sample_registry = [11]" by (simp add: sample_registry_def)
  have "enumeration disturbed_client sample_params sample_node_state =
      Some (7, map (text32 sample_text) (activeVolumeIds sample_registry))"
  proof (rule enumeration_active)
    show "active_set sample_registry" using sample_active_set by (simp add: sample_chain_def)
    show "pinned_to disturbed_client sample_params sample_text sample_registry 7 sample_node_state"
      by (simp add: pinned_to_def reads_index_def disturbed_client_def)
  qed (simp_all add: sample_params_def)
  note enum = this [unfolded ids]
  have start: "ns_accepted sample_node_state = []" by (simp add: sample_node_state_def)
  show ?thesis
    using faulty_cycle_is_safe [OF disturbed_faulty [folded reg] sample_node_sound enum]
    unfolding start append_Nil by auto
qed

end
